(* ===== verification/Prelude.thy ===== *)
theory Prelude
  imports Main "HOL-Library.Word"
begin

unbundle bit_operations_syntax

text \<open>
  Shared vocabulary of the development: bytes and their big-endian readings (the network order
  of \<open>htonl\<close>, \<open>ntohl\<close> and of the hand written shifts in the code), C strings, the three ways a C++
  call can end, and the staged form of the \<open>do { ... break; ... } while (false)\<close> blocks that the
  FFmpeg and WinSock code uses.  The collections below gather the facts that the component
  theories share: \<open>be_simps\<close> (byte order), \<open>stage_rules\<close> (invariants of staged blocks) and
  \<open>ledger\<close> (the resource ledger of the FFmpeg calls).
\<close>

named_theorems be_simps \<open>reading and writing big-endian numbers\<close>
named_theorems stage_rules \<open>staged blocks keep an invariant\<close>
named_theorems ledger \<open>what one FFmpeg call does to the ledger of live resources\<close>

type_synonym byte = "8 word"
type_synonym u16 = "16 word"
type_synonym u32 = "32 word"
type_synonym u64 = "64 word"

subsection \<open>The end of a C++ call\<close>

text \<open>
  A call returns, throws a C++ exception, or does something the language gives no meaning to
  (here: a read outside the source buffer).  The last is a value of the model, so that a theorem
  can say that it does not happen, or that it does.
\<close>

datatype ('e, 'a) outcome = Ret 'a | Throw 'e | OutOfBounds

subsection \<open>Big-endian numbers\<close>

fun be_val :: "byte list \<Rightarrow> nat" where
  "be_val [] = 0"
| "be_val (b # bs) = unat b * 256 ^ length bs + be_val bs"

fun be_bytes :: "nat \<Rightarrow> nat \<Rightarrow> byte list" where
  "be_bytes 0 v = []"
| "be_bytes (Suc k) v = word_of_nat (v div 256 ^ k) # be_bytes k v"

lemma be_bytes_numeral [simp]:
  "be_bytes (numeral k) v = word_of_nat (v div 256 ^ pred_numeral k) # be_bytes (pred_numeral k) v"
  "be_bytes 1 v = [word_of_nat v]"
  by (simp_all add: numeral_eq_Suc)

lemma unat_byte_less [simp]: "unat (b :: byte) < 256"
  by (rule less_le_trans [OF unsigned_less]) simp

lemma length_be_bytes [simp, be_simps]: "length (be_bytes k v) = k"
  by (induction k) auto

lemma be_val_bound [be_simps]: "be_val bs < 256 ^ length bs"
proof (induction bs)
  case Nil
  then show ?case by simp
next
  case (Cons b bs)
  have "unat b \<le> 255" using unat_byte_less [of b] by linarith
  then have "unat b * 256 ^ length bs \<le> 255 * 256 ^ length bs" by (rule mult_le_mono1)
  moreover have "be_val (b # bs) = unat b * 256 ^ length bs + be_val bs"
    and "(256 :: nat) ^ length (b # bs) = 255 * 256 ^ length bs + 256 ^ length bs"
    by simp_all
  ultimately show ?case using Cons.IH by linarith
qed

lemma unat_byte_of_nat [be_simps]: "unat (word_of_nat n :: byte) = n mod 256"
  by (simp add: unat_of_nat)

lemma be_val_be_bytes_mod [be_simps]: "be_val (be_bytes k v) = v mod 256 ^ k"
proof (induction k)
  case 0
  then show ?case by simp
next
  case (Suc k)
  have "v mod (256 ^ k * 256) = 256 ^ k * (v div 256 ^ k mod 256) + v mod 256 ^ k"
    by (rule mod_mult2_eq)
  with Suc show ?case
    by (simp add: unat_byte_of_nat mult.commute)
qed

lemma be_val_be_bytes [simp, be_simps]: "v < 256 ^ k \<Longrightarrow> be_val (be_bytes k v) = v"
  by (simp add: be_val_be_bytes_mod)

lemma be_bytes_add [be_simps]: "be_bytes k (v + c * 256 ^ k) = be_bytes k v"
proof (induction k arbitrary: c)
  case 0
  then show ?case by simp
next
  case (Suc k)
  have eq: "v + c * 256 ^ Suc k = v + (c * 256) * 256 ^ k" by simp
  have "(v + (c * 256) * 256 ^ k) div 256 ^ k = v div 256 ^ k + c * 256"
    by (simp add: add.commute)
  moreover have "(word_of_nat (v div 256 ^ k + c * 256) :: byte) = word_of_nat (v div 256 ^ k)"
    by (simp only: word_of_nat_eq_iff take_bit_eq_mod) simp
  ultimately show ?case
    using Suc.IH [of "c * 256"] by (simp only: eq be_bytes.simps)
qed

lemma be_bytes_be_val [simp, be_simps]: "be_bytes (length bs) (be_val bs) = bs"
proof (induction bs)
  case Nil
  then show ?case by simp
next
  case (Cons b bs)
  have lt: "be_val bs < 256 ^ length bs" by (rule be_val_bound)
  have "(unat b * 256 ^ length bs + be_val bs) div 256 ^ length bs = unat b"
    using lt by simp
  moreover have "be_bytes (length bs) (unat b * 256 ^ length bs + be_val bs) = bs"
    using be_bytes_add [of "length bs" "be_val bs" "unat b"] Cons.IH by (simp add: add.commute)
  ultimately show ?case by simp
qed

lemma be_val_inject: "length bs = length cs \<Longrightarrow> be_val bs = be_val cs \<longleftrightarrow> bs = cs"
  by (metis be_bytes_be_val)

subsection \<open>Text\<close>

text \<open>Network buffers are bytes; the code reads some of them as 8 bit characters.\<close>

definition chars_of :: "byte list \<Rightarrow> string" where
  "chars_of bs = map (\<lambda>b. char_of (unat b)) bs"

definition bytes_of :: "string \<Rightarrow> byte list" where
  "bytes_of cs = map (\<lambda>c. word_of_nat (of_char c)) cs"

lemma length_chars_of [simp]: "length (chars_of bs) = length bs"
  by (simp add: chars_of_def)

lemma length_bytes_of [simp]: "length (bytes_of cs) = length cs"
  by (simp add: bytes_of_def)

lemma chars_of_bytes_of [simp]: "chars_of (bytes_of cs) = cs"
  by (induction cs) (simp_all add: chars_of_def bytes_of_def unat_byte_of_nat)

lemma bytes_of_chars_of [simp]: "bytes_of (chars_of bs) = bs"
proof (induction bs)
  case Nil
  then show ?case by (simp add: chars_of_def bytes_of_def)
next
  case (Cons b bs)
  have "unat b < 256" by simp
  then have "(word_of_nat (of_char (char_of (unat b) :: char)) :: byte) = b"
    by (simp add: of_char_of)
  with Cons show ?case by (simp add: chars_of_def bytes_of_def)
qed

lemma chars_of_append [simp]: "chars_of (xs @ ys) = chars_of xs @ chars_of ys"
  by (simp add: chars_of_def)

lemma bytes_of_append [simp]: "bytes_of (xs @ ys) = bytes_of xs @ bytes_of ys"
  by (simp add: bytes_of_def)

text \<open>\<open>std::string(const char *)\<close> stops at the first NUL.\<close>

definition c_string :: "string \<Rightarrow> string" where
  "c_string cs = takeWhile (\<lambda>c. c \<noteq> CHR 0x00) cs"

lemma c_string_id: "CHR 0x00 \<notin> set cs \<Longrightarrow> c_string cs = cs"
  unfolding c_string_def by (subst takeWhile_eq_all_conv) auto

lemma c_string_le [simp]: "length (c_string cs) \<le> length cs"
  by (simp add: c_string_def length_takeWhile_le)

lemma c_string_short: "CHR 0x00 \<in> set cs \<Longrightarrow> length (c_string cs) < length cs"
  unfolding c_string_def
  by (metis (full_types) linorder_not_less set_takeWhileD takeWhile_eq_take take_all_iff)

subsection \<open>Staged blocks\<close>

text \<open>
  \<open>do { s1; if (..) break; s2; if (..) break; ... } while (false)\<close>: every stage acts on the
  state and says whether the block goes on.  The result says whether the end was reached.
\<close>

type_synonym 's stage = "'s \<Rightarrow> bool \<times> 's"

fun run_stages :: "'s stage list \<Rightarrow> 's \<Rightarrow> bool \<times> 's" where
  "run_stages [] s = (True, s)"
| "run_stages (f # fs) s = (case f s of (go, s') \<Rightarrow> if go then run_stages fs s' else (False, s'))"

lemma run_stages_append:
  "run_stages (fs @ gs) s =
     (case run_stages fs s of (go, s') \<Rightarrow> if go then run_stages gs s' else (False, s'))"
  by (induction fs arbitrary: s) (auto split: prod.splits)

lemma run_stages_inv [stage_rules]:
  assumes "\<And>f s. f \<in> set fs \<Longrightarrow> P s \<Longrightarrow> P (snd (f s))" and "P s"
  shows "P (snd (run_stages fs s))"
  using assms
proof (induction fs arbitrary: s)
  case Nil
  then show ?case by simp
next
  case (Cons f fs)
  obtain go s' where fs: "f s = (go, s')" by (cases "f s")
  have "P s'" using Cons.prems(1) [of f s] Cons.prems(2) fs by simp
  with Cons fs show ?case by simp
qed

text \<open>
  \<open>triple P fs Q R\<close>: from \<open>P\<close> the block reaches its end in \<open>Q\<close> or breaks off in \<open>R\<close>.
\<close>

definition triple :: "('s \<Rightarrow> bool) \<Rightarrow> 's stage list \<Rightarrow> ('s \<Rightarrow> bool) \<Rightarrow> ('s \<Rightarrow> bool) \<Rightarrow> bool" where
  "triple P fs Q R \<longleftrightarrow>
     (\<forall>s. P s \<longrightarrow> (case run_stages fs s of (go, s') \<Rightarrow> if go then Q s' else R s'))"

lemma triple_Nil: "(\<And>s. P s \<Longrightarrow> Q s) \<Longrightarrow> triple P [] Q R"
  by (simp add: triple_def)

lemma triple_Cons [stage_rules]:
  assumes "\<And>s. P s \<Longrightarrow> (case f s of (go, s') \<Rightarrow> if go then P' s' else R s')"
    and "triple P' fs Q R"
  shows "triple P (f # fs) Q R"
  unfolding triple_def
proof (intro allI impI)
  fix s assume "P s"
  obtain go s' where fs: "f s = (go, s')" by (cases "f s")
  from assms(1) [OF \<open>P s\<close>] fs assms(2)
  show "case run_stages (f # fs) s of (go, s') \<Rightarrow> if go then Q s' else R s'"
    by (auto simp: triple_def)
qed

lemma triple_single:
  "(\<And>s. P s \<Longrightarrow> (case f s of (go, s') \<Rightarrow> if go then Q s' else R s')) \<Longrightarrow> triple P [f] Q R"
  by (rule triple_Cons [OF _ triple_Nil])

lemma tripleD:
  "triple P fs Q R \<Longrightarrow> P s \<Longrightarrow> run_stages fs s = (go, s') \<Longrightarrow> if go then Q s' else R s'"
  by (auto simp: triple_def)

subsection \<open>Objects driven by a list of operations\<close>

text \<open>
  An object is used through calls of its operations, one after the other; \<open>None\<close> means that a
  call does not return.  The locale states the contract of an object once: an invariant that every
  permitted call keeps, and with which every permitted call returns.
\<close>

fun run_ops :: "('op \<Rightarrow> 's \<Rightarrow> 's option) \<Rightarrow> 'op list \<Rightarrow> 's \<Rightarrow> 's option" where
  "run_ops f [] s = Some s"
| "run_ops f (a # as) s = (case f a s of None \<Rightarrow> None | Some s' \<Rightarrow> run_ops f as s')"

lemma run_ops_append:
  "run_ops f (as @ bs) s = (case run_ops f as s of None \<Rightarrow> None | Some s' \<Rightarrow> run_ops f bs s')"
  by (induction as arbitrary: s) (auto split: option.splits)

locale guarded_component =
  fixes step :: "'op \<Rightarrow> 's \<Rightarrow> 's option"
    and inv :: "'s \<Rightarrow> bool"
    and permitted :: "'op \<Rightarrow> bool"
  assumes guarded_keeps: "inv s \<Longrightarrow> permitted a \<Longrightarrow> \<exists>s'. step a s = Some s' \<and> inv s'"
begin

lemma run_guarded: "inv s \<Longrightarrow> list_all permitted as \<Longrightarrow> \<exists>s'. run_ops step as s = Some s' \<and> inv s'"
proof (induction as arbitrary: s)
  case (Cons a as)
  from Cons.prems have "permitted a" by simp
  from guarded_keeps [OF Cons.prems(1) this] obtain s' where "step a s = Some s'" "inv s'" by blast
  with Cons.IH [of s'] Cons.prems(2) show ?case by simp
qed simp

end

text \<open>An object all of whose calls are permitted.\<close>

locale component =
  fixes step :: "'op \<Rightarrow> 's \<Rightarrow> 's option"
    and inv :: "'s \<Rightarrow> bool"
  assumes step_keeps: "inv s \<Longrightarrow> \<exists>s'. step a s = Some s' \<and> inv s'"

sublocale component \<subseteq> guarded: guarded_component step inv "\<lambda>a. True"
  by unfold_locales (simp add: step_keeps)

context component
begin

lemma run_keeps: "inv s \<Longrightarrow> \<exists>s'. run_ops step as s = Some s' \<and> inv s'"
  using guarded.run_guarded [of s as] by (simp add: list_all_iff)

lemma run_total: "inv s \<Longrightarrow> run_ops step as s \<noteq> None"
  using run_keeps [of s as] by auto

lemma run_inv: "inv s \<Longrightarrow> run_ops step as s = Some s' \<Longrightarrow> inv s'"
  using run_keeps [of s as] by simp

end

end
