(* ===== verification/BoxFilter.thy ===== *)
theory BoxFilter
  imports Prelude
begin

text \<open>
  The MP4 box reader and filter of the live stream sender: \<open>Box\<close> (inc/CStreamVideo.hpp),
  \<open>readBox\<close> and \<open>videoStream::filterAtoms\<close> (src/CStreamVideo.cpp).  A packet is a byte list, an
  offset a natural number (the sums of the code stay far below \<open>2 ^ 64\<close>, so \<open>size_t\<close> does not
  wrap there); the box size is the 32 bit word the code reads, because \<open>box.size - 8\<close> does wrap.
  \<open>can_alloc n\<close> says whether \<open>std::vector::resize (n)\<close> gets its memory.
\<close>

subsection \<open>The data and the two functions\<close>

record box =
  box_size :: u32
  box_type :: string
  box_data :: "byte list"

datatype box_error = Incomplete_box_header | Incomplete_box_data | Bad_alloc

definition readBox ::
    "(nat \<Rightarrow> bool) \<Rightarrow> byte list \<Rightarrow> nat \<Rightarrow> nat \<times> (box_error, box) outcome" where
  "readBox can_alloc data offset =
     (if offset + 8 > length data then (offset, Throw Incomplete_box_header)
      else let size = (word_of_nat (be_val (take 4 (drop offset data))) :: u32);
               type = c_string (chars_of (take 4 (drop (offset + 4) data)));
               offset = offset + 8
           in if offset + unat size - 8 > length data then (offset, Throw Incomplete_box_data)
              else let n = unat (size - 8)
                   in if \<not> can_alloc n then (offset, Throw Bad_alloc)
                      else if offset + n > length data then (offset, OutOfBounds)
                      else (offset + n,
                            Ret \<lparr>box_size = size, box_type = type,
                                 box_data = take n (drop offset data)\<rparr>))"

definition write_box :: "box \<Rightarrow> byte list" where
  "write_box b = be_bytes 4 (unat (box_size b)) @ bytes_of (box_type b) @ box_data b"

definition kept_type :: "string \<Rightarrow> bool" where
  "kept_type t \<longleftrightarrow> t \<noteq> ''ftyp'' \<and> t \<noteq> ''moov''"

lemma readBox_progress:
  assumes "readBox ca data offset = (offset', Ret b)"
  shows "offset + 8 \<le> offset'" and "offset' \<le> length data"
  using assms by (auto simp: readBox_def Let_def split: if_splits)

function filter_from ::
    "(nat \<Rightarrow> bool) \<Rightarrow> byte list \<Rightarrow> nat \<Rightarrow> byte list \<Rightarrow> (box_error, byte list) outcome" where
  "filter_from can_alloc packet offset filtered_packet =
     (if offset < length packet then
        (case readBox can_alloc packet offset of
           (offset', Ret b) \<Rightarrow>
             filter_from can_alloc packet offset'
               (if kept_type (box_type b) then filtered_packet @ write_box b else filtered_packet)
         | (_, Throw e) \<Rightarrow> Ret filtered_packet
         | (_, OutOfBounds) \<Rightarrow> OutOfBounds)
      else Ret filtered_packet)"
  by pat_completeness auto
termination
  by (relation "measure (\<lambda>(ca, packet, offset, acc). length packet - offset)")
    (auto dest!: sym [of "(_, _)"] dest: readBox_progress)

declare filter_from.simps [simp del]

definition filterAtoms :: "(nat \<Rightarrow> bool) \<Rightarrow> byte list \<Rightarrow> (box_error, byte list) outcome" where
  "filterAtoms can_alloc packet = filter_from can_alloc packet 0 []"

subsection \<open>Reading back what was written\<close>

definition wf_box :: "box \<Rightarrow> bool" where
  "wf_box b \<longleftrightarrow> length (box_type b) = 4 \<and> CHR 0x00 \<notin> set (box_type b)
     \<and> unat (box_size b) = 8 + length (box_data b)"

text \<open>The bytes of a box whose four type characters are arbitrary, NULs included.\<close>

definition raw_box :: "u32 \<Rightarrow> string \<Rightarrow> byte list \<Rightarrow> byte list" where
  "raw_box sz type4 bytes = be_bytes 4 (unat sz) @ bytes_of type4 @ bytes"

lemma write_box_raw: "write_box b = raw_box (box_size b) (box_type b) (box_data b)"
  by (simp add: write_box_def raw_box_def)

lemma length_raw_box: "length t = 4 \<Longrightarrow> length (raw_box sz t bytes) = 8 + length bytes"
  by (simp add: raw_box_def)

lemma unat_u32_less: "unat (w :: u32) < 256 ^ 4"
  by (rule less_le_trans [OF unsigned_less]) simp

lemma size_field: "word_of_nat (be_val (be_bytes 4 (unat (sz :: u32)))) = sz"
  by (simp add: be_val_be_bytes [OF unat_u32_less] del: be_bytes_numeral)

lemma readBox_raw:
  assumes t: "length t = 4" and sz: "unat sz = 8 + length bytes" and al: "ca (length bytes)"
  shows "readBox ca (pre @ raw_box sz t bytes @ post) (length pre) =
     (length pre + 8 + length bytes,
      Ret \<lparr>box_size = sz, box_type = c_string t, box_data = bytes\<rparr>)"
proof -
  let ?d = "pre @ raw_box sz t bytes @ post"
  have h: "take 4 (drop (length pre) ?d) = be_bytes 4 (unat sz)"
    by (simp add: raw_box_def)
  have ty: "take 4 (drop (length pre + 4) ?d) = bytes_of t"
    by (simp add: raw_box_def t)
  have da: "take (length bytes) (drop (length pre + 8) ?d) = bytes"
    by (simp add: raw_box_def t)
  have n: "unat (sz - 8) = length bytes"
    using sz by (simp add: unat_sub_if')
  show ?thesis
    unfolding readBox_def Let_def h ty size_field
    using t sz al da by (simp add: length_raw_box n del: drop_append)
qed

lemma filter_from_raw:
  assumes t: "length t = 4" and sz: "unat sz = 8 + length bytes" and al: "ca (length bytes)"
  shows "filter_from ca (pre @ raw_box sz t bytes @ post) (length pre) acc =
     filter_from ca (pre @ raw_box sz t bytes @ post) (length (pre @ raw_box sz t bytes))
       (if kept_type (c_string t) then acc @ raw_box sz (c_string t) bytes else acc)"
  by (subst filter_from.simps)
    (simp add: readBox_raw [where ca = ca, OF assms] length_raw_box [OF t] write_box_raw add.assoc)

lemma filter_from_boxes:
  assumes "\<forall>b\<in>set bs. wf_box b \<and> ca (length (box_data b))"
  shows "filter_from ca (pre @ concat (map write_box bs) @ post) (length pre) acc =
     filter_from ca (pre @ concat (map write_box bs) @ post)
       (length (pre @ concat (map write_box bs)))
       (acc @ concat (map write_box (filter (\<lambda>b. kept_type (box_type b)) bs)))"
  using assms
proof (induction bs arbitrary: pre acc)
  case Nil
  then show ?case by simp
next
  case (Cons b bs)
  then have b: "length (box_type b) = 4" "unat (box_size b) = 8 + length (box_data b)"
    "ca (length (box_data b))" and nul: "c_string (box_type b) = box_type b"
    by (auto simp: wf_box_def c_string_id)
  have "filter_from ca (pre @ write_box b @ concat (map write_box bs) @ post) (length pre) acc =
      filter_from ca ((pre @ write_box b) @ concat (map write_box bs) @ post)
        (length (pre @ write_box b)) (if kept_type (box_type b) then acc @ write_box b else acc)"
    using filter_from_raw [where ca = ca, OF b, of pre "concat (map write_box bs) @ post" acc]
    by (simp add: nul write_box_raw)
  also have "\<dots> = filter_from ca ((pre @ write_box b) @ concat (map write_box bs) @ post)
      (length ((pre @ write_box b) @ concat (map write_box bs)))
      ((if kept_type (box_type b) then acc @ write_box b else acc)
         @ concat (map write_box (filter (\<lambda>b. kept_type (box_type b)) bs)))"
    by (rule Cons.IH) (use Cons.prems in auto)
  finally show ?case by (simp split: if_splits)
qed

lemma filter_from_tail:
  assumes "length tail < 8"
  shows "filter_from ca (pre @ tail) (length pre) acc = Ret acc"
  using assms by (subst filter_from.simps) (simp add: readBox_def)

lemma filter_from_Throw:
  "snd (readBox ca packet offset) = Throw e \<Longrightarrow> filter_from ca packet offset acc = Ret acc"
  by (subst filter_from.simps) (auto split: prod.splits)

subsection \<open>The filter\<close>

lemma filter_boxes_tail:
  assumes "\<forall>b\<in>set bs. wf_box b \<and> can_alloc (length (box_data b))" and "length tail < 8"
  shows "filterAtoms can_alloc (concat (map write_box bs) @ tail) =
     Ret (concat (map write_box (filter (\<lambda>b. kept_type (box_type b)) bs)))"
  using filter_from_boxes [OF assms(1), of "[]" tail "[]"]
    filter_from_tail [OF assms(2), of can_alloc "concat (map write_box bs)"]
  by (simp add: filterAtoms_def)

text \<open>
  C14.  On a packet that is a sequence of boxes, followed by fewer than eight stray bytes,
  \<open>filterAtoms\<close> returns exactly the boxes whose type is neither \<open>ftyp\<close> nor \<open>moov\<close>, in their
  order and byte for byte.
\<close>

theorem filterAtoms_boxes:
  assumes "\<forall>b\<in>set bs. wf_box b \<and> can_alloc (length (box_data b))" and "length tail < 8"
  shows "filterAtoms can_alloc (concat (map write_box bs) @ tail) =
     Ret (concat (map write_box (filter (\<lambda>b. box_type b \<noteq> ''ftyp'' \<and> box_type b \<noteq> ''moov'') bs)))"
  using filter_boxes_tail [OF assms] by (simp add: kept_type_def)

lemma filterAtoms_boxes_witness:
  "filterAtoms (\<lambda>_. True)
     (concat (map write_box
        [\<lparr>box_size = 9, box_type = ''ftyp'', box_data = [1]\<rparr>,
         \<lparr>box_size = 10, box_type = ''moof'', box_data = [2, 3]\<rparr>]) @ [7]) =
   Ret (be_bytes 4 10 @ bytes_of ''moof'' @ [2, 3])"
proof -
  let ?bs = "[\<lparr>box_size = 9, box_type = ''ftyp'', box_data = [1]\<rparr>,
              \<lparr>box_size = 10, box_type = ''moof'', box_data = [2, 3]\<rparr>]"
  have "\<forall>b\<in>set ?bs. wf_box b \<and> True" by (simp add: wf_box_def)
  from filterAtoms_boxes [of ?bs "\<lambda>_. True", OF this, of "[7]"]
  show ?thesis by (simp add: write_box_def)
qed

text \<open>
  C26.  \<open>readBox\<close> never reads outside the packet when the size field is at least 8, and it does
  read outside it as soon as a complete header carries a size below 8 (a 64 bit box has 1 there,
  a box that runs to the end of the file has 0) and the resize to the wrapped size succeeds: the
  unsigned \<open>box.size - 8\<close> is then close to \<open>2 ^ 32\<close>.
\<close>

theorem readBox_out_of_bounds:
  assumes "length data < 2 ^ 32 - 8"
  shows "snd (readBox can_alloc data offset) = OutOfBounds \<longleftrightarrow>
     offset + 8 \<le> length data \<and>
     (let sz = be_val (take 4 (drop offset data)) in sz < 8 \<and> can_alloc (2 ^ 32 - 8 + sz))"
proof -
  define sz where "sz = be_val (take 4 (drop offset data))"
  have "length (take 4 (drop offset data)) \<le> 4" by simp
  then have "sz < 256 ^ 4"
    unfolding sz_def by (rule less_le_trans [OF be_val_bound power_increasing]) simp
  then have u: "unat (word_of_nat sz :: u32) = sz"
    by (simp add: unat_of_nat)
  have n: "unat ((word_of_nat sz :: u32) - 8) = (if 8 \<le> sz then sz - 8 else 2 ^ 32 - 8 + sz)"
    using u by (simp add: unat_sub_if' word_le_nat_alt)
  show ?thesis
    unfolding readBox_def Let_def sz_def [symmetric] u n
    using assms by auto
qed

lemma readBox_out_of_bounds_witness:
  "snd (readBox (\<lambda>_. True) [0, 0, 0, 0, 0, 0, 0, 0] 0) = OutOfBounds"
proof -
  have "length [0, 0, 0, 0, 0, 0, 0, 0 :: byte] < 2 ^ 32 - 8" by simp
  from readBox_out_of_bounds [OF this, of "\<lambda>_. True" 0] show ?thesis by simp
qed

lemma filter_from_length:
  "filter_from ca packet offset acc = Ret out \<Longrightarrow> offset \<le> length packet \<Longrightarrow>
     length out \<le> length acc + (length packet - offset)"
proof (induction ca packet offset acc rule: filter_from.induct)
  case (1 ca packet offset acc)
  show ?case
  proof (cases "readBox ca packet offset")
    case (Pair offset' r)
    show ?thesis
    proof (cases r)
      case (Ret b)
      from Pair Ret have len: "length (write_box b) \<le> offset' - offset" "offset' \<le> length packet"
          "offset \<le> offset'"
        using c_string_le [of "chars_of (take 4 (drop (offset + 4) packet))"]
        by (auto simp: readBox_def write_box_def Let_def split: if_splits)
      let ?acc = "if kept_type (box_type b) then acc @ write_box b else acc"
      show ?thesis
      proof (cases "offset < length packet")
        case True
        have "filter_from ca packet offset' ?acc = Ret out"
          using "1.prems"(1) True Pair Ret by (simp add: filter_from.simps [of ca packet offset])
        from "1.IH" [OF True Pair [symmetric] Ret this len(2)] len show ?thesis
          by (auto split: if_splits)
      next
        case False
        then have "filter_from ca packet offset acc = Ret acc" by (subst filter_from.simps) simp
        then show ?thesis using "1.prems" by simp
      qed
    qed (use "1.prems" Pair in \<open>auto simp: filter_from.simps [of ca packet offset] split: if_splits\<close>)
  qed
qed

text \<open>Whatever the packet, the filter never returns more bytes than it was given.
\<close>

theorem filterAtoms_length:
  "filterAtoms can_alloc packet = Ret out \<Longrightarrow> length out \<le> length packet"
  using filter_from_length [of can_alloc packet 0 "[]" out] by (simp add: filterAtoms_def)

lemma filterAtoms_length_witness:
  "filterAtoms (\<lambda>_. True) [1, 2, 3] = Ret [] \<and> length [] \<le> length [1, 2, 3 :: byte]"
proof -
  have "filterAtoms (\<lambda>_. True) [1, 2, 3] = Ret []"
    using filterAtoms_boxes [of "[]" _ "[1, 2, 3]"] by simp
  with filterAtoms_length [OF this] show ?thesis by simp
qed

text \<open>A box whose type field holds a NUL is not copied faithfully: the type goes through a C
  string, so the copy has fewer than four type bytes while its size field still announces the
  full box, and a reader of the output loses the box boundaries.
\<close>

theorem filterAtoms_nul_type:
  assumes "length t = 4" and "CHR 0x00 \<in> set t" and "unat sz = 8 + length bytes"
    and "can_alloc (length bytes)"
  shows "\<exists>out. filterAtoms can_alloc (raw_box sz t bytes) = Ret out
     \<and> out = be_bytes 4 (unat sz) @ bytes_of (c_string t) @ bytes \<and> length out < unat sz"
proof -
  have short: "length (c_string t) < 4" using c_string_short [OF assms(2)] assms(1) by simp
  then have "kept_type (c_string t)" by (auto simp: kept_type_def)
  then have "filterAtoms can_alloc (raw_box sz t bytes) = Ret (raw_box sz (c_string t) bytes)"
    using filter_from_raw [where ca = can_alloc, OF assms(1,3,4), of "[]" "[]" "[]"]
    by (simp add: filterAtoms_def filter_from.simps [of _ _ "length (raw_box sz t bytes)"])
  then show ?thesis using short assms(3) by (simp add: raw_box_def)
qed

lemma filterAtoms_nul_type_witness:
  "\<exists>out. filterAtoms (\<lambda>_. True) (raw_box 9 [CHR ''a'', CHR 0x00, CHR ''b'', CHR ''c''] [5]) = Ret out
     \<and> length out < 9"
  using filterAtoms_nul_type
    [of "[CHR ''a'', CHR 0x00, CHR ''b'', CHR ''c'']" 9 "[5]" "\<lambda>_. True"] by auto

end
