(* ===== verification/SafeQueue.thy ===== *)
theory SafeQueue
  imports Prelude
begin

text \<open>
  \<open>ThreadSafeQueue\<close> (inc/CThreadSafeQueue.hpp).  The queue itself is \<open>queue\<close>, front first.  The
  mutex makes each method one atomic step, so it has no state here; the condition variable is the
  list \<open>waiters\<close> of the threads asleep in \<open>cond_var_.wait\<close> and the list \<open>woken\<close> of those that
  have been notified (or woke spuriously) and have not yet run the predicate again.
\<close>

subsection \<open>The methods, under the lock\<close>

record 'a tsq =
  queue :: "'a list"
  waiters :: "nat list"
  woken :: "nat list"

definition new_queue :: "'a tsq" where
  "new_queue = \<lparr>queue = [], waiters = [], woken = []\<rparr>"

text \<open>\<open>notify_one\<close> wakes the waiter \<open>w\<close>; with no waiter it does nothing.\<close>

definition notify :: "nat option \<Rightarrow> 'a tsq \<Rightarrow> 'a tsq" where
  "notify w q = (case w of None \<Rightarrow> q
     | Some t \<Rightarrow> q\<lparr>waiters := remove1 t (waiters q), woken := t # woken q\<rparr>)"

definition push_with :: "nat option \<Rightarrow> 'a \<Rightarrow> 'a tsq \<Rightarrow> 'a tsq" where
  "push_with w v q = notify w (q\<lparr>queue := queue q @ [v]\<rparr>)"

abbreviation push :: "'a \<Rightarrow> 'a tsq \<Rightarrow> 'a tsq" where
  "push \<equiv> push_with None"

text \<open>\<open>None\<close>: the wait does not end in this state.  \<open>front\<close> is undefined on an empty queue.\<close>

definition pop :: "'a tsq \<Rightarrow> ('a \<times> 'a tsq) option" where
  "pop q = (case queue q of [] \<Rightarrow> None | v # vs \<Rightarrow> Some (v, q\<lparr>queue := vs\<rparr>))"

definition is_empty :: "'a tsq \<Rightarrow> bool" where
  "is_empty q \<longleftrightarrow> queue q = []"

definition front :: "'a tsq \<Rightarrow> 'a option" where
  "front q = (case queue q of [] \<Rightarrow> None | v # _ \<Rightarrow> Some v)"

subsection \<open>What a client of the queue relies on\<close>

locale fifo_queue =
  fixes enq :: "'a \<Rightarrow> 'q \<Rightarrow> 'q"
    and deq :: "'q \<Rightarrow> ('a \<times> 'q) option"
    and emptyp :: "'q \<Rightarrow> bool"
    and contents :: "'q \<Rightarrow> 'a list"
  assumes contents_enq: "contents (enq v q) = contents q @ [v]"
    and deq_None: "deq q = None \<longleftrightarrow> contents q = []"
    and deq_Some: "deq q = Some (v, q') \<Longrightarrow> contents q = v # contents q'"
    and emptyp_iff: "emptyp q \<longleftrightarrow> contents q = []"
begin

fun enq_all :: "'a list \<Rightarrow> 'q \<Rightarrow> 'q" where
  "enq_all [] q = q"
| "enq_all (v # vs) q = enq_all vs (enq v q)"

text \<open>The drain loop of the consumers: \<open>while (!q.empty()) q.pop(v)\<close>, here bounded by \<open>n\<close> rounds.\<close>

fun drain :: "nat \<Rightarrow> 'q \<Rightarrow> 'a list \<times> 'q" where
  "drain 0 q = ([], q)"
| "drain (Suc n) q = (case deq q of None \<Rightarrow> ([], q)
     | Some (v, q') \<Rightarrow> (case drain n q' of (vs, q'') \<Rightarrow> (v # vs, q'')))"

lemma contents_enq_all: "contents (enq_all vs q) = contents q @ vs"
  by (induction vs arbitrary: q) (auto simp: contents_enq)

lemma drain_all: "length (contents q) \<le> n \<Longrightarrow>
    fst (drain n q) = contents q \<and> emptyp (snd (drain n q))"
proof (induction n arbitrary: q)
  case 0
  then show ?case by (simp add: emptyp_iff)
next
  case (Suc n)
  show ?case
  proof (cases "deq q")
    case None
    then have "contents q = []" using deq_None [of q] by simp
    with None show ?thesis by (simp add: emptyp_iff)
  next
    case (Some r)
    obtain v q' where r: "r = (v, q')" by (cases r)
    then have c: "contents q = v # contents q'" using Some by (simp add: deq_Some)
    then have "length (contents q') \<le> n" using Suc.prems by simp
    from Suc.IH [OF this] Some r c show ?thesis by (auto split: prod.splits)
  qed
qed

lemma fifo_order:
  assumes "emptyp q"
  shows "fst (drain (length vs) (enq_all vs q)) = vs"
proof -
  have "contents (enq_all vs q) = vs" using assms by (simp add: contents_enq_all emptyp_iff)
  then show ?thesis using drain_all [of "enq_all vs q" "length vs"] by simp
qed

end

interpretation tq: fifo_queue "push_with w" pop is_empty queue
  by unfold_locales
    (auto simp: push_with_def notify_def pop_def is_empty_def split: option.splits list.splits)

subsection \<open>Threads\<close>

datatype 'a tsq_event = EPush 'a | EPop nat 'a | EWait nat | EWake nat

inductive tsq_step :: "'a tsq \<Rightarrow> 'a tsq_event \<Rightarrow> 'a tsq \<Rightarrow> bool" where
  push_notify: "t \<in> set (waiters q) \<Longrightarrow> tsq_step q (EPush v) (push_with (Some t) v q)"
| push_quiet: "waiters q = [] \<Longrightarrow> tsq_step q (EPush v) (push v q)"
| pop_now: "t \<notin> set (waiters q) \<Longrightarrow> t \<notin> set (woken q) \<Longrightarrow> pop q = Some (v, q') \<Longrightarrow>
     tsq_step q (EPop t v) q'"
| pop_wait: "t \<notin> set (waiters q) \<Longrightarrow> t \<notin> set (woken q) \<Longrightarrow> pop q = None \<Longrightarrow>
     tsq_step q (EWait t) (q\<lparr>waiters := t # waiters q\<rparr>)"
| wake_pop: "t \<in> set (woken q) \<Longrightarrow> pop q = Some (v, q') \<Longrightarrow>
     tsq_step q (EPop t v) (q'\<lparr>woken := remove1 t (woken q')\<rparr>)"
| wake_wait: "t \<in> set (woken q) \<Longrightarrow> pop q = None \<Longrightarrow>
     tsq_step q (EWait t) (q\<lparr>waiters := t # waiters q, woken := remove1 t (woken q)\<rparr>)"
| spurious: "t \<in> set (waiters q) \<Longrightarrow> tsq_step q (EWake t) (notify (Some t) q)"

inductive_cases tsq_stepE: "tsq_step q e q'"

inductive tsq_run :: "'a tsq \<Rightarrow> 'a tsq_event list \<Rightarrow> 'a tsq \<Rightarrow> bool" where
  run_start: "tsq_run q [] q"
| run_snoc: "tsq_run q es q' \<Longrightarrow> tsq_step q' e q'' \<Longrightarrow> tsq_run q (es @ [e]) q''"

fun pushed :: "'a tsq_event list \<Rightarrow> 'a list" where
  "pushed [] = []"
| "pushed (EPush v # es) = v # pushed es"
| "pushed (_ # es) = pushed es"

fun popped :: "'a tsq_event list \<Rightarrow> 'a list" where
  "popped [] = []"
| "popped (EPop t v # es) = v # popped es"
| "popped (_ # es) = popped es"

lemma pushed_append [simp]: "pushed (es @ fs) = pushed es @ pushed fs"
  by (induction es rule: pushed.induct) auto

lemma popped_append [simp]: "popped (es @ fs) = popped es @ popped fs"
  by (induction es rule: popped.induct) auto

lemma tsq_step_contents:
  "tsq_step q e q' \<Longrightarrow> queue q @ pushed [e] = popped [e] @ queue q'"
  by (cases rule: tsq_step.cases)
    (auto simp: push_with_def notify_def pop_def split: list.splits)

text \<open>
  C10.  The queue is first in, first out for any interleaving of producers and consumers: in every
  run from the empty queue the values pushed are, in order, the values popped followed by what is
  still queued.  No value is lost, duplicated or reordered.
\<close>

theorem tsq_fifo:
  assumes "tsq_run new_queue es q"
  shows "pushed es = popped es @ queue q"
proof -
  have "tsq_run q0 es q \<Longrightarrow> queue q0 = [] \<Longrightarrow> pushed es = popped es @ queue q" for q0
  proof (induction rule: tsq_run.induct)
    case (run_start q)
    then show ?case by simp
  next
    case (run_snoc q es q' e q'')
    then show ?case using tsq_step_contents [OF run_snoc.hyps(2)] by auto
  qed
  from this [OF assms] show ?thesis by (simp add: new_queue_def)
qed

text \<open>No wake-up is lost: while somebody sleeps, at least as many are awake as values wait.\<close>

definition no_lost_wakeup :: "'a tsq \<Rightarrow> bool" where
  "no_lost_wakeup q \<longleftrightarrow> (waiters q \<noteq> [] \<longrightarrow> length (queue q) \<le> length (woken q))"

lemma tsq_step_no_lost_wakeup:
  "tsq_step q e q' \<Longrightarrow> no_lost_wakeup q \<Longrightarrow> no_lost_wakeup q'"
proof (cases rule: tsq_step.cases)
qed (auto simp: no_lost_wakeup_def push_with_def notify_def pop_def length_remove1
      split: list.splits dest: length_pos_if_in_set)

text \<open>
  C27.  No lost wake-up: in every reachable state, if the queue holds a value and some thread sleeps
  in \<open>pop\<close>, then a notified thread is on its way to take a value.  \<open>notify_one\<close> under the lock is
  enough, even when another consumer overtakes the one that was notified.
\<close>

theorem tsq_no_lost_wakeup:
  assumes "tsq_run new_queue es q" and "queue q \<noteq> []" and "waiters q \<noteq> []"
  shows "\<exists>t \<in> set (woken q). \<exists>v q'. tsq_step q (EPop t v) q'"
proof -
  have "tsq_run q0 es q \<Longrightarrow> no_lost_wakeup q0 \<Longrightarrow> no_lost_wakeup q" for q0
    by (induction rule: tsq_run.induct) (auto intro: tsq_step_no_lost_wakeup)
  from this [OF assms(1)] have "no_lost_wakeup q" by (simp add: new_queue_def no_lost_wakeup_def)
  with assms(2,3) have "woken q \<noteq> []" by (auto simp: no_lost_wakeup_def)
  then obtain t where t: "t \<in> set (woken q)" by (cases "woken q") auto
  from assms(2) obtain v vs where "queue q = v # vs" by (cases "queue q") auto
  then have "pop q = Some (v, q\<lparr>queue := vs\<rparr>)" by (simp add: pop_def)
  with t show ?thesis by (blast intro: tsq_step.wake_pop)
qed

text \<open>A sleeper, a push that wakes it: the run used as witness.\<close>

lemma tsq_run_example:
  "tsq_run new_queue [EWait 1, EPush (7 :: nat)]
     \<lparr>queue = [7], waiters = [], woken = [1]\<rparr>"
proof -
  have "tsq_run new_queue [EWait 1 :: nat tsq_event] \<lparr>queue = [], waiters = [1], woken = []\<rparr>"
    using tsq_run.run_snoc [OF tsq_run.run_start tsq_step.pop_wait [of 1 new_queue]]
    by (simp add: new_queue_def pop_def)
  from tsq_run.run_snoc [OF this tsq_step.push_notify [of 1 _ 7]] show ?thesis
    by (simp add: push_with_def notify_def)
qed

lemma tsq_fifo_witness:
  "\<exists>q. tsq_run new_queue [EWait 1, EPush (7 :: nat)] q
     \<and> pushed [EWait 1, EPush 7] = popped [EWait 1, EPush (7 :: nat)] @ queue q"
  using tsq_run_example tsq_fifo [OF tsq_run_example] by blast

lemma tsq_run_example2:
  "tsq_run new_queue [EWait 1, EWait 2, EPush (7 :: nat)]
     \<lparr>queue = [7], waiters = [2], woken = [1]\<rparr>"
proof -
  have "tsq_run new_queue [EWait 1 :: nat tsq_event] \<lparr>queue = [], waiters = [1], woken = []\<rparr>"
    using tsq_run.run_snoc [OF tsq_run.run_start tsq_step.pop_wait [of 1 new_queue]]
    by (simp add: new_queue_def pop_def)
  from tsq_run.run_snoc [OF this tsq_step.pop_wait [of 2]]
  have "tsq_run new_queue [EWait 1, EWait 2 :: nat tsq_event]
      \<lparr>queue = [], waiters = [2, 1], woken = []\<rparr>" by (simp add: pop_def)
  from tsq_run.run_snoc [OF this tsq_step.push_notify [of 1 _ 7]] show ?thesis
    by (simp add: push_with_def notify_def)
qed

lemma tsq_no_lost_wakeup_witness:
  "\<exists>es q. tsq_run new_queue es q \<and> (\<exists>t \<in> set (woken q). \<exists>v q'. tsq_step q (EPop t (v :: nat)) q')"
proof -
  have "\<exists>t \<in> set (woken \<lparr>queue = [7 :: nat], waiters = [2], woken = [1]\<rparr>). \<exists>v q'.
      tsq_step \<lparr>queue = [7 :: nat], waiters = [2], woken = [1]\<rparr> (EPop t v) q'"
    by (rule tsq_no_lost_wakeup [OF tsq_run_example2]) simp_all
  with tsq_run_example2 show ?thesis by blast
qed

end
