(* ===== verification/ApiWorld.thy ===== *)
theory ApiWorld
  imports Prelude
begin

text \<open>
  The library calls of the program (FFmpeg, WinSock) are outside the repository.  The model sees
  them through three tables of an \<open>api\<close> record, which state what the library's documentation
  says about ownership: the handles a call uses, the kind of handle it hands out, the handle it
  releases.  What a call answers is an argument of the model, the oracle, which may depend on a
  hidden state of its own.  The world keeps a ledger of live handles, the list of calls made and
  the list of faults (a call given a null, dead or wrong handle); the theorems say which of them a
  function of the program can leave behind.
\<close>

type_synonym ptr = "nat option"

record ('c, 'r, 'k) api =
  uses :: "'c \<Rightarrow> (ptr \<times> 'k) list"
  creates :: "'c \<Rightarrow> 'r \<Rightarrow> 'k option"
  releases :: "'c \<Rightarrow> 'r \<Rightarrow> ptr"

record ('c, 'k, 'x) world =
  ext :: 'x
  fresh :: nat
  live :: "(nat \<times> 'k) list"
  faults :: "(ptr \<times> 'k) list"
  calls :: "'c list"

type_synonym ('c, 'r, 'x) answers = "'c \<Rightarrow> 'x \<Rightarrow> 'r \<times> 'x"

definition usable :: "(nat \<times> 'k) list \<Rightarrow> ptr \<times> 'k \<Rightarrow> bool" where
  "usable ls a = (case fst a of None \<Rightarrow> False | Some h \<Rightarrow> List.member ls (h, snd a))"

definition drop_handle :: "ptr \<Rightarrow> (nat \<times> 'k) list \<Rightarrow> (nat \<times> 'k) list" where
  "drop_handle p ls = (case p of None \<Rightarrow> ls | Some h \<Rightarrow> filter (\<lambda>a. fst a \<noteq> h) ls)"

definition invoke :: "('c, 'r, 'k) api \<Rightarrow> ('c, 'r, 'x) answers \<Rightarrow> 'c \<Rightarrow> ('c, 'k, 'x) world \<Rightarrow>
     'r \<times> ptr \<times> ('c, 'k, 'x) world" where
  "invoke A orc c w =
     (let (r, x) = orc c (ext w);
          bad = filter (\<lambda>a. \<not> usable (live w) a) (uses A c);
          ls = drop_handle (releases A c r) (live w)
      in case creates A c r of
           None \<Rightarrow> (r, None, w\<lparr>ext := x, live := ls, faults := faults w @ bad, calls := calls w @ [c]\<rparr>)
         | Some k \<Rightarrow> (r, Some (fresh w),
             w\<lparr>ext := x, fresh := Suc (fresh w), live := ls @ [(fresh w, k)],
               faults := faults w @ bad, calls := calls w @ [c]\<rparr>))"

definition start_world :: "'x \<Rightarrow> ('c, 'k, 'x) world" where
  "start_world x = \<lparr>ext = x, fresh = 0, live = [], faults = [], calls = []\<rparr>"

subsection \<open>The ledger is ordered by age\<close>

definition ordered :: "('c, 'k, 'x) world \<Rightarrow> bool" where
  "ordered w \<longleftrightarrow> sorted_wrt (<) (map fst (live w)) \<and> (\<forall>a \<in> set (live w). fst a < fresh w)"

lemma ordered_start [simp]: "ordered (start_world x)"
  by (simp add: ordered_def start_world_def)

lemma drop_handle_subset: "set (drop_handle p ls) \<subseteq> set ls"
  by (auto simp: drop_handle_def split: option.splits)

lemma sorted_drop_handle:
  "sorted_wrt (<) (map fst ls) \<Longrightarrow> sorted_wrt (<) (map fst (drop_handle p ls))"
  by (auto simp: drop_handle_def sorted_wrt_map intro: sorted_wrt_filter split: option.splits)

lemma invoke_ordered [ledger]: "ordered w \<Longrightarrow> ordered (snd (snd (invoke A orc c w)))"
  using drop_handle_subset [of "releases A c (fst (orc c (ext w)))" "live w"]
  by (auto simp: ordered_def invoke_def Let_def sorted_wrt_append sorted_drop_handle
      split: prod.splits option.splits intro: less_SucI)
    (fastforce intro: less_SucI)+

text \<open>
  The three shapes of a call, on a ledger whose last entries belong to the caller: nothing
  changes hands, a handle is added at the end, a handle of the caller is removed.
\<close>

lemma invoke_fst [ledger]: "fst (invoke A orc c w) = fst (orc c (ext w))"
  by (simp add: invoke_def Let_def split: prod.splits option.splits)

lemma invoke_live:
  "live (snd (snd (invoke A orc c w))) =
     drop_handle (releases A c (fst (orc c (ext w)))) (live w) @
       (case creates A c (fst (orc c (ext w))) of None \<Rightarrow> [] | Some k \<Rightarrow> [(fresh w, k)])"
  by (simp add: invoke_def Let_def split: prod.splits option.splits)

lemma invoke_faults:
  "faults (snd (snd (invoke A orc c w))) =
     faults w @ filter (\<lambda>a. \<not> usable (live w) a) (uses A c)"
  by (simp add: invoke_def Let_def split: prod.splits option.splits)

lemma invoke_calls:
  "calls (snd (snd (invoke A orc c w))) = calls w @ [c]"
  by (simp add: invoke_def Let_def split: prod.splits option.splits)

text \<open>The same facts for a call written \<open>case invoke ... of (r, p, w')\<close>.\<close>

lemma invokeD:
  assumes "invoke A orc c w = (r, p, w')"
  shows "live w' = drop_handle (releases A c r) (live w) @
       (case creates A c r of None \<Rightarrow> [] | Some k \<Rightarrow> [(fresh w, k)])"
    and "p = map_option (\<lambda>_. fresh w) (creates A c r)"
    and "faults w' = faults w @ filter (\<lambda>a. \<not> usable (live w) a) (uses A c)"
    and "fresh w' = fresh w + (if creates A c r = None then 0 else 1)"
    and "calls w' = calls w @ [c]"
    and "ext w' = snd (orc c (ext w))" and "r = fst (orc c (ext w))"
  using assms by (auto simp: invoke_def Let_def split: prod.splits option.splits)

lemma invoke_orderedD: "invoke A orc c w = (r, p, w') \<Longrightarrow> ordered w \<Longrightarrow> ordered w'"
  using invoke_ordered [of w A orc c] by simp

lemma ordered_freshD: "ordered w \<Longrightarrow> \<forall>a \<in> set (live w). fst a < fresh w"
  by (simp add: ordered_def)

lemma usable_Some [simp]: "usable ls (Some h, k) \<longleftrightarrow> (h, k) \<in> set ls"
  by (simp add: usable_def)

lemma usable_None [simp]: "\<not> usable ls (None, k)"
  by (simp add: usable_def)

lemma usable_append [simp]: "usable (xs @ ys) a \<longleftrightarrow> usable xs a \<or> usable ys a"
  by (auto simp: usable_def split: option.splits)

lemma drop_handle_None [simp]: "drop_handle None ls = ls"
  by (simp add: drop_handle_def)

lemma drop_handle_append [simp]: "drop_handle p (xs @ ys) = drop_handle p xs @ drop_handle p ys"
  by (simp add: drop_handle_def split: option.splits)

lemma drop_handle_Nil [simp]: "drop_handle p [] = []"
  by (simp add: drop_handle_def split: option.splits)

lemma drop_handle_Cons [simp]:
  "drop_handle (Some h) (a # xs) = (if fst a = h then [] else [a]) @ drop_handle (Some h) xs"
  by (simp add: drop_handle_def)

lemma drop_handle_other: "\<forall>a \<in> set ls. fst a \<noteq> h \<Longrightarrow> drop_handle (Some h) ls = ls"
  by (simp add: drop_handle_def)

end
