(* ===== verification/WsServer.thy ===== *)
theory WsServer
  imports ApiWorld
begin

text \<open>
  The program's own WebSocket server, \<open>WebSocketServer\<close> (src/CWebSocketServer.cpp,
  inc/CWebSocketServer.hpp): the frame writer, the handshake, the client handler and the accept
  loop.  SHA-1 and the Base64 BIO are OpenSSL's, so they are arguments of the definitions that use
  them (\<open>sha1\<close>, \<open>b64_bio\<close>), as is the environment's \<open>WEBSOCKET_MAGIC_STRING\<close>.
\<close>

subsection \<open>The frame writer\<close>

text \<open>\<open>data.size ()\<close> is a 64 bit \<open>size_t\<close>; every byte is cut out of it by a shift and a mask.\<close>

definition size_byte :: "u64 \<Rightarrow> nat \<Rightarrow> byte" where
  "size_byte sz i = ucast (drop_bit (i * 8) sz AND 0xFF)"

definition frame_header :: "u64 \<Rightarrow> byte list" where
  "frame_header sz =
     0x82 #
     (if sz \<le> 125 then [ucast sz]
      else if sz \<le> 65535 then [126, ucast (drop_bit 8 sz AND 0xFF), ucast (sz AND 0xFF)]
      else 127 # map (size_byte sz) [7, 6, 5, 4, 3, 2, 1, 0])"

definition websocket_frame :: "byte list \<Rightarrow> byte list" where
  "websocket_frame data = frame_header (word_of_nat (length data)) @ data"

lemma ucast_byte_mask: "(ucast (x AND 0xFF) :: byte) = ucast (x :: u64)"
proof -
  have ff: "(0xFF :: u64) = mask 8" by (simp add: mask_eq_exp_minus_1)
  show ?thesis unfolding ff by (rule bit_word_eqI) (auto simp: bit_simps)
qed

lemma size_byte_nat: "size_byte (word_of_nat n) i = word_of_nat (n mod 2 ^ 64 div 256 ^ i)"
proof -
  have "(256 :: nat) ^ i = 2 ^ (i * 8)" by (simp add: mult.commute [of i 8] power_mult)
  then have "unat (drop_bit (i * 8) (word_of_nat n :: u64)) = n mod 2 ^ 64 div 256 ^ i"
    unfolding unat_drop_bit_eq by (simp add: drop_bit_eq_div unat_of_nat)
  then show ?thesis
    unfolding size_byte_def ucast_byte_mask
    by (metis of_nat_unat)
qed

lemma frame_header_eq:
  assumes "n < 2 ^ 64"
  shows "frame_header (word_of_nat n) =
     0x82 # (if n \<le> 125 then be_bytes 1 n
             else if n \<le> 65535 then 126 # be_bytes 2 n else 127 # be_bytes 8 n)"
proof -
  have le: "(word_of_nat n :: u64) \<le> k \<longleftrightarrow> n \<le> unat k" for k
    using assms by (simp add: word_le_nat_alt unat_of_nat)
  have sb: "size_byte (word_of_nat n) i = word_of_nat (n div 256 ^ i)" for i
    using assms by (simp add: size_byte_nat)
  have b0: "(ucast (word_of_nat n :: u64) :: byte) = word_of_nat n"
    using sb [of 0] unfolding size_byte_def ucast_byte_mask by simp
  have b1: "(ucast (drop_bit 8 (word_of_nat n :: u64)) :: byte) = word_of_nat (n div 256)"
    using sb [of 1] unfolding size_byte_def ucast_byte_mask by simp
  show ?thesis
    unfolding frame_header_def ucast_byte_mask le b0 b1
    by (simp add: sb)
qed

subsection \<open>Strings of the standard library\<close>

text \<open>
  \<open>std::string::find\<close> (the first position, or \<open>npos\<close>), \<open>substr (pos)\<close> (which throws
  \<open>std::out_of_range\<close> behind the end) and \<open>std::getline\<close> on a string stream: a line ends at a
  newline, the last one at the end of the data, and reading fails when nothing is left.
\<close>

fun find_sub :: "string \<Rightarrow> string \<Rightarrow> nat option" where
  "find_sub pat s =
     (if take (length pat) s = pat then Some 0
      else case s of [] \<Rightarrow> None | _ # s' \<Rightarrow> map_option Suc (find_sub pat s'))"

declare find_sub.simps [simp del]

datatype std_error = Out_of_range | Length_error

definition substr_from :: "nat \<Rightarrow> string \<Rightarrow> (std_error, string) outcome" where
  "substr_from pos s = (if pos > length s then Throw Out_of_range else Ret (drop pos s))"

definition getline :: "string \<Rightarrow> (string \<times> string) option" where
  "getline s = (if s = [] then None
     else let l = takeWhile (\<lambda>c. c \<noteq> CHR 0x0A) s in Some (l, drop (Suc (length l)) s))"

lemma getline_shrinks: "getline s = Some (l, s') \<Longrightarrow> length s' < length s"
  by (auto simp: getline_def Let_def split: if_splits)

subsection \<open>The handshake\<close>

text \<open>
  The header loop of \<open>handle_client\<close>: the key is cut out of every line that contains
  \<open>Sec-WebSocket-Key:\<close>, starting two characters behind the first colon of that line; the loop ends
  at the first empty line.  \<open>key.substr (0, key.size () - 1)\<close> drops the last character.
\<close>

definition header_key :: "string \<Rightarrow> string \<Rightarrow> (std_error, string) outcome" where
  "header_key line key =
     (if find_sub ''Sec-WebSocket-Key:'' line \<noteq> None
      then let pos = (case find_sub '':'' line of Some p \<Rightarrow> p + 2 | None \<Rightarrow> 1)
           in (case substr_from pos line of
                 Ret k \<Rightarrow> Ret (butlast k)
               | Throw e \<Rightarrow> Throw e
               | OutOfBounds \<Rightarrow> OutOfBounds)
      else Ret key)"

function scan_key :: "string \<Rightarrow> string \<Rightarrow> (std_error, string) outcome" where
  "scan_key stream key =
     (case getline stream of
        None \<Rightarrow> Ret key
      | Some (line, rest) \<Rightarrow>
          if line = [CHR 0x0D] then Ret key
          else (case header_key line key of
                  Ret key' \<Rightarrow> scan_key rest key'
                | Throw e \<Rightarrow> Throw e
                | OutOfBounds \<Rightarrow> OutOfBounds))"
  by pat_completeness auto
termination
  by (relation "measure (\<lambda>(s, k). length s)") (auto dest!: sym [of "Some _"] getline_shrinks)

declare scan_key.simps [simp del]

definition base64_encode_bio :: "(byte list \<Rightarrow> byte list) \<Rightarrow> byte list \<Rightarrow>
    (std_error, string) outcome" where
  "base64_encode_bio b64_bio input =
     (let mem = b64_bio input
      in if mem = [] then Throw Length_error else Ret (chars_of (take (length mem - 1) mem)))"

definition crlf :: string where
  "crlf = [CHR 0x0D, CHR 0x0A]"

definition handshake_response :: "string \<Rightarrow> string" where
  "handshake_response accept_key =
     ''HTTP/1.1 101 Switching Protocols'' @ crlf @
     ''Upgrade: websocket'' @ crlf @
     ''Connection: Upgrade'' @ crlf @
     ''Sec-WebSocket-Accept: '' @ accept_key @ crlf @ crlf"

definition handshake :: "(string \<Rightarrow> byte list) \<Rightarrow> (byte list \<Rightarrow> byte list) \<Rightarrow> string \<Rightarrow>
    string \<Rightarrow> (std_error, string) outcome" where
  "handshake sha1 b64_bio magic request =
     (case scan_key request [] of
        Ret key \<Rightarrow> (case base64_encode_bio b64_bio (sha1 (key @ magic)) of
                     Ret accept_key \<Rightarrow> Ret (handshake_response accept_key)
                   | Throw e \<Rightarrow> Throw e | OutOfBounds \<Rightarrow> OutOfBounds)
      | Throw e \<Rightarrow> Throw e | OutOfBounds \<Rightarrow> OutOfBounds)"

subsection \<open>Sockets\<close>

text \<open>
  The WinSock calls.  \<open>WSACleanup\<close> undoes one successful \<open>WSAStartup\<close>; the handle it carries
  stands for that start-up and has no counterpart in the code, nor has the field \<open>wsa\<close> that
  remembers it.  \<open>Spawn_handler\<close> is \<open>std::thread (handle_client, client_socket).detach ()\<close>, after
  which the client socket belongs to the handler's thread; \<open>Open_file\<close> answers with the content.
\<close>

datatype sock_kind = KSocket | KWsa

datatype sock_call =
    WSAStartup | Socket_tcp | Bind ptr u16 | Listen ptr | Accept ptr
  | Closesocket ptr | WSACleanup ptr | Recv ptr nat | Send ptr "byte list"
  | Open_file string | Spawn_handler ptr

record sock_reply =
  s_rc :: int
  s_ok :: bool
  s_data :: "byte list"

fun sock_uses :: "sock_call \<Rightarrow> (ptr \<times> sock_kind) list" where
  "sock_uses (Bind s _) = [(s, KSocket)]"
| "sock_uses (Listen s) = [(s, KSocket)]"
| "sock_uses (Accept s) = [(s, KSocket)]"
| "sock_uses (Closesocket s) = [(s, KSocket)]"
| "sock_uses (WSACleanup h) = [(h, KWsa)]"
| "sock_uses (Recv s _) = [(s, KSocket)]"
| "sock_uses (Send s _) = [(s, KSocket)]"
| "sock_uses (Spawn_handler s) = [(s, KSocket)]"
| "sock_uses _ = []"

fun sock_creates :: "sock_call \<Rightarrow> sock_reply \<Rightarrow> sock_kind option" where
  "sock_creates WSAStartup r = (if s_rc r = 0 then Some KWsa else None)"
| "sock_creates Socket_tcp r = (if s_ok r then Some KSocket else None)"
| "sock_creates (Accept _) r = (if s_ok r then Some KSocket else None)"
| "sock_creates _ r = None"

fun sock_releases :: "sock_call \<Rightarrow> sock_reply \<Rightarrow> ptr" where
  "sock_releases (Closesocket s) r = s"
| "sock_releases (WSACleanup h) r = h"
| "sock_releases _ r = None"

definition winsock :: "(sock_call, sock_reply, sock_kind) api" where
  "winsock = \<lparr>uses = sock_uses, creates = sock_creates, releases = sock_releases\<rparr>"

type_synonym 'x net = "(sock_call, sock_kind, 'x) world"
type_synonym 'x net_answers = "(sock_call, sock_reply, 'x) answers"

text \<open>A call whose answer the code ignores.\<close>

definition sock_do :: "'x net_answers \<Rightarrow> sock_call \<Rightarrow> 'x net \<Rightarrow> 'x net" where
  "sock_do orc c w = snd (snd (invoke winsock orc c w))"

subsection \<open>One client\<close>

definition send_websocket_frame :: "'x net_answers \<Rightarrow> ptr \<Rightarrow> byte list \<Rightarrow> 'x net \<Rightarrow> 'x net" where
  "send_websocket_frame orc client_socket data w =
     sock_do orc (Send client_socket (websocket_frame data)) w"

definition send_fmp4_data :: "'x net_answers \<Rightarrow> ptr \<Rightarrow> string \<Rightarrow> 'x net \<Rightarrow> 'x net" where
  "send_fmp4_data orc client_socket file_path w =
     (let (file, _, w) = invoke winsock orc (Open_file file_path) w
      in if \<not> s_ok file then w
         else send_websocket_frame orc client_socket (s_data file) w)"

text \<open>The request: the received prefix of a zeroed buffer of 1024 characters.\<close>

definition received :: "sock_reply \<Rightarrow> string" where
  "received r = chars_of (take (nat (s_rc r)) (take 1024 (s_data r @ replicate 1024 0)))"

definition handle_client ::
    "(string \<Rightarrow> byte list) \<Rightarrow> (byte list \<Rightarrow> byte list) \<Rightarrow> string \<Rightarrow> 'x net_answers \<Rightarrow> ptr \<Rightarrow>
     'x net \<Rightarrow> (std_error, unit) outcome \<times> 'x net" where
  "handle_client sha1 b64_bio magic orc client_socket w =
     (let (r, _, w) = invoke winsock orc (Recv client_socket 1024) w
      in if s_rc r \<le> 0 then (Ret (), sock_do orc (Closesocket client_socket) w)
         else (case handshake sha1 b64_bio magic (received r) of
                 Ret response \<Rightarrow>
                   (let w = sock_do orc (Send client_socket (bytes_of response)) w;
                        w = send_fmp4_data orc client_socket ''./output/muxed_output.fmp4'' w
                    in (Ret (), sock_do orc (Closesocket client_socket) w))
               | Throw e \<Rightarrow> (Throw e, w)
               | OutOfBounds \<Rightarrow> (OutOfBounds, w)))"

subsection \<open>The accept loop\<close>

record ws_server =
  port :: int
  listen_socket :: ptr
  wsa :: ptr

definition new_server :: "int \<Rightarrow> ws_server" where
  "new_server p = \<lparr>port = p, listen_socket = None, wsa = None\<rparr>"

definition delete_server :: "'x net_answers \<Rightarrow> ws_server \<Rightarrow> 'x net \<Rightarrow> 'x net" where
  "delete_server orc s w =
     (if listen_socket s \<noteq> None
      then sock_do orc (WSACleanup (wsa s)) (sock_do orc (Closesocket (listen_socket s)) w)
      else w)"

definition fail_listening :: "'x net_answers \<Rightarrow> ws_server \<Rightarrow> 'x net \<Rightarrow> 'x net" where
  "fail_listening orc s w =
     sock_do orc (WSACleanup (wsa s)) (sock_do orc (Closesocket (listen_socket s)) w)"

partial_function (option) accept_loop ::
    "'x net_answers \<Rightarrow> ws_server \<Rightarrow> 'x net \<Rightarrow> 'x net option" where
  "accept_loop orc s w =
     (case invoke winsock orc (Accept (listen_socket s)) w of
        (r, client_socket, w1) \<Rightarrow>
          if client_socket = None then Some (fail_listening orc s w1)
          else accept_loop orc s (sock_do orc (Spawn_handler client_socket) w1))"

text \<open>
  \<open>start\<close>: the four stages before the loop.  A stage that fails has cleaned up and ends \<open>start\<close>;
  none of them resets \<open>listen_socket\<close>.
\<close>

definition stage_startup :: "'x net_answers \<Rightarrow> (ws_server \<times> 'x net) stage" where
  "stage_startup orc = (\<lambda>(s, w). case invoke winsock orc WSAStartup w of
     (r, h, w) \<Rightarrow> (s_rc r = 0, (s\<lparr>wsa := h\<rparr>, w)))"

definition stage_socket :: "'x net_answers \<Rightarrow> (ws_server \<times> 'x net) stage" where
  "stage_socket orc = (\<lambda>(s, w). case invoke winsock orc Socket_tcp w of
     (r, h, w) \<Rightarrow>
       (let s = s\<lparr>listen_socket := h\<rparr>
        in if h = None then (False, (s, sock_do orc (WSACleanup (wsa s)) w)) else (True, (s, w))))"

definition stage_bind :: "'x net_answers \<Rightarrow> (ws_server \<times> 'x net) stage" where
  "stage_bind orc = (\<lambda>(s, w).
     case invoke winsock orc (Bind (listen_socket s) (word_of_int (port s))) w of
     (r, _, w) \<Rightarrow> if s_rc r = -1 then (False, (s, fail_listening orc s w)) else (True, (s, w)))"

definition stage_listen :: "'x net_answers \<Rightarrow> (ws_server \<times> 'x net) stage" where
  "stage_listen orc = (\<lambda>(s, w). case invoke winsock orc (Listen (listen_socket s)) w of
     (r, _, w) \<Rightarrow> if s_rc r = -1 then (False, (s, fail_listening orc s w)) else (True, (s, w)))"

definition start :: "'x net_answers \<Rightarrow> ws_server \<Rightarrow> 'x net \<Rightarrow> (ws_server \<times> 'x net) option" where
  "start orc s w =
     (case run_stages [stage_startup orc, stage_socket orc, stage_bind orc, stage_listen orc] (s, w) of
        (False, sw) \<Rightarrow> Some sw
      | (True, (s, w)) \<Rightarrow> map_option (\<lambda>w. (s, w)) (accept_loop orc s w))"

subsection \<open>The key of a request\<close>

lemma find_sub_prefix: "find_sub pat (pat @ s) = Some 0"
  by (subst find_sub.simps) simp

lemma find_sub_Cons:
  "take (length pat) (c # s) \<noteq> pat \<Longrightarrow> find_sub pat (c # s) = map_option Suc (find_sub pat s)"
  by (subst find_sub.simps) simp

lemma find_sub_Nil: "pat \<noteq> [] \<Longrightarrow> find_sub pat [] = None"
  by (subst find_sub.simps) simp

lemma getline_LF [simp]: "CHR 0x0A \<notin> set l \<Longrightarrow> getline (l @ CHR 0x0A # s) = Some (l, s)"
proof -
  assume l: "CHR 0x0A \<notin> set l"
  then have "takeWhile (\<lambda>c. c \<noteq> CHR 0x0A) (l @ CHR 0x0A # s) = l"
    by (induction l) auto
  then show ?thesis by (simp add: getline_def Let_def)
qed

text \<open>A header line, without its line end, that is not the key's.\<close>

definition plain_line :: "string \<Rightarrow> bool" where
  "plain_line h \<longleftrightarrow> h \<noteq> [] \<and> CHR 0x0A \<notin> set h
     \<and> find_sub ''Sec-WebSocket-Key:'' (h @ [CHR 0x0D]) = None"

definition lines :: "string list \<Rightarrow> string" where
  "lines hs = concat (map (\<lambda>h. h @ crlf) hs)"

lemma lines_simps [simp]: "lines [] = []" "lines (h # hs) = h @ crlf @ lines hs"
  by (simp_all add: lines_def)

lemma scan_key_line:
  assumes "CHR 0x0A \<notin> set h" and "h \<noteq> []"
  shows "scan_key (h @ crlf @ s) key = (case header_key (h @ [CHR 0x0D]) key of
     Ret key' \<Rightarrow> scan_key s key' | Throw e \<Rightarrow> Throw e | OutOfBounds \<Rightarrow> OutOfBounds)"
proof -
  have "getline ((h @ [CHR 0x0D]) @ CHR 0x0A # s) = Some (h @ [CHR 0x0D], s)"
    using assms by (intro getline_LF) auto
  then have "getline (h @ crlf @ s) = Some (h @ [CHR 0x0D], s)"
    by (simp add: crlf_def)
  then show ?thesis using assms(2) by (subst scan_key.simps) simp
qed

lemma scan_key_plain: "\<forall>h \<in> set hs. plain_line h \<Longrightarrow> scan_key (lines hs @ s) key = scan_key s key"
  by (induction hs) (auto simp: plain_line_def scan_key_line header_key_def)

lemma scan_key_end: "scan_key (crlf @ s) key = Ret key"
  using getline_LF [of "[CHR 0x0D]" s] by (subst scan_key.simps) (simp add: crlf_def)

lemma find_colon: "find_sub '':'' (''Sec-WebSocket-Key:'' @ s) = Some 17"
  by (simp add: find_sub_Cons find_sub_prefix [of "'':''", simplified])

lemma header_key_key: "header_key (''Sec-WebSocket-Key: '' @ K @ [c]) key = Ret K"
proof -
  have p: "find_sub ''Sec-WebSocket-Key:'' (''Sec-WebSocket-Key: '' @ K @ [c]) = Some 0"
    using find_sub_prefix [of "''Sec-WebSocket-Key:''" "'' '' @ K @ [c]"] by simp
  have q: "find_sub '':'' (''Sec-WebSocket-Key: '' @ K @ [c]) = Some 17"
    using find_colon [of "'' '' @ K @ [c]"] by simp
  show ?thesis
    unfolding header_key_def Let_def p q by (simp add: substr_from_def butlast_append)
qed

lemma header_key_short: "header_key ''Sec-WebSocket-Key:'' key = Throw Out_of_range"
proof -
  have p: "find_sub ''Sec-WebSocket-Key:'' ''Sec-WebSocket-Key:'' = Some 0"
    using find_sub_prefix [of "''Sec-WebSocket-Key:''" "[]"] by simp
  have q: "find_sub '':'' ''Sec-WebSocket-Key:'' = Some 17"
    using find_colon [of "[]"] by simp
  show ?thesis unfolding header_key_def Let_def p q by (simp add: substr_from_def)
qed

text \<open>
  C28.  The handshake answers a request with the accept key of the key it carries: whatever other
  header lines stand before and behind, the response is the 101 response over the Base64 text of
  the SHA-1 of the key and the magic string.  The hypothesis on \<open>b64_bio\<close> is what OpenSSL's
  \<open>BIO_f_base64\<close> does with a short input: the text, then one newline, which the code strips.
\<close>

theorem handshake_accept:
  assumes "\<forall>h \<in> set pre \<union> set post. plain_line h" and "CHR 0x0A \<notin> set key"
    and "b64_bio (sha1 (key @ magic)) = bytes_of accept_key @ [10]"
  shows "handshake sha1 b64_bio magic
       (lines pre @ (''Sec-WebSocket-Key: '' @ key) @ crlf @ lines post @ crlf @ body) =
     Ret (handshake_response accept_key)"
proof -
  have "scan_key (lines pre @ (''Sec-WebSocket-Key: '' @ key) @ crlf @ lines post @ crlf @ body) []
      = scan_key ((''Sec-WebSocket-Key: '' @ key) @ crlf @ lines post @ crlf @ body) []"
    using assms(1) by (intro scan_key_plain) auto
  also have "\<dots> = scan_key (lines post @ crlf @ body) key"
    using scan_key_line [of "''Sec-WebSocket-Key: '' @ key"] assms(2) header_key_key [of key]
    by simp
  also have "\<dots> = Ret key"
    using assms(1) by (simp add: scan_key_plain scan_key_end)
  finally show ?thesis by (simp add: handshake_def base64_encode_bio_def assms(3))
qed

lemma handshake_accept_witness:
  "handshake bytes_of (\<lambda>d. d @ [10]) ''M''
     (lines [''GET / HTTP/1.1''] @ (''Sec-WebSocket-Key: '' @ ''dGhl'') @ crlf @ lines [] @ crlf @ []) =
   Ret (handshake_response ''dGhlM'')"
proof -
  have "find_sub ''Sec-WebSocket-Key:'' (''GET / HTTP/1.1'' @ [CHR 0x0D]) = None"
    by (simp add: find_sub_Cons find_sub_Nil)
  then have "\<forall>h \<in> set [''GET / HTTP/1.1''] \<union> set []. plain_line h"
    by (simp add: plain_line_def)
  then show ?thesis by (rule handshake_accept) simp_all
qed

subsection \<open>What happens to the sockets\<close>

lemma invoke_winsockD:
  assumes "invoke winsock orc c w = (r, p, w')"
  shows "live w' = drop_handle (sock_releases c r) (live w) @
       (case sock_creates c r of None \<Rightarrow> [] | Some k \<Rightarrow> [(fresh w, k)])"
    and "p = map_option (\<lambda>_. fresh w) (sock_creates c r)"
    and "faults w' = faults w @ filter (\<lambda>a. \<not> usable (live w) a) (sock_uses c)"
    and "fresh w' = fresh w + (if sock_creates c r = None then 0 else 1)"
    and "calls w' = calls w @ [c]"
    and "r = fst (orc c (ext w))"
  using invokeD [OF assms] by (simp_all add: winsock_def)

lemma invoke_winsock_all:
  "invoke winsock orc c w = (r, p, w') \<Longrightarrow>
     live w' = drop_handle (sock_releases c r) (live w) @
       (case sock_creates c r of None \<Rightarrow> [] | Some k \<Rightarrow> [(fresh w, k)])
     \<and> p = map_option (\<lambda>_. fresh w) (sock_creates c r)
     \<and> faults w' = faults w @ filter (\<lambda>a. \<not> usable (live w) a) (sock_uses c)"
  by (intro conjI invoke_winsockD)

lemma sock_do_calls [ledger]: "calls (sock_do orc c w) = calls w @ [c]"
  by (simp add: sock_do_def invoke_calls)

lemma sock_do_faults [ledger]:
  "faults (sock_do orc c w) = faults w @ filter (\<lambda>a. \<not> usable (live w) a) (sock_uses c)"
  by (simp add: sock_do_def invoke_faults winsock_def)

lemma sock_do_ordered [ledger]: "ordered w \<Longrightarrow> ordered (sock_do orc c w)"
  by (simp add: sock_do_def invoke_ordered)

lemma sock_do_live [ledger]:
  "live (sock_do orc (Closesocket p) w) = drop_handle p (live w)"
  "live (sock_do orc (WSACleanup p) w) = drop_handle p (live w)"
  "live (sock_do orc (Send p d) w) = live w"
  "live (sock_do orc (Spawn_handler p) w) = live w"
  by (simp_all add: sock_do_def invoke_live winsock_def)

lemma send_fmp4_data_effect:
  "live (send_fmp4_data orc p f w) = live w"
  "(p = Some h \<Longrightarrow> (h, KSocket) \<in> set (live w) \<Longrightarrow> faults (send_fmp4_data orc p f w) = faults w)"
  by (auto simp: send_fmp4_data_def send_websocket_frame_def ledger
      dest!: invoke_winsock_all split: prod.splits)

text \<open>
  C29.  A handler that returns has closed its socket and touched no other: the ledger loses exactly
  the client's socket, and every call was made on a live handle.
\<close>

theorem handle_client_closes:
  assumes "handle_client sha1 b64_bio magic orc (Some sock) w = (Ret (), w')"
    and "(sock, KSocket) \<in> set (live w)"
  shows "live w' = drop_handle (Some sock) (live w) \<and> faults w' = faults w"
  using assms
  by (auto simp: handle_client_def send_fmp4_data_effect ledger
      dest!: invoke_winsock_all split: prod.splits if_splits outcome.splits)

definition refuse_all :: "unit net_answers" where
  "refuse_all c x = (\<lparr>s_rc = 0, s_ok = False, s_data = []\<rparr>, x)"

definition one_socket :: "unit net" where
  "one_socket = \<lparr>ext = (), fresh = 1, live = [(0, KSocket)], faults = [], calls = []\<rparr>"

lemma handle_client_closes_witness:
  "\<exists>w'. handle_client bytes_of id [] refuse_all (Some 0) one_socket = (Ret (), w') \<and> live w' = []"
proof -
  let ?r = "handle_client bytes_of id [] refuse_all (Some 0) one_socket"
  have "fst ?r = Ret ()"
    by (simp add: handle_client_def refuse_all_def invoke_def winsock_def)
  then have r: "?r = (Ret (), snd ?r)" by (metis prod.collapse)
  have "(0, KSocket) \<in> set (live one_socket)" by (simp add: one_socket_def)
  from handle_client_closes [OF r this] have "live (snd ?r) = []"
    by (simp add: one_socket_def)
  with r show ?thesis by blast
qed

text \<open>
  A request that ends inside the key header takes the whole program down: after
  \<open>Sec-WebSocket-Key:\<close> the code skips two characters without looking whether they are there, so
  \<open>substr\<close> throws, nothing catches it in the detached thread, and the socket is never closed.
\<close>

theorem handle_client_uncaught:
  assumes "\<forall>h \<in> set pre. plain_line h"
    and "orc (Recv (Some sock) 1024) (ext w) =
       (\<lparr>s_rc = int (length req), s_ok = True, s_data = bytes_of req\<rparr>, x)"
    and "req = lines pre @ ''Sec-WebSocket-Key:''" and "length req \<le> 1024"
  shows "\<exists>w'. handle_client sha1 b64_bio magic orc (Some sock) w = (Throw Out_of_range, w')
     \<and> live w' = live w"
proof -
  obtain r p w1 where i: "invoke winsock orc (Recv (Some sock) 1024) w = (r, p, w1)"
    by (metis prod_cases3)
  note D = invoke_winsockD [OF i]
  have r: "r = \<lparr>s_rc = int (length req), s_ok = True, s_data = bytes_of req\<rparr>"
    using D(6) assms(2) by simp
  have "received r = req"
    using assms(4) by (simp add: r received_def)
  moreover have "0 < length req" using assms(3) by simp
  moreover have "scan_key req [] = Throw Out_of_range"
  proof -
    have "scan_key req [] = scan_key ''Sec-WebSocket-Key:'' []"
      unfolding assms(3) using assms(1) by (rule scan_key_plain)
    then show ?thesis
      using header_key_short by (subst (asm) (2) scan_key.simps) (simp add: getline_def)
  qed
  ultimately have "handle_client sha1 b64_bio magic orc (Some sock) w = (Throw Out_of_range, w1)"
    unfolding handle_client_def Let_def i by (simp add: r handshake_def)
  moreover have "live w1 = live w" using D(1) by simp
  ultimately show ?thesis by blast
qed

definition hostile :: "unit net_answers" where
  "hostile c x = (\<lparr>s_rc = 18, s_ok = True, s_data = bytes_of ''Sec-WebSocket-Key:''\<rparr>, x)"

lemma handle_client_uncaught_witness:
  "\<exists>w'. handle_client bytes_of id [] hostile (Some 0) one_socket = (Throw Out_of_range, w')
     \<and> live w' = [(0, KSocket)]"
  using handle_client_uncaught [of "[]" hostile 0 one_socket "''Sec-WebSocket-Key:''" "()"]
  by (simp add: hostile_def one_socket_def)

subsection \<open>The listening socket\<close>

text \<open>
  While \<open>start\<close> runs its own two resources stand between the older ones and the clients' sockets.
\<close>

definition listening :: "(nat \<times> sock_kind) list \<Rightarrow> nat \<Rightarrow> nat \<Rightarrow> ws_server \<Rightarrow> 'x net \<Rightarrow> bool" where
  "listening base hw hl s w \<longleftrightarrow>
     (\<exists>cs. live w = base @ (hw, KWsa) # (hl, KSocket) # cs \<and> (\<forall>c \<in> set cs. snd c = KSocket))
     \<and> wsa s = Some hw \<and> listen_socket s = Some hl \<and> ordered w"

lemma fail_listening_ledger:
  assumes "listening base hw hl s w"
  shows "\<exists>cs. live (fail_listening orc s w) = base @ cs \<and> (\<forall>c \<in> set cs. snd c = KSocket)"
    and "faults (fail_listening orc s w) = faults w"
    and "ordered (fail_listening orc s w)"
    and "\<forall>a \<in> set (live (fail_listening orc s w)). fst a \<noteq> hl \<and> fst a \<noteq> hw"
proof -
  from assms obtain cs where l: "live w = base @ (hw, KWsa) # (hl, KSocket) # cs"
    and k: "\<forall>c \<in> set cs. snd c = KSocket" and s: "wsa s = Some hw" "listen_socket s = Some hl"
    and o: "ordered w"
    by (auto simp: listening_def)
  from o l have lt: "\<forall>a \<in> set base. fst a < hw \<and> fst a < hl" "hw < hl"
      "\<forall>a \<in> set cs. hw < fst a \<and> hl < fst a"
    by (auto simp: ordered_def sorted_wrt_append)
  have d: "drop_handle (Some hl) base = base" "drop_handle (Some hw) base = base"
      "drop_handle (Some hl) cs = cs" "drop_handle (Some hw) cs = cs"
    using lt by (auto intro!: drop_handle_other)
  have lf: "live (fail_listening orc s w) = base @ cs"
    using lt(2) by (simp add: fail_listening_def ledger l s d)
  then show "\<exists>cs. live (fail_listening orc s w) = base @ cs \<and> (\<forall>c \<in> set cs. snd c = KSocket)"
    using k by blast
  show "\<forall>a \<in> set (live (fail_listening orc s w)). fst a \<noteq> hl \<and> fst a \<noteq> hw"
    using lf lt by auto
  show "faults (fail_listening orc s w) = faults w"
    using lt(2) by (simp add: fail_listening_def ledger l s d)
  show "ordered (fail_listening orc s w)"
    using o by (simp add: fail_listening_def ledger)
qed

definition stopped :: "(nat \<times> sock_kind) list \<Rightarrow> ws_server \<Rightarrow> (ptr \<times> sock_kind) list \<Rightarrow>
    'x net \<Rightarrow> bool" where
  "stopped base s fs w \<longleftrightarrow>
     (\<exists>cs. live w = base @ cs \<and> (\<forall>c \<in> set cs. snd c = KSocket)) \<and> faults w = fs
     \<and> (listen_socket s \<noteq> None \<longrightarrow> wsa s \<noteq> None \<and>
          (\<forall>a \<in> set (live w). fst a \<noteq> the (listen_socket s) \<and> fst a \<noteq> the (wsa s)))"

lemma fail_listening_stopped:
  "listening base hw hl s w \<Longrightarrow> stopped base s (faults w) (fail_listening orc s w)"
  using fail_listening_ledger [of base hw hl s w orc]
  by (auto simp: stopped_def listening_def)

lemma accept_loop_stopped:
  assumes ret: "accept_loop orc s w = Some w'" and "listening base hw hl s w" and "faults w = fs"
  shows "stopped base s fs w'"
proof -
  have "listening base hw hl s w \<longrightarrow> faults w = fs \<longrightarrow> stopped base s fs w'"
  proof (rule accept_loop.raw_induct [where P = "\<lambda>orc s w w'. listening base hw hl s w \<longrightarrow>
        faults w = fs \<longrightarrow> stopped base s fs w'", OF _ ret], intro impI)
    fix f :: "'a net_answers \<Rightarrow> ws_server \<Rightarrow> 'a net \<Rightarrow> 'a net option" and orc s w w'
    assume IH: "\<And>orc s w w'. f orc s w = Some w' \<Longrightarrow>
        listening base hw hl s w \<longrightarrow> faults w = fs \<longrightarrow> stopped base s fs w'"
      and eq: "(case invoke winsock orc (Accept (listen_socket s)) w of
        (r, c, w1) \<Rightarrow> if c = None then Some (fail_listening orc s w1)
          else f orc s (sock_do orc (Spawn_handler c) w1)) = Some w'"
      and li: "listening base hw hl s w" and fs: "faults w = fs"
    obtain r c w1 where i: "invoke winsock orc (Accept (listen_socket s)) w = (r, c, w1)"
      by (metis prod_cases3)
    from li obtain cs where l: "live w = base @ (hw, KWsa) # (hl, KSocket) # cs"
      and k: "\<forall>c \<in> set cs. snd c = KSocket" and s: "wsa s = Some hw" "listen_socket s = Some hl"
      and o: "ordered w" by (auto simp: listening_def)
    note D = invoke_winsockD [OF i]
    have o1: "ordered w1" using invoke_orderedD [OF i o] .
    have f1: "faults w1 = fs" using D(3) fs l s by simp
    have l1: "listening base hw hl s w1"
      unfolding listening_def using D(1) l k s o1 by (auto split: option.splits)
    show "stopped base s fs w'"
    proof (cases c)
      case None
      then have "w' = fail_listening orc s w1" using eq i by simp
      then show ?thesis using fail_listening_stopped [OF l1] f1 by simp
    next
      case (Some h)
      then have h: "(h, KSocket) \<in> set (live w1)" using D(1,2) by (auto split: option.splits if_splits)
      have "f orc s (sock_do orc (Spawn_handler c) w1) = Some w'" using eq i Some by simp
      moreover have "listening base hw hl s (sock_do orc (Spawn_handler c) w1)"
        using l1 by (simp add: listening_def ledger)
      moreover have "faults (sock_do orc (Spawn_handler c) w1) = fs"
        using f1 h Some by (simp add: ledger)
      ultimately show ?thesis using IH by blast
    qed
  qed
  with assms show ?thesis by blast
qed

text \<open>The four stages reach the loop in a listening state, or stop.\<close>

definition stages :: "'x net_answers \<Rightarrow> (ws_server \<times> 'x net) stage list" where
  "stages orc = [stage_startup orc, stage_socket orc, stage_bind orc, stage_listen orc]"

lemma stage_listening:
  assumes "f = stage_bind orc \<or> f = stage_listen orc" and "listening base hw hl s w" and "faults w = fs"
  shows "case f (s, w) of (go, s', w') \<Rightarrow>
    if go then listening base hw hl s' w' \<and> faults w' = fs else stopped base s' fs w'"
proof -
  define c where "c = (if f = stage_bind orc then Bind (listen_socket s) (word_of_int (port s))
      else Listen (listen_socket s))"
  obtain r p w1 where i: "invoke winsock orc c w = (r, p, w1)" by (metis prod_cases3)
  note D = invoke_winsockD [OF i]
  from assms(2) obtain cs where l: "live w = base @ (hw, KWsa) # (hl, KSocket) # cs"
    and s: "listen_socket s = Some hl" by (auto simp: listening_def)
  have l1: "live w1 = live w" and f1: "faults w1 = fs"
    using D(1,3) l s assms(3) by (auto simp: c_def split: if_splits)
  have li: "listening base hw hl s w1"
    using assms(2) l1 invoke_orderedD [OF i] by (auto simp: listening_def)
  have "f (s, w) = (if s_rc r = -1 then (False, (s, fail_listening orc s w1)) else (True, (s, w1)))"
    using assms(1) i by (auto simp: c_def stage_bind_def stage_listen_def split: if_splits)
  then show ?thesis using li f1 fail_listening_stopped [OF li] by auto
qed

lemma stage_startup_effect:
  assumes "ordered w" and "listen_socket s = None"
  shows "case stage_startup orc (s, w) of (go, s', w') \<Rightarrow>
    listen_socket s' = None \<and> faults w' = faults w \<and> ordered w' \<and>
    (if go then wsa s' = Some (fresh w) \<and> live w' = live w @ [(fresh w, KWsa)]
     else live w' = live w)"
proof -
  obtain r p w1 where i: "invoke winsock orc WSAStartup w = (r, p, w1)" by (metis prod_cases3)
  show ?thesis
    using invoke_winsockD [OF i] invoke_orderedD [OF i assms(1)] assms(2) i
    by (auto simp: stage_startup_def)
qed

lemma stage_socket_effect:
  assumes "ordered w" and "wsa s = Some hw" and "live w = base @ [(hw, KWsa)]"
  shows "case stage_socket orc (s, w) of (go, s', w') \<Rightarrow> faults w' = faults w \<and>
    (if go then listening base hw (fresh w) s' w'
     else listen_socket s' = None \<and> live w' = base)"
proof -
  obtain r p w1 where i: "invoke winsock orc Socket_tcp w = (r, p, w1)" by (metis prod_cases3)
  note D = invoke_winsockD [OF i]
  have b: "drop_handle (Some hw) base = base"
    using assms(1,3) by (intro drop_handle_other) (auto simp: ordered_def sorted_wrt_append)
  show ?thesis
  proof (cases p)
    case None
    then have "live w1 = base @ [(hw, KWsa)]" "faults w1 = faults w"
      using D assms(3) by (auto split: if_splits)
    then show ?thesis
      using None i b assms(2) by (simp add: stage_socket_def ledger)
  next
    case (Some h)
    then have "live w1 = base @ (hw, KWsa) # (fresh w, KSocket) # []" "faults w1 = faults w"
        "h = fresh w"
      using D assms(3) by (auto split: if_splits)
    then show ?thesis
      using Some i assms(2) invoke_orderedD [OF i assms(1)]
      by (auto simp: stage_socket_def listening_def)
  qed
qed

lemma stopped_idle: "listen_socket s = None \<Longrightarrow> live w' = base \<Longrightarrow> faults w' = fs \<Longrightarrow>
    stopped base s fs w'"
  by (simp add: stopped_def)

lemma start_stopped:
  assumes o: "ordered w" and st: "start orc (new_server p) w = Some (s', w')"
  shows "stopped (live w) s' (faults w) w'"
proof -
  obtain g1 s1 w1 where e1: "stage_startup orc (new_server p, w) = (g1, s1, w1)"
    by (metis prod_cases3)
  note E1 = stage_startup_effect [OF o, of "new_server p" orc, unfolded e1]
  show ?thesis
  proof (cases g1)
    case False
    then show ?thesis
      using st E1 e1 by (auto simp: start_def new_server_def intro!: stopped_idle)
  next
    case True
    then have E1: "ordered w1" "wsa s1 = Some (fresh w)" "live w1 = live w @ [(fresh w, KWsa)]"
      "faults w1 = faults w" using E1 by (auto simp: new_server_def)
    obtain g2 s2 w2 where e2: "stage_socket orc (s1, w1) = (g2, s2, w2)" by (metis prod_cases3)
    note E2 = stage_socket_effect [OF E1(1-3), of orc, unfolded e2]
    show ?thesis
    proof (cases g2)
      case False
      then show ?thesis
        using st E1 E2 e1 e2 True by (auto simp: start_def intro!: stopped_idle)
    next
      case g2: True
      then have L2: "listening (live w) (fresh w) (fresh w1) s2 w2" "faults w2 = faults w"
        using E1 E2 by auto
      obtain g3 s3 w3 where e3: "stage_bind orc (s2, w2) = (g3, s3, w3)" by (metis prod_cases3)
      note E3 = stage_listening [of "stage_bind orc" orc, OF disjI1 [OF refl] L2, unfolded e3]
      show ?thesis
      proof (cases g3)
        case False
        then show ?thesis using st E3 e1 e2 e3 True g2 by (auto simp: start_def)
      next
        case g3: True
        obtain g4 s4 w4 where e4: "stage_listen orc (s3, w3) = (g4, s4, w4)" by (metis prod_cases3)
        from E3 g3 have L3: "listening (live w) (fresh w) (fresh w1) s3 w3" "faults w3 = faults w"
          by auto
        note E4 = stage_listening [of "stage_listen orc" orc, OF disjI2 [OF refl] L3, unfolded e4]
        show ?thesis
          using st E4 e1 e2 e3 e4 True g2 g3
          by (cases g4) (auto simp: start_def intro: accept_loop_stopped)
      qed
    qed
  qed
qed

text \<open>
  C25.  \<open>start\<close> gives back what it took: when it returns, for whatever reason, its start-up of
  WinSock and its listening socket are released again, the only new handles are sockets accepted
  for clients, and no call was made on a dead handle.
\<close>

theorem start_releases:
  assumes "ordered w" and "start orc (new_server p) w = Some (s', w')"
  shows "(\<exists>cs. live w' = live w @ cs \<and> (\<forall>c \<in> set cs. snd c = KSocket)) \<and> faults w' = faults w"
  using start_stopped [OF assms] by (simp add: stopped_def)

text \<open>An environment in which \<open>bind\<close> fails.\<close>

definition bind_fails :: "unit net_answers" where
  "bind_fails c x =
     (case c of Bind _ _ \<Rightarrow> \<lparr>s_rc = -1, s_ok = False, s_data = []\<rparr>
      | _ \<Rightarrow> \<lparr>s_rc = 0, s_ok = True, s_data = []\<rparr>, x)"

lemma start_bind_fails:
  "\<exists>w'. start bind_fails (new_server 8080) (start_world ()) =
     Some (\<lparr>port = 8080, listen_socket = Some 1, wsa = Some 0\<rparr>, w')"
  by (simp add: start_def stage_startup_def stage_socket_def stage_bind_def stage_listen_def
      new_server_def bind_fails_def invoke_def winsock_def start_world_def)

lemma start_releases_witness:
  "\<exists>s' w'. start bind_fails (new_server 8080) (start_world ()) = Some (s', w') \<and> faults w' = []"
proof -
  obtain w' where st: "start bind_fails (new_server 8080) (start_world ()) =
     Some (\<lparr>port = 8080, listen_socket = Some 1, wsa = Some 0\<rparr>, w')"
    using start_bind_fails by blast
  from start_releases [OF ordered_start st] have "faults w' = []"
    by (simp add: start_world_def)
  with st show ?thesis by blast
qed

text \<open>
  The destructor releases a second time: \<open>start\<close> leaves the closed socket in
  \<open>listen_socket\<close>, so after a failure of \<open>bind\<close>, \<open>listen\<close> or \<open>accept\<close> the destructor closes a dead
  socket and undoes a start-up that has been undone.
\<close>

theorem delete_server_double_close:
  assumes "ordered w" and "start orc (new_server p) w = Some (s', w')" and "listen_socket s' \<noteq> None"
  shows "faults (delete_server orc s' w') =
     faults w @ [(listen_socket s', KSocket), (wsa s', KWsa)]"
proof -
  note S = start_stopped [OF assms(1,2)]
  from S assms(3) obtain hl hw where s: "listen_socket s' = Some hl" "wsa s' = Some hw"
    by (auto simp: stopped_def)
  with S have "(hl, KSocket) \<notin> set (live w')" "(hw, KWsa) \<notin> set (live w')" "faults w' = faults w"
    by (auto simp: stopped_def)
  moreover have "set (drop_handle (Some hl) (live w')) \<subseteq> set (live w')"
    by (rule drop_handle_subset)
  ultimately have "(hw, KWsa) \<notin> set (drop_handle (Some hl) (live w'))" by blast
  with \<open>(hl, KSocket) \<notin> set (live w')\<close> \<open>faults w' = faults w\<close> show ?thesis
    by (simp add: delete_server_def s ledger)
qed

lemma delete_server_double_close_witness:
  "\<exists>s' w'. start bind_fails (new_server 8080) (start_world ()) = Some (s', w')
     \<and> faults (delete_server bind_fails s' w') = [(Some 1, KSocket), (Some 0, KWsa)]"
proof -
  let ?s = "\<lparr>port = 8080, listen_socket = Some 1, wsa = Some 0\<rparr>"
  obtain w' where st: "start bind_fails (new_server 8080) (start_world ()) = Some (?s, w')"
    using start_bind_fails by blast
  from delete_server_double_close [OF ordered_start st]
  have "faults (delete_server bind_fails ?s w') = [(Some 1, KSocket), (Some 0, KWsa)]"
    by (simp add: start_world_def)
  with st show ?thesis by blast
qed

end
