(* ===== verification/AvWorld.thy ===== *)
theory AvWorld
  imports ApiWorld
begin

text \<open>
  FFmpeg as the program uses it.  The headers under include/ give the constants and, in their
  comments, the ownership rules that the three tables below state.  What the library answers is
  not in the repository: it is the field \<open>answers\<close> of an environment \<open>av_env\<close>, next to the three
  timestamp functions, which the headers declare only.  A stream belongs to its format context and
  a dictionary to nobody that matters here, so neither has handles.
\<close>

subsection \<open>Constants and data\<close>

unbundle bit_operations_syntax

record rational =
  rnum :: int
  rden :: int

definition AVERROR :: "int \<Rightarrow> int" where
  "AVERROR e = - e"

definition MKTAG :: "int \<Rightarrow> int \<Rightarrow> int \<Rightarrow> int \<Rightarrow> int" where
  "MKTAG a b c d = (a OR push_bit 8 b OR push_bit 16 c OR push_bit 24 d)"

definition FFERRTAG :: "int \<Rightarrow> int \<Rightarrow> int \<Rightarrow> int \<Rightarrow> int" where
  "FFERRTAG a b c d = - MKTAG a b c d"

text \<open>\<open>EAGAIN\<close> of the C runtime the program is built for.\<close>

definition EAGAIN :: int where
  "EAGAIN = 11"

definition AVERROR_EOF :: int where
  "AVERROR_EOF = FFERRTAG 0x45 0x4F 0x46 0x20"

definition AV_NOPTS_VALUE :: int where
  "AV_NOPTS_VALUE = - (2 ^ 63)"

text \<open>The enumerators that the program names.\<close>

definition AV_CODEC_ID_H264 :: int where "AV_CODEC_ID_H264 = 27"
definition AV_PIX_FMT_YUV420P :: int where "AV_PIX_FMT_YUV420P = 0"
definition AV_PIX_FMT_RGB24 :: int where "AV_PIX_FMT_RGB24 = 2"
definition SWS_BILINEAR :: int where "SWS_BILINEAR = 2"
definition SWS_BICUBIC :: int where "SWS_BICUBIC = 4"
definition SWS_LANCZOS :: int where "SWS_LANCZOS = 0x200"

text \<open>A packet owns a reference counted buffer (\<open>pk_buf\<close>) or none.\<close>

record packet =
  pk_buf :: ptr
  pk_data :: "byte list"
  pts :: int
  dts :: int
  duration :: int
  stream_index :: int
  pos :: int

definition zero_packet :: packet where
  "zero_packet = \<lparr>pk_buf = None, pk_data = [], pts = 0, dts = 0, duration = 0,
     stream_index = 0, pos = 0\<rparr>"

text \<open>
  The fields of a codec context that the program sets; \<open>apply_cropping = None\<close> is the library's
  default.
\<close>

record codec_fields =
  codec_id :: int
  width :: int
  height :: int
  pix_fmt :: int
  bit_rate :: int
  time_base :: rational
  gop_size :: int
  max_b_frames :: int
  apply_cropping :: "bool option"
  global_header :: bool

definition zero_fields :: codec_fields where
  "zero_fields = \<lparr>codec_id = 0, width = 0, height = 0, pix_fmt = -1, bit_rate = 0,
     time_base = \<lparr>rnum = 0, rden = 1\<rparr>, gop_size = 0, max_b_frames = 0, apply_cropping = None,
     global_header = False\<rparr>"

record stream_info =
  is_video :: bool
  si_codec :: int
  si_time_base :: rational

subsection \<open>Calls and answers\<close>

datatype av_kind = KFormat | KCodec | KFrame | KSws | KIo | KBuffer | KPacket | KParams

datatype (plugins only: code) av_call =
    Alloc_output_context2 "string option" "string option"
  | Find_encoder int
  | New_stream ptr
  | Alloc_context3
  | D2q u64 int
  | Opt_set ptr string string
  | Opt_set_int ptr string int
  | Open_codec ptr codec_fields
  | Frame_alloc
  | Frame_get_buffer ptr int
  | Parameters_from_context ptr ptr codec_fields
  | Sws_getContext int int int int int int int
  | Dump_format ptr
  | Avio_open ptr "string option"
  | Open_dyn_buf
  | Write_header ptr "string option"
  | Avio_close ptr
  | Close_dyn_buf ptr
  | Send_frame ptr "(ptr \<times> int) option"
  | Receive_packet ptr
  | Interleaved_write_frame ptr packet
  | Packet_unref ptr
  | Write_trailer ptr
  | Frame_make_writable ptr
  | Sws_scale ptr ptr ptr int int
  | Sws_free ptr
  | Frame_free ptr
  | Codec_free ptr
  | Codec_close ptr
  | Format_free ptr
  | Parameters_alloc
  | Parameters_copy ptr ptr codec_fields
  | Copy_stream_parameters ptr ptr nat
  | Parameters_free ptr
  | Av_malloc int
  | Av_free ptr
  | Alloc_format
  | Open_input ptr string
  | Find_stream_info ptr
  | Close_input ptr
  | Find_decoder int
  | Parameters_to_context ptr
  | Read_frame ptr
  | Send_packet ptr packet
  | Receive_frame ptr ptr
  | Image_get_buffer_size int int
  | Image_fill_arrays ptr ptr
  | Sws_opt ptr string int
  | Set_metadata ptr string string
  | Now
  | Sleep_us int
  | Notify ptr int int

record av_answer =
  a_rc :: int
  a_ok :: bool
  a_rat :: rational
  a_pkt :: packet
  a_data :: "byte list"
  a_w :: int
  a_h :: int
  a_pts :: int
  a_flag :: bool
  a_nofile :: bool
  a_streams :: "stream_info list"

definition av_ok :: av_answer where
  "av_ok = \<lparr>a_rc = 0, a_ok = True, a_rat = \<lparr>rnum = 1, rden = 1\<rparr>, a_pkt = zero_packet,
     a_data = [], a_w = 0, a_h = 0, a_pts = 0, a_flag = False, a_nofile = False, a_streams = []\<rparr>"

fun av_uses :: "av_call \<Rightarrow> (ptr \<times> av_kind) list" where
  "av_uses (New_stream f) = [(f, KFormat)]"
| "av_uses (Opt_set c _ _) = [(c, KCodec)]"
| "av_uses (Opt_set_int c _ _) = [(c, KCodec)]"
| "av_uses (Open_codec c _) = [(c, KCodec)]"
| "av_uses (Frame_get_buffer fr _) = [(fr, KFrame)]"
| "av_uses (Parameters_from_context f c _) = [(f, KFormat), (c, KCodec)]"
| "av_uses (Dump_format f) = [(f, KFormat)]"
| "av_uses (Avio_open f _) = [(f, KFormat)]"
| "av_uses (Write_header f _) = [(f, KFormat)]"
| "av_uses (Avio_close p) = [(p, KIo)]"
| "av_uses (Close_dyn_buf p) = [(p, KIo)]"
| "av_uses (Send_frame c None) = [(c, KCodec)]"
| "av_uses (Send_frame c (Some (fr, _))) = [(c, KCodec), (fr, KFrame)]"
| "av_uses (Receive_packet c) = [(c, KCodec)]"
| "av_uses (Interleaved_write_frame f p) =
     (f, KFormat) # (case pk_buf p of None \<Rightarrow> [] | Some h \<Rightarrow> [(Some h, KPacket)])"
| "av_uses (Packet_unref b) = (case b of None \<Rightarrow> [] | Some h \<Rightarrow> [(Some h, KPacket)])"
| "av_uses (Write_trailer f) = [(f, KFormat)]"
| "av_uses (Frame_make_writable fr) = [(fr, KFrame)]"
| "av_uses (Sws_scale s _ fr _ _) = [(s, KSws), (fr, KFrame)]"
| "av_uses (Sws_free s) = [(s, KSws)]"
| "av_uses (Frame_free fr) = [(fr, KFrame)]"
| "av_uses (Codec_free c) = [(c, KCodec)]"
| "av_uses (Codec_close c) = [(c, KCodec)]"
| "av_uses (Format_free f) = [(f, KFormat)]"
| "av_uses (Parameters_copy f q _) = [(f, KFormat), (q, KParams)]"
| "av_uses (Copy_stream_parameters f g _) = [(f, KFormat), (g, KFormat)]"
| "av_uses (Parameters_free q) = (case q of None \<Rightarrow> [] | Some h \<Rightarrow> [(Some h, KParams)])"
| "av_uses (Av_free b) = (case b of None \<Rightarrow> [] | Some h \<Rightarrow> [(Some h, KBuffer)])"
| "av_uses (Open_input f _) = (case f of None \<Rightarrow> [] | Some h \<Rightarrow> [(Some h, KFormat)])"
| "av_uses (Find_stream_info f) = [(f, KFormat)]"
| "av_uses (Close_input f) = [(f, KFormat)]"
| "av_uses (Parameters_to_context c) = [(c, KCodec)]"
| "av_uses (Read_frame f) = [(f, KFormat)]"
| "av_uses (Send_packet c p) = [(c, KCodec)]"
| "av_uses (Receive_frame c fr) = [(c, KCodec), (fr, KFrame)]"
| "av_uses (Image_fill_arrays fr _) = [(fr, KFrame)]"
| "av_uses (Sws_opt c _ _) = [(c, KSws)]"
| "av_uses (Set_metadata f _ _) = [(f, KFormat)]"
| "av_uses (Notify b _ _) = [(b, KBuffer)]"
| "av_uses _ = []"

text \<open>
  \<open>Open_input\<close> allocates a context when it is given none; \<open>Receive_packet\<close> and \<open>Read_frame\<close> hand
  out a buffer; \<open>Close_dyn_buf\<close> turns the stream into a buffer that \<open>av_free\<close> releases.
\<close>

fun av_creates :: "av_call \<Rightarrow> av_answer \<Rightarrow> av_kind option" where
  "av_creates (Alloc_output_context2 _ _) r = (if a_ok r then Some KFormat else None)"
| "av_creates Alloc_context3 r = (if a_ok r then Some KCodec else None)"
| "av_creates Frame_alloc r = (if a_ok r then Some KFrame else None)"
| "av_creates (Sws_getContext _ _ _ _ _ _ _) r = (if a_ok r then Some KSws else None)"
| "av_creates (Avio_open _ _) r = (if a_rc r \<ge> 0 then Some KIo else None)"
| "av_creates Open_dyn_buf r = (if a_rc r \<ge> 0 then Some KIo else None)"
| "av_creates (Close_dyn_buf p) r = Some KBuffer"
| "av_creates (Receive_packet _) r = (if a_rc r \<ge> 0 then Some KPacket else None)"
| "av_creates Parameters_alloc r = (if a_ok r then Some KParams else None)"
| "av_creates (Av_malloc _) r = (if a_ok r then Some KBuffer else None)"
| "av_creates Alloc_format r = (if a_ok r then Some KFormat else None)"
| "av_creates (Open_input f _) r = (if f = None \<and> a_rc r \<ge> 0 then Some KFormat else None)"
| "av_creates (Read_frame _) r = (if a_rc r \<ge> 0 then Some KPacket else None)"
| "av_creates _ r = None"

fun av_releases :: "av_call \<Rightarrow> av_answer \<Rightarrow> ptr" where
  "av_releases (Avio_close p) r = p"
| "av_releases (Close_dyn_buf p) r = p"
| "av_releases (Interleaved_write_frame _ p) r = pk_buf p"
| "av_releases (Packet_unref b) r = b"
| "av_releases (Sws_free s) r = s"
| "av_releases (Frame_free fr) r = fr"
| "av_releases (Codec_free c) r = c"
| "av_releases (Format_free f) r = f"
| "av_releases (Parameters_free q) r = q"
| "av_releases (Av_free b) r = b"
| "av_releases (Open_input f _) r = (if a_rc r < 0 then f else None)"
| "av_releases (Close_input f) r = f"
| "av_releases _ r = None"

definition avlib :: "(av_call, av_answer, av_kind) api" where
  "avlib = \<lparr>uses = av_uses, creates = av_creates, releases = av_releases\<rparr>"

type_synonym 'x av = "(av_call, av_kind, 'x) world"

record 'x av_env =
  answers :: "(av_call, av_answer, 'x) answers"
  rescale_q :: "int \<Rightarrow> rational \<Rightarrow> rational \<Rightarrow> int"
  rescale_rnd :: "int \<Rightarrow> rational \<Rightarrow> rational \<Rightarrow> int"
  rescale_ts :: "int \<times> int \<times> int \<Rightarrow> rational \<Rightarrow> rational \<Rightarrow> int \<times> int \<times> int"

text \<open>\<open>av_packet_rescale_ts\<close> converts the timing fields of a packet and touches no other.\<close>

definition packet_rescale_ts :: "'x av_env \<Rightarrow> packet \<Rightarrow> rational \<Rightarrow> rational \<Rightarrow> packet" where
  "packet_rescale_ts E p src dst =
     (case rescale_ts E (pts p, dts p, duration p) src dst of
        (a, b, c) \<Rightarrow> p\<lparr>pts := a, dts := b, duration := c\<rparr>)"

lemma packet_rescale_ts_simps [simp]:
  "pk_buf (packet_rescale_ts E p src dst) = pk_buf p"
  "pk_data (packet_rescale_ts E p src dst) = pk_data p"
  by (simp_all add: packet_rescale_ts_def split: prod.splits)

definition av :: "'x av_env \<Rightarrow> av_call \<Rightarrow> 'x av \<Rightarrow> av_answer \<times> ptr \<times> 'x av" where
  "av E c w = invoke avlib (answers E) c w"

text \<open>A call whose answer the code ignores.\<close>

definition av_do :: "'x av_env \<Rightarrow> av_call \<Rightarrow> 'x av \<Rightarrow> 'x av" where
  "av_do E c w = snd (snd (av E c w))"

lemma avD:
  assumes "av E c w = (r, p, w')"
  shows "live w' = drop_handle (av_releases c r) (live w) @
       (case av_creates c r of None \<Rightarrow> [] | Some k \<Rightarrow> [(fresh w, k)])"
    and "p = map_option (\<lambda>_. fresh w) (av_creates c r)"
    and "faults w' = faults w @ filter (\<lambda>a. \<not> usable (live w) a) (av_uses c)"
    and "fresh w' = fresh w + (if av_creates c r = None then 0 else 1)"
    and "calls w' = calls w @ [c]"
    and "ext w' = snd (answers E c (ext w))" and "r = fst (answers E c (ext w))"
    and "ordered w \<Longrightarrow> ordered w'"
  using invokeD [OF assms [unfolded av_def]] invoke_orderedD [OF assms [unfolded av_def]]
  by (simp_all add: avlib_def)

lemma av_do_faults [ledger]:
  "faults (av_do E c w) = faults w @ filter (\<lambda>a. \<not> usable (live w) a) (av_uses c)"
  by (simp add: av_do_def av_def invoke_faults avlib_def)

lemma av_do_ordered [ledger]: "ordered w \<Longrightarrow> ordered (av_do E c w)"
  by (simp add: av_do_def av_def invoke_ordered)

lemma av_do_calls [ledger]: "calls (av_do E c w) = calls w @ [c]"
  by (simp add: av_do_def av_def invoke_calls)

lemma av_do_live [ledger]:
  "(\<And>r. av_creates c r = None) \<Longrightarrow> (\<And>r. av_releases c r = p) \<Longrightarrow>
     live (av_do E c w) = drop_handle p (live w)"
  by (simp add: av_do_def av_def invoke_live avlib_def)

subsection \<open>A library for the witnesses\<close>

text \<open>
  A library whose calls succeed and whose codec hands out one packet for every frame it was given;
  its hidden state counts the packets waiting.  \<open>bad c\<close> says that call \<open>c\<close> fails.
\<close>

definition counting_env :: "(av_call \<Rightarrow> bool) \<Rightarrow> nat av_env" where
  "counting_env bad = \<lparr>answers = (\<lambda>c n.
       if bad c then (av_ok\<lparr>a_ok := False, a_rc := -5\<rparr>, n)
       else case c of
         Send_frame _ _ \<Rightarrow> (av_ok, Suc n)
       | Receive_packet _ \<Rightarrow> (if n = 0 then (av_ok\<lparr>a_rc := AVERROR EAGAIN\<rparr>, 0) else (av_ok, n - 1))
       | _ \<Rightarrow> (av_ok, n)),
     rescale_q = (\<lambda>a _ _. a), rescale_rnd = (\<lambda>a _ _. a), rescale_ts = (\<lambda>t _ _. t)\<rparr>"

lemma counting_env_sel [simp]:
  "answers (counting_env bad) = (\<lambda>c n.
       if bad c then (av_ok\<lparr>a_ok := False, a_rc := -5\<rparr>, n)
       else case c of
         Send_frame _ _ \<Rightarrow> (av_ok, Suc n)
       | Receive_packet _ \<Rightarrow> (if n = 0 then (av_ok\<lparr>a_rc := AVERROR EAGAIN\<rparr>, 0) else (av_ok, n - 1))
       | _ \<Rightarrow> (av_ok, n))"
  "rescale_q (counting_env bad) = (\<lambda>a _ _. a)" "rescale_rnd (counting_env bad) = (\<lambda>a _ _. a)" "rescale_ts (counting_env bad) = (\<lambda>t _ _. t)"
  by (simp_all add: counting_env_def)

lemma av_ok_sel [simp]: "a_rc av_ok = 0" "a_ok av_ok" "a_rat av_ok = \<lparr>rnum = 1, rden = 1\<rparr>"
  "a_pkt av_ok = zero_packet" "a_data av_ok = []" "a_w av_ok = 0" "a_h av_ok = 0" "\<not> a_flag av_ok" "\<not> a_nofile av_ok"
  "a_pts av_ok = 0" "a_streams av_ok = []"
  by (simp_all add: av_ok_def)

end
