(* ===== verification/EncoderContext.thy ===== *)
theory EncoderContext
  imports AvWorld
begin

text \<open>
  What \<open>FFmpegEncoder\<close> and \<open>VideoStreamEncoder\<close> share: the two \<open>Params\<close> structures and the two
  \<open>Context\<close> structures have the same fields, and the two \<open>Open\<close> blocks allocate in the same order:
  format context, codec context, frame, scaler, output stream.  The record \<open>enc\<close> is the object:
  the pointers of its \<open>mContext\<close>, the fields the code sets behind them (\<open>cc\<close> behind
  \<open>codec_context\<close>, \<open>stream_tb\<close>, \<open>stream_id\<close> and \<open>stream_idx\<close> behind \<open>stream\<close>, the
  two \<open>fmt_\<close> fields behind \<open>format_context->oformat\<close>, \<open>io\<close> for \<open>format_context->pb\<close>,
  \<open>frame_pts\<close> and the frame's dimensions behind \<open>frame\<close>) and \<open>mIsOpen\<close>.

  \<open>holds J base fs\<close> is the ownership invariant: the live handles are those of \<open>base\<close>, which belong
  to somebody else, followed by exactly the ones the object points to, the faults are \<open>fs\<close>, and
  the calls made so far satisfy \<open>J\<close>.
\<close>

record params =
  p_width :: u32
  p_height :: u32
  p_fps :: u64
  p_bitrate :: u32
  p_preset :: "string option"
  p_crf :: u32
  p_src_format :: int
  p_dst_format :: int

record enc =
  is_open :: bool
  format_context :: ptr
  fmt_video_codec :: int
  fmt_global_header :: bool
  io :: ptr
  stream :: bool
  stream_id :: int
  stream_idx :: int
  stream_tb :: rational
  codec :: bool
  codec_context :: ptr
  cc :: codec_fields
  frame :: ptr
  frame_pts :: int
  frame_w :: int
  frame_h :: int
  sws_context :: ptr
  frame_index :: int

definition empty_enc :: enc where
  "empty_enc = \<lparr>is_open = False, format_context = None, fmt_video_codec = 0,
     fmt_global_header = False, io = None, stream = False, stream_id = 0, stream_idx = 0,
     stream_tb = \<lparr>rnum = 0, rden = 0\<rparr>, codec = False, codec_context = None, cc = zero_fields,
     frame = None, frame_pts = 0, frame_w = 0, frame_h = 0, sws_context = None, frame_index = 0\<rparr>"

definition opt :: "'k \<Rightarrow> ptr \<Rightarrow> (nat \<times> 'k) list" where
  "opt k p = (case p of None \<Rightarrow> [] | Some h \<Rightarrow> [(h, k)])"

lemma opt_simps [simp]: "opt k None = []" "opt k (Some h) = [(h, k)]"
  by (simp_all add: opt_def)

definition owned :: "enc \<Rightarrow> (nat \<times> av_kind) list" where
  "owned e = opt KFormat (format_context e) @ opt KCodec (codec_context e) @
     opt KFrame (frame e) @ opt KSws (sws_context e) @ opt KIo (io e)"

lemma owned_empty [simp]: "owned empty_enc = []"
  by (simp add: owned_def empty_enc_def)

definition holds :: "(av_call list \<Rightarrow> bool) \<Rightarrow> (nat \<times> av_kind) list \<Rightarrow> (ptr \<times> av_kind) list \<Rightarrow>
    enc \<times> 'x av \<Rightarrow> bool" where
  "holds J base fs s \<longleftrightarrow>
     live (snd s) = base @ owned (fst s) \<and> faults (snd s) = fs \<and> ordered (snd s) \<and> J (calls (snd s))"

text \<open>How far \<open>Open\<close> has come: the first \<open>n\<close> of the five pointers are set, the others null.\<close>

definition reached :: "nat \<Rightarrow> enc \<Rightarrow> bool" where
  "reached n e \<longleftrightarrow>
     (format_context e \<noteq> None \<longleftrightarrow> 0 < n) \<and> (codec_context e \<noteq> None \<longleftrightarrow> 1 < n) \<and>
     (frame e \<noteq> None \<longleftrightarrow> 2 < n) \<and> (sws_context e \<noteq> None \<longleftrightarrow> 3 < n) \<and> (io e \<noteq> None \<longleftrightarrow> 4 < n)"

definition at_stage :: "(av_call list \<Rightarrow> bool) \<Rightarrow> (nat \<times> av_kind) list \<Rightarrow> (ptr \<times> av_kind) list \<Rightarrow> nat \<Rightarrow> enc \<times> 'x av \<Rightarrow> bool"
  where "at_stage J base fs n s \<longleftrightarrow> holds J base fs s \<and> reached n (fst s) \<and> \<not> is_open (fst s)"

lemma reached_empty [simp]: "reached 0 empty_enc"
  by (simp add: reached_def empty_enc_def)

subsection \<open>Shapes of a stage\<close>

text \<open>A call that hands out a pointer, stored by \<open>put\<close>; a call whose answer is tested by \<open>go\<close>.\<close>

definition alloc_stage :: "'x av_env \<Rightarrow> av_call \<Rightarrow> (av_answer \<Rightarrow> ptr \<Rightarrow> enc \<Rightarrow> bool \<times> enc) \<Rightarrow>
    (enc \<times> 'x av) stage" where
  "alloc_stage E c put = (\<lambda>(e, w). case av E c w of (r, p, w') \<Rightarrow>
     (case put r p e of (go, e') \<Rightarrow> (go, (e', w'))))"

definition test_stage :: "'x av_env \<Rightarrow> (enc \<Rightarrow> av_call) \<Rightarrow> (av_answer \<Rightarrow> enc \<Rightarrow> bool \<times> enc) \<Rightarrow>
    (enc \<times> 'x av) stage" where
  "test_stage E c put = (\<lambda>(e, w). case av E (c e) w of (r, _, w') \<Rightarrow>
     (case put r e of (go, e') \<Rightarrow> (go, (e', w'))))"

text \<open>A call that creates and releases nothing and uses only what the object owns keeps \<open>at_stage\<close>.\<close>

definition neutral :: "(av_call list \<Rightarrow> bool) \<Rightarrow> av_call \<Rightarrow> bool" where
  "neutral J c \<longleftrightarrow> (\<forall>cs. J cs \<longrightarrow> J (cs @ [c]))"

definition quiet :: "av_call \<Rightarrow> bool" where
  "quiet c \<longleftrightarrow> (\<forall>r. av_creates c r = None \<and> av_releases c r = None)"

definition same_ptrs :: "enc \<Rightarrow> enc \<Rightarrow> bool" where
  "same_ptrs e e' \<longleftrightarrow> format_context e' = format_context e \<and> codec_context e' = codec_context e \<and>
     frame e' = frame e \<and> sws_context e' = sws_context e \<and> io e' = io e \<and> is_open e' = is_open e"

lemma same_ptrs_keeps:
  assumes "same_ptrs e e'"
  shows "owned e' = owned e" and "reached n e' = reached n e" and "is_open e' = is_open e"
  using assms by (simp_all add: same_ptrs_def owned_def reached_def)

lemma av_quiet:
  assumes "av E c w = (r, p, w')" and "quiet c" and "\<forall>a \<in> set (av_uses c). usable (live w) a"
  shows "live w' = live w" and "faults w' = faults w" and "ordered w \<Longrightarrow> ordered w'"
    and "calls w' = calls w @ [c]"
  using avD [OF assms(1)] assms(2,3) by (auto simp: quiet_def filter_empty_conv)

lemma test_stage_keeps:
  assumes "at_stage J base fs n (e, w)" and "quiet (c e)" and nt: "neutral J (c e)"
    and "\<And>a. a \<in> set (av_uses (c e)) \<Longrightarrow> usable (owned e) a"
    and "\<And>r. same_ptrs e (snd (put r e))"
  shows "case test_stage E c put (e, w) of (go, s') \<Rightarrow>
     if go then at_stage J base fs n s' else at_stage J base fs n s'"
proof -
  obtain r p w' where i: "av E (c e) w = (r, p, w')" by (metis prod_cases3)
  obtain go e' where q: "put r e = (go, e')" by (metis prod.exhaust)
  have l: "live w = base @ owned e" "faults w = fs" "ordered w" "J (calls w)"
    using assms(1) by (auto simp: at_stage_def holds_def)
  have u: "\<forall>a \<in> set (av_uses (c e)). usable (live w) a"
    using assms(4) l(1) by simp
  note A = av_quiet [OF i assms(2) u]
  have "J (calls w')" using nt l(4) A(4) by (simp add: neutral_def)
  moreover have "same_ptrs e e'" using assms(5) [of r] q by simp
  note S = same_ptrs_keeps [OF this]
  ultimately have "at_stage J base fs n (e', w')"
    using assms(1) A l S by (simp add: at_stage_def holds_def)
  then show ?thesis by (simp add: test_stage_def i q)
qed

lemma usable_owned:
  "reached n e \<Longrightarrow> 0 < n \<Longrightarrow> usable (owned e) (format_context e, KFormat)"
  "reached n e \<Longrightarrow> 1 < n \<Longrightarrow> usable (owned e) (codec_context e, KCodec)"
  "reached n e \<Longrightarrow> 2 < n \<Longrightarrow> usable (owned e) (frame e, KFrame)"
  "reached n e \<Longrightarrow> 3 < n \<Longrightarrow> usable (owned e) (sws_context e, KSws)"
  "reached n e \<Longrightarrow> 4 < n \<Longrightarrow> usable (owned e) (io e, KIo)"
  by (auto simp: reached_def owned_def)

lemma alloc_stage_keeps:
  assumes "at_stage J base fs n (e, w)" and "\<And>r. av_releases c r = None" and nt: "neutral J c"
    and "\<And>a. a \<in> set (av_uses c) \<Longrightarrow> usable (owned e) a"
    and none: "\<And>r. av_creates c r = None \<Longrightarrow> \<not> fst (put r None e) \<and> same_ptrs e (snd (put r None e))"
    and some: "\<And>r h k. r = fst (answers E c (ext w)) \<Longrightarrow> av_creates c r = Some k \<Longrightarrow>
       fst (put r (Some h) e) \<and> owned (snd (put r (Some h) e)) = owned e @ [(h, k)] \<and>
       reached (Suc n) (snd (put r (Some h) e)) \<and> \<not> is_open (snd (put r (Some h) e))"
  shows "case alloc_stage E c put (e, w) of (go, s') \<Rightarrow>
     if go then at_stage J base fs (Suc n) s' else at_stage J base fs n s'"
proof -
  obtain r p w' where i: "av E c w = (r, p, w')" by (metis prod_cases3)
  note D = avD [OF i]
  have l: "live w = base @ owned e" "faults w = fs" "ordered w" "J (calls w)"
    using assms(1) by (auto simp: at_stage_def holds_def)
  have f: "faults w' = fs" "ordered w'" "J (calls w')"
    using D(3,5,8) assms(4) nt l by (auto simp: filter_empty_conv neutral_def)
  obtain go e' where q: "put r p e = (go, e')" by (metis prod.exhaust)
  show ?thesis
  proof (cases "av_creates c r")
    case None
    then have "\<not> go" "same_ptrs e e'" using none [of r] D(2) q by auto
    moreover have "live w' = live w" using D(1) assms(2) None by simp
    ultimately have "at_stage J base fs n (e', w')"
      using assms(1) f same_ptrs_keeps [of e e'] by (simp add: at_stage_def holds_def)
    with \<open>\<not> go\<close> show ?thesis by (simp add: alloc_stage_def i q)
  next
    case (Some k)
    then have p: "p = Some (fresh w)" using D(2) by simp
    have lv: "live w' = live w @ [(fresh w, k)]" using D(1) assms(2) Some by simp
    have "go" "owned e' = owned e @ [(fresh w, k)]" "reached (Suc n) e'" "\<not> is_open e'"
      using some [OF D(7) Some, of "fresh w"] p q by auto
    then have "at_stage J base fs (Suc n) (e', w')"
      using f lv l(1) by (simp add: at_stage_def holds_def)
    with \<open>go\<close> show ?thesis by (simp add: alloc_stage_def i q)
  qed
qed

text \<open>
  A block that broke off: the output stream is not open any more (or never was), whatever
  \<open>format_context->pb\<close> still points to.  What the calls satisfy may depend on whether there is a
  muxer; \<open>fits J K\<close> says that \<open>K\<close> holds wherever \<open>J\<close> did.
\<close>

definition broken :: "(ptr \<Rightarrow> av_call list \<Rightarrow> bool) \<Rightarrow> (nat \<times> av_kind) list \<Rightarrow> (ptr \<times> av_kind) list \<Rightarrow>
    enc \<times> 'x av \<Rightarrow> bool" where
  "broken K base fs s \<longleftrightarrow>
     holds (K (format_context (fst s))) base fs ((fst s)\<lparr>io := None\<rparr>, snd s) \<and> \<not> is_open (fst s)"

definition fits :: "(av_call list \<Rightarrow> bool) \<Rightarrow> (ptr \<Rightarrow> av_call list \<Rightarrow> bool) \<Rightarrow> bool" where
  "fits J K \<longleftrightarrow> (\<forall>p cs. J cs \<longrightarrow> K p cs)"

lemma at_stage_broken: "at_stage J base fs n s \<Longrightarrow> n \<le> 4 \<Longrightarrow> fits J K \<Longrightarrow> broken K base fs s"
  by (cases s) (auto simp: at_stage_def broken_def holds_def owned_def reached_def fits_def)

lemma alloc_stage_next:
  assumes "at_stage J base fs n s" and "m = Suc n"
    and "\<And>r. av_releases c r = None" and "neutral J c"
    and "\<And>a. a \<in> set (av_uses c) \<Longrightarrow> usable (owned (fst s)) a"
    and "\<And>r. av_creates c r = None \<Longrightarrow>
       \<not> fst (put r None (fst s)) \<and> same_ptrs (fst s) (snd (put r None (fst s)))"
    and "\<And>r h k. r = fst (answers E c (ext (snd s))) \<Longrightarrow> av_creates c r = Some k \<Longrightarrow>
       fst (put r (Some h) (fst s)) \<and>
       owned (snd (put r (Some h) (fst s))) = owned (fst s) @ [(h, k)] \<and>
       reached m (snd (put r (Some h) (fst s))) \<and> \<not> is_open (snd (put r (Some h) (fst s)))"
  shows "case alloc_stage E c put s of (go, s') \<Rightarrow>
     if go then at_stage J base fs m s' else at_stage J base fs n s'"
proof (cases s)
  case (Pair e w)
  show ?thesis
    unfolding Pair by (unfold assms(2), rule alloc_stage_keeps) (use assms Pair in simp_all)
qed

lemma test_stage_next:
  assumes "at_stage J base fs n s" and "quiet (c (fst s))" and "neutral J (c (fst s))"
    and "\<And>a. a \<in> set (av_uses (c (fst s))) \<Longrightarrow> usable (owned (fst s)) a"
    and "\<And>r. same_ptrs (fst s) (snd (put r (fst s)))"
  shows "case test_stage E c put s of (go, s') \<Rightarrow>
     if go then at_stage J base fs n s' else at_stage J base fs n s'"
proof (cases s)
  case (Pair e w)
  show ?thesis
    unfolding Pair by (rule test_stage_keeps) (use assms Pair in simp_all)
qed

text \<open>A handle at the end of the ledger can be released without touching the rest.\<close>

lemma drop_owned:
  assumes "ordered w" and "live w = xs @ (h, k) # ys"
  shows "drop_handle (Some h) (live w) = xs @ ys"
proof -
  have "\<forall>a \<in> set xs. fst a \<noteq> h" "\<forall>a \<in> set ys. fst a \<noteq> h"
    using assms by (auto simp: ordered_def sorted_wrt_append)
  then show ?thesis using assms(2) by (simp add: drop_handle_other)
qed

lemma av_do_release:
  assumes "ordered w" and "live w = xs @ opt k p @ ys" and "p \<noteq> None"
    and "\<And>r. av_creates c r = None" and "\<And>r. av_releases c r = p" and "av_uses c = [(p, k)]"
  shows "live (av_do E c w) = xs @ ys" and "faults (av_do E c w) = faults w"
    and "ordered (av_do E c w)" and "calls (av_do E c w) = calls w @ [c]"
  using assms drop_owned [OF assms(1)]
  by (auto simp: ledger av_do_live [OF assms(4,5)])

lemma release_if:
  assumes "ordered w" and "live w = xs @ opt k p @ ys" and "av_uses c = [(p, k)]"
    and "\<And>r. av_creates c r = None" and "\<And>r. av_releases c r = p"
  shows "live (if p \<noteq> None then av_do E c w else w) = xs @ ys"
    and "faults (if p \<noteq> None then av_do E c w else w) = faults w"
    and "ordered (if p \<noteq> None then av_do E c w else w)"
    and "calls (if p \<noteq> None then av_do E c w else w) = calls w @ (if p = None then [] else [c])"
  using av_do_release [OF assms(1,2) _ assms(4,5,3)] assms(1,2) by auto

lemma neutral_True [simp]: "neutral (\<lambda>_. True) c"
  by (simp add: neutral_def)

lemma neutralD: "neutral J c \<Longrightarrow> J cs \<Longrightarrow> J (cs @ [c])"
  by (simp add: neutral_def)

lemma quiet_calls [simp]:
  "quiet (Find_encoder i)" "quiet (New_stream f)" "quiet (D2q x i)" "quiet (Opt_set c k v)"
  "quiet (Opt_set_int c k i)" "quiet (Open_codec c a)" "quiet (Frame_get_buffer fr i)"
  "quiet (Parameters_from_context f c a)" "quiet (Dump_format f)" "quiet (Write_header f o')"
  "quiet (Send_frame c q)" "quiet (Frame_make_writable fr)" "quiet (Sws_scale s d fr i j)"
  "quiet (Write_trailer f)"
  by (simp_all add: quiet_def)


subsection \<open>The stages that the two Open blocks share\<close>

text \<open>
  From \<open>avcodec_find_encoder\<close> to \<open>av_dump_format\<close> the two blocks make the same calls; only
  \<open>FFmpegEncoder\<close> sets \<open>apply_cropping\<close>.
\<close>

definition st_codec :: "'x av_env \<Rightarrow> (enc \<times> 'x av) stage" where
  "st_codec E = test_stage E (\<lambda>e. Find_encoder AV_CODEC_ID_H264) (\<lambda>r e. (a_ok r, e\<lparr>codec := a_ok r\<rparr>))"

definition st_stream :: "'x av_env \<Rightarrow> (enc \<times> 'x av) stage" where
  "st_stream E = test_stage E (\<lambda>e. New_stream (format_context e))
     (\<lambda>r e. (a_ok r, if a_ok r then e\<lparr>stream := True, stream_id := a_w r - 1, stream_idx := a_h r\<rparr>
             else e\<lparr>stream := False\<rparr>))"

definition st_context :: "'x av_env \<Rightarrow> (enc \<times> 'x av) stage" where
  "st_context E = alloc_stage E Alloc_context3 (\<lambda>r p e. (p \<noteq> None, e\<lparr>codec_context := p\<rparr>))"

definition configure :: "bool option \<Rightarrow> params \<Rightarrow> rational \<Rightarrow> enc \<Rightarrow> enc" where
  "configure crop p q e = e\<lparr>stream_tb := q,
     cc := (cc e)\<lparr>codec_id := fmt_video_codec e, bit_rate := uint (p_bitrate p),
       width := sint (p_width p), height := sint (p_height p), time_base := q,
       pix_fmt := p_dst_format p, gop_size := 12, max_b_frames := 2, apply_cropping := crop,
       global_header := (global_header (cc e) \<or> fmt_global_header e)\<rparr>\<rparr>"

definition st_configure :: "'x av_env \<Rightarrow> bool option \<Rightarrow> params \<Rightarrow> (enc \<times> 'x av) stage" where
  "st_configure E crop p = test_stage E (\<lambda>e. D2q (p_fps p) 120)
     (\<lambda>r e. (True, configure crop p (a_rat r) e))"

definition st_preset :: "'x av_env \<Rightarrow> params \<Rightarrow> (enc \<times> 'x av) stage" where
  "st_preset E p = (\<lambda>s. case p_preset p of
       None \<Rightarrow> (True, s)
     | Some preset \<Rightarrow> test_stage E (\<lambda>e. Opt_set (codec_context e) ''preset'' preset)
                        (\<lambda>r e. (a_rc r = 0, e)) s)"

definition st_crf :: "'x av_env \<Rightarrow> params \<Rightarrow> (enc \<times> 'x av) stage" where
  "st_crf E p = test_stage E (\<lambda>e. Opt_set_int (codec_context e) ''crf'' (uint (p_crf p)))
     (\<lambda>r e. (a_rc r = 0, e))"

definition st_open_codec :: "'x av_env \<Rightarrow> (enc \<times> 'x av) stage" where
  "st_open_codec E = test_stage E (\<lambda>e. Open_codec (codec_context e) (cc e)) (\<lambda>r e. (a_rc r = 0, e))"

definition st_frame :: "'x av_env \<Rightarrow> (enc \<times> 'x av) stage" where
  "st_frame E = alloc_stage E Frame_alloc
     (\<lambda>r p e. (p \<noteq> None, e\<lparr>frame := p, frame_w := width (cc e), frame_h := height (cc e)\<rparr>))"

definition st_frame_buffer :: "'x av_env \<Rightarrow> (enc \<times> 'x av) stage" where
  "st_frame_buffer E = test_stage E (\<lambda>e. Frame_get_buffer (frame e) 32) (\<lambda>r e. (\<not> a_rc r < 0, e))"

definition st_parameters :: "'x av_env \<Rightarrow> (enc \<times> 'x av) stage" where
  "st_parameters E =
     test_stage E (\<lambda>e. Parameters_from_context (format_context e) (codec_context e) (cc e))
       (\<lambda>r e. (\<not> a_rc r < 0, e))"

definition sws_call :: "params \<Rightarrow> enc \<Rightarrow> av_call" where
  "sws_call p e = Sws_getContext (width (cc e)) (height (cc e)) (p_src_format p)
     (width (cc e)) (height (cc e)) (p_dst_format p) SWS_BICUBIC"

definition st_sws :: "'x av_env \<Rightarrow> params \<Rightarrow> (enc \<times> 'x av) stage" where
  "st_sws E p = (\<lambda>(e, w). alloc_stage E (sws_call p e)
     (\<lambda>r q e. (q \<noteq> None, e\<lparr>sws_context := q\<rparr>)) (e, w))"

definition st_dump :: "'x av_env \<Rightarrow> (enc \<times> 'x av) stage" where
  "st_dump E = test_stage E (\<lambda>e. Dump_format (format_context e)) (\<lambda>r e. (True, e))"

definition shared_stages :: "'x av_env \<Rightarrow> bool option \<Rightarrow> params \<Rightarrow> (enc \<times> 'x av) stage list" where
  "shared_stages E crop p =
     [st_codec E, st_stream E, st_context E, st_configure E crop p, st_preset E p, st_crf E p,
      st_open_codec E, st_frame E, st_frame_buffer E, st_parameters E, st_sws E p, st_dump E]"

text \<open>The calls of the block up to the output stream; a \<open>J\<close> that none of them can break.\<close>

definition open_call :: "av_call \<Rightarrow> bool" where
  "open_call c = (case c of
       Alloc_output_context2 _ _ \<Rightarrow> True | Find_encoder _ \<Rightarrow> True | New_stream _ \<Rightarrow> True
     | Alloc_context3 \<Rightarrow> True | D2q _ _ \<Rightarrow> True | Opt_set _ _ _ \<Rightarrow> True | Opt_set_int _ _ _ \<Rightarrow> True
     | Open_codec _ _ \<Rightarrow> True | Frame_alloc \<Rightarrow> True | Frame_get_buffer _ _ \<Rightarrow> True
     | Parameters_from_context _ _ _ \<Rightarrow> True | Sws_getContext _ _ _ _ _ _ _ \<Rightarrow> True
     | Dump_format _ \<Rightarrow> True | Avio_open _ _ \<Rightarrow> True | Open_dyn_buf \<Rightarrow> True | _ \<Rightarrow> False)"

definition open_neutral :: "(av_call list \<Rightarrow> bool) \<Rightarrow> bool" where
  "open_neutral J \<longleftrightarrow> (\<forall>c. open_call c \<longrightarrow> neutral J c)"

lemma open_neutralD [intro]: "open_neutral J \<Longrightarrow> open_call c \<Longrightarrow> neutral J c"
  by (simp add: open_neutral_def)

lemma open_neutral_True [simp]: "open_neutral (\<lambda>_. True)"
  by (simp add: open_neutral_def)

lemmas stage_simps = at_stage_def same_ptrs_def owned_def reached_def

definition stage_ok :: "(av_call list \<Rightarrow> bool) \<Rightarrow> (nat \<times> av_kind) list \<Rightarrow> (ptr \<times> av_kind) list \<Rightarrow>
    nat \<Rightarrow> (enc \<times> 'x av) stage \<Rightarrow> nat \<Rightarrow> bool" where
  "stage_ok J base fs n f m \<longleftrightarrow> (\<forall>s. at_stage J base fs n s \<longrightarrow>
     (case f s of (go, s') \<Rightarrow> if go then at_stage J base fs m s' else at_stage J base fs n s'))"

lemma allocations_ok:
  assumes "open_neutral J"
  shows "stage_ok J base fs 1 (st_context E) 2"
    and "stage_ok J base fs 2 (st_frame E) 3"
    and "stage_ok J base fs 3 (st_sws E p) 4"
  unfolding stage_ok_def
proof -
  have nt: "neutral J Alloc_context3" "neutral J Frame_alloc" "neutral J (sws_call p e)" for e
    using assms by (auto simp: open_neutral_def open_call_def sws_call_def)
  show "\<forall>s. at_stage J base fs 1 s \<longrightarrow> (case st_context E s of (go, s') \<Rightarrow>
      if go then at_stage J base fs 2 s' else at_stage J base fs 1 s')"
    unfolding st_context_def
    by (intro allI impI, rule alloc_stage_next) (auto simp: nt stage_simps split: if_splits)
  show "\<forall>s. at_stage J base fs 2 s \<longrightarrow> (case st_frame E s of (go, s') \<Rightarrow>
      if go then at_stage J base fs 3 s' else at_stage J base fs 2 s')"
    unfolding st_frame_def
    by (intro allI impI, rule alloc_stage_next) (auto simp: nt stage_simps split: if_splits)
  show "\<forall>s. at_stage J base fs 3 s \<longrightarrow> (case st_sws E p s of (go, s') \<Rightarrow>
      if go then at_stage J base fs 4 s' else at_stage J base fs 3 s')"
    unfolding st_sws_def
    by (intro allI impI, unfold split_paired_all prod.case, rule alloc_stage_next)
      (use nt in \<open>auto simp: sws_call_def stage_simps split: if_splits\<close>)
qed

text \<open>The stages between the allocations only use what is there.\<close>

lemma tests_ok:
  assumes "open_neutral J"
  shows "stage_ok J base fs n (st_codec E) n"
    and "0 < n \<Longrightarrow> stage_ok J base fs n (st_stream E) n"
    and "stage_ok J base fs n (st_configure E crop p) n"
    and "1 < n \<Longrightarrow> stage_ok J base fs n (st_preset E p) n"
    and "1 < n \<Longrightarrow> stage_ok J base fs n (st_crf E p) n"
    and "1 < n \<Longrightarrow> stage_ok J base fs n (st_open_codec E) n"
    and "2 < n \<Longrightarrow> stage_ok J base fs n (st_frame_buffer E) n"
    and "1 < n \<Longrightarrow> stage_ok J base fs n (st_parameters E) n"
    and "0 < n \<Longrightarrow> stage_ok J base fs n (st_dump E) n"
proof -
  have r: "reached n (fst s)" if "at_stage J base fs n s" for s :: "enc \<times> 'a av"
    using that by (simp add: at_stage_def)
  note u = usable_owned(1-3) [OF r]
  note nt = open_neutralD [OF assms]
  note un = stage_ok_def st_codec_def st_stream_def st_configure_def st_crf_def st_open_codec_def
    st_frame_buffer_def st_parameters_def st_dump_def configure_def
  note t = test_stage_next
  note sp = same_ptrs_def open_call_def
  show "stage_ok J base fs n (st_codec E) n"
    unfolding un by (intro allI impI, rule t) (auto simp: sp nt)
  show "stage_ok J base fs n (st_stream E) n" if "0 < n"
    unfolding un by (intro allI impI, rule t) (use that u in \<open>auto simp: sp nt\<close>)
  show "stage_ok J base fs n (st_configure E crop p) n"
    unfolding un by (intro allI impI, rule t) (auto simp: sp nt)
  show "stage_ok J base fs n (st_preset E p) n" if "1 < n"
  proof (cases "p_preset p")
    case None
    then show ?thesis by (simp add: st_preset_def stage_ok_def)
  next
    case (Some x)
    show ?thesis unfolding un st_preset_def Some option.case
      by (intro allI impI, rule t) (use that u in \<open>auto simp: sp nt\<close>)
  qed
  show "stage_ok J base fs n (st_crf E p) n" if "1 < n"
    unfolding un by (intro allI impI, rule t) (use that u in \<open>auto simp: sp nt\<close>)
  show "stage_ok J base fs n (st_open_codec E) n" if "1 < n"
    unfolding un by (intro allI impI, rule t) (use that u in \<open>auto simp: sp nt\<close>)
  show "stage_ok J base fs n (st_frame_buffer E) n" if "2 < n"
    unfolding un by (intro allI impI, rule t) (use that u in \<open>auto simp: sp nt\<close>)
  show "stage_ok J base fs n (st_parameters E) n" if "1 < n"
    unfolding un by (intro allI impI, rule t) (use that u in \<open>auto simp: sp nt\<close>)
  show "stage_ok J base fs n (st_dump E) n" if "0 < n"
    unfolding un by (intro allI impI, rule t) (use that u in \<open>auto simp: sp nt\<close>)
qed

definition within :: "(av_call list \<Rightarrow> bool) \<Rightarrow> (nat \<times> av_kind) list \<Rightarrow> (ptr \<times> av_kind) list \<Rightarrow>
    nat \<Rightarrow> enc \<times> 'x av \<Rightarrow> bool" where
  "within J base fs n s \<longleftrightarrow> (\<exists>k \<le> n. at_stage J base fs k s)"

lemma stage_ok_step:
  assumes "stage_ok J base fs n f m" and "n \<le> lim" and "at_stage J base fs n s"
  shows "case f s of (go, s') \<Rightarrow> if go then at_stage J base fs m s' else within J base fs lim s'"
proof -
  obtain go s' where "f s = (go, s')" by (cases "f s")
  then show ?thesis using assms unfolding stage_ok_def within_def by fastforce
qed

lemma shared_stages_triple:
  assumes J: "open_neutral J" and lim: "4 \<le> lim" and rest: "triple (at_stage J base fs 4) fs' Q R"
    and R: "\<And>s. within J base fs lim s \<Longrightarrow> R s"
  shows "triple (at_stage J base fs 1) (shared_stages E crop p @ fs') Q R"
proof -
  have step: "triple (at_stage J base fs n) (f # gs) Q R"
    if ok: "stage_ok J base fs n f m" and "n \<le> 4" and tl: "triple (at_stage J base fs m) gs Q R"
    for n f m gs
  proof (rule triple_Cons [OF _ tl])
    fix s :: "enc \<times> 'a av"
    assume "at_stage J base fs n s"
    then show "case f s of (go, s') \<Rightarrow> if go then at_stage J base fs m s' else R s'"
      using stage_ok_step [OF ok, of lim s] that(2) lim R by (auto split: prod.splits)
  qed
  note T = tests_ok [OF J] and A = allocations_ok [OF J]
  show ?thesis
    unfolding shared_stages_def append_Cons append_Nil
    apply (rule step [OF T(1)], simp)
    apply (rule step [OF T(2)], simp, simp)
    apply (rule step [OF A(1)], simp)
    apply (rule step [OF T(3)], simp)
    apply (rule step [OF T(4)], simp, simp)
    apply (rule step [OF T(5)], simp, simp)
    apply (rule step [OF T(6)], simp, simp)
    apply (rule step [OF A(2)], simp)
    apply (rule step [OF T(7)], simp, simp)
    apply (rule step [OF T(8)], simp, simp)
    apply (rule step [OF A(3)], simp)
    apply (rule step [OF T(9)], simp, simp)
    apply (rule rest)
    done
qed

text \<open>
  A codec that has been given finitely many frames has finitely many packets to hand out: a
  measure of the library's state goes down with every packet received, and only a frame sent to
  the codec raises it.
\<close>

definition is_send :: "av_call \<Rightarrow> bool" where
  "is_send c = (case c of Send_frame _ _ \<Rightarrow> True | _ \<Rightarrow> False)"

definition codec_finite :: "'x av_env \<Rightarrow> ('x \<Rightarrow> nat) \<Rightarrow> bool" where
  "codec_finite E m \<longleftrightarrow>
     (\<forall>c x. \<not> a_rc (fst (answers E (Receive_packet c) x)) < 0 \<longrightarrow>
        m (snd (answers E (Receive_packet c) x)) < m x) \<and>
     (\<forall>c x. is_send c \<or> m (snd (answers E c x)) \<le> m x)"

lemma codec_finiteD:
  assumes "codec_finite E m" and "av E c w = (r, p, w')"
  shows "\<not> is_send c \<Longrightarrow> m (ext w') \<le> m (ext w)"
    and "c = Receive_packet q \<Longrightarrow> \<not> a_rc r < 0 \<Longrightarrow> m (ext w') < m (ext w)"
  using assms(1) avD(6,7) [OF assms(2)] by (auto simp: codec_finite_def)

lemma codec_finite_do:
  assumes "codec_finite E m" and "\<not> is_send c"
  shows "m (ext (av_do E c w)) \<le> m (ext w)"
  using codec_finiteD(1) [OF assms(1) _ assms(2)] unfolding av_do_def by (metis prod.collapse)

lemma counting_finite: "codec_finite (counting_env bad) (\<lambda>n. n)"
  unfolding codec_finite_def is_send_def
  by (auto simp: AVERROR_def EAGAIN_def split: av_call.splits)

lemma av_do_pair: "av E c w = (r, p, w') \<Longrightarrow> av_do E c w = w'"
  by (simp add: av_do_def)

text \<open>The parameters of the two capture functions.\<close>

definition capture_params :: params where
  "capture_params = \<lparr>p_width = 1280, p_height = 720, p_fps = 0x403E000000000000, p_bitrate = 400000,
     p_preset = Some ''medium'', p_crf = 23, p_src_format = AV_PIX_FMT_RGB24,
     p_dst_format = AV_PIX_FMT_YUV420P\<rparr>"

end
