(* ===== verification/Camera.thy ===== *)
theory Camera
  imports EncoderContext
begin

text \<open>
  The camera and file side of \<open>videoStream\<close> (src/CStreamVideo.cpp, inc/CStreamVideo.hpp): opening and
  closing the camera, taking a frame, remuxing a file, playing a file.  \<open>cam\<close> holds the two pointers,
  the stream index and what is behind the format context (its streams).  The flag \<open>m_recording\<close> is
  set by other threads, so its value at a test is a function of the hidden state; the loops
  over it, and over the packets of a file, are of option type.
\<close>

record cam =
  m_formatContext :: ptr
  m_decoderContext :: ptr
  m_videoStreamIndex :: int
  cam_streams :: "stream_info list"

definition new_camera :: cam where
  "new_camera = \<lparr>m_formatContext = None, m_decoderContext = None, m_videoStreamIndex = -1,
     cam_streams = []\<rparr>"

subsection \<open>initializeCamera and cleanupCamera\<close>

text \<open>The first video stream of a container, with its position.\<close>

fun find_video :: "int \<Rightarrow> stream_info list \<Rightarrow> (int \<times> stream_info) option" where
  "find_video i [] = None"
| "find_video i (s # ss) = (if is_video s then Some (i, s) else find_video (i + 1) ss)"

definition close_camera_input :: "'x av_env \<Rightarrow> cam \<times> 'x av \<Rightarrow> cam \<times> 'x av" where
  "close_camera_input E = (\<lambda>(c, w).
     (c\<lparr>m_formatContext := None\<rparr>, av_do E (Close_input (m_formatContext c)) w))"

definition free_decoder :: "'x av_env \<Rightarrow> cam \<times> 'x av \<Rightarrow> cam \<times> 'x av" where
  "free_decoder E = (\<lambda>(c, w).
     (c\<lparr>m_decoderContext := None\<rparr>, av_do E (Codec_free (m_decoderContext c)) w))"

definition cam_open_input :: "'x av_env \<Rightarrow> (cam \<times> 'x av) stage" where
  "cam_open_input E = (\<lambda>(c, w).
     case av E Alloc_format w of (_, f, w) \<Rightarrow>
     case av E (Open_input f ''video=Integrated Webcam'') w of (r, g, w) \<Rightarrow>
     if a_rc r \<noteq> 0
     then (False, (c\<lparr>m_formatContext := (if a_rc r < 0 then None else if f = None then g else f)\<rparr>, w))
     else (True, (c\<lparr>m_formatContext := (if f = None then g else f)\<rparr>, w)))"

definition cam_stream_info :: "'x av_env \<Rightarrow> (cam \<times> 'x av) stage" where
  "cam_stream_info E = (\<lambda>(c, w).
     case av E (Find_stream_info (m_formatContext c)) w of (r, _, w) \<Rightarrow>
     if a_rc r < 0 then (False, close_camera_input E (c, w))
     else (True, (c\<lparr>cam_streams := a_streams r\<rparr>, w)))"

definition cam_find_decoder :: "'x av_env \<Rightarrow> (cam \<times> 'x av) stage" where
  "cam_find_decoder E = (\<lambda>(c, w).
     case (case find_video 0 (cam_streams c) of
             None \<Rightarrow> (c, False, w)
           | Some (i, s) \<Rightarrow> (case av E (Find_decoder (si_codec s)) w of (r, _, w) \<Rightarrow>
               (c\<lparr>m_videoStreamIndex := i\<rparr>, a_ok r, w)))
     of (c, decoder, w) \<Rightarrow>
       if m_videoStreamIndex c = -1 then (False, close_camera_input E (c, w))
       else if \<not> decoder then (False, close_camera_input E (c, w))
       else (True, (c, w)))"

definition cam_alloc_decoder :: "'x av_env \<Rightarrow> (cam \<times> 'x av) stage" where
  "cam_alloc_decoder E = (\<lambda>(c, w).
     case av E Alloc_context3 w of (_, d, w) \<Rightarrow>
     if d = None then (False, close_camera_input E (c\<lparr>m_decoderContext := None\<rparr>, w))
     else (True, (c\<lparr>m_decoderContext := d\<rparr>, w)))"

definition cam_decoder_call :: "'x av_env \<Rightarrow> (ptr \<Rightarrow> av_call) \<Rightarrow> (cam \<times> 'x av) stage" where
  "cam_decoder_call E call = (\<lambda>(c, w).
     case av E (call (m_decoderContext c)) w of (r, _, w) \<Rightarrow>
     if a_rc r < 0 then (False, close_camera_input E (free_decoder E (c, w)))
     else (True, (c, w)))"

definition camera_stages :: "'x av_env \<Rightarrow> (cam \<times> 'x av) stage list" where
  "camera_stages E =
     [cam_open_input E, cam_stream_info E, cam_find_decoder E, cam_alloc_decoder E,
      cam_decoder_call E Parameters_to_context, cam_decoder_call E (\<lambda>d. Open_codec d zero_fields)]"

definition initializeCamera :: "'x av_env \<Rightarrow> cam \<times> 'x av \<Rightarrow> bool \<times> cam \<times> 'x av" where
  "initializeCamera E = run_stages (camera_stages E)"

definition cleanupCamera :: "'x av_env \<Rightarrow> cam \<times> 'x av \<Rightarrow> cam \<times> 'x av" where
  "cleanupCamera E s =
     (let s = (if m_decoderContext (fst s) \<noteq> None then free_decoder E s else s)
      in if m_formatContext (fst s) \<noteq> None then close_camera_input E s else s)"

subsection \<open>getFrameData\<close>

text \<open>
  What follows a decoded frame: the buffer for the RGB picture and its conversion.  \<open>None\<close> is a null
  pointer; a line size of 0 stands for the source frame's own; the frame \<open>fr\<close> and the packet \<open>p\<close> are released on every path.
\<close>

definition convert_frame :: "'x av_env \<Rightarrow> ptr \<Rightarrow> ptr \<Rightarrow> int \<Rightarrow> int \<Rightarrow> 'x av \<Rightarrow> ptr \<times> 'x av" where
  "convert_frame E fr p wd ht w =
     (case av E Frame_alloc w of (_, rgb, w) \<Rightarrow>
      if rgb = None then (None, av_do E (Frame_free fr) (av_do E (Packet_unref p) w))
      else case av E (Image_get_buffer_size wd ht) w of (rs, _, w) \<Rightarrow>
      case av E (Av_malloc (a_rc rs)) w of (_, buf, w) \<Rightarrow>
      if buf = None
      then (None, av_do E (Frame_free rgb) (av_do E (Frame_free fr) (av_do E (Packet_unref p) w)))
      else let w = av_do E (Image_fill_arrays rgb buf) w in
      case av E (Sws_getContext wd ht AV_PIX_FMT_YUV420P wd ht AV_PIX_FMT_RGB24 SWS_LANCZOS) w of
        (_, sws, w) \<Rightarrow>
      if sws = None
      then (None, av_do E (Av_free buf) (av_do E (Frame_free rgb) (av_do E (Frame_free fr)
              (av_do E (Packet_unref p) w))))
      else
        let w = av_do E (Sws_opt sws ''src_range'' 1) w;
            w = av_do E (Sws_opt sws ''dst_range'' 1) w;
            w = av_do E (Sws_scale sws fr rgb 0 ht) w;
            w = av_do E (Sws_free sws) w;
            w = av_do E (Packet_unref p) w;
            w = av_do E (Frame_free fr) w
        in (buf, w))"

partial_function (option) frame_loop :: "'x av_env \<Rightarrow> ('x \<Rightarrow> bool) \<Rightarrow> cam \<Rightarrow> ptr \<Rightarrow> int \<Rightarrow> int \<Rightarrow> 'x av \<Rightarrow>
    (ptr \<times> int \<times> int \<times> 'x av) option" where
  "frame_loop E recording c fr wd ht w =
     (if \<not> recording (ext w) then Some (None, wd, ht, av_do E (Frame_free fr) w)
      else case av E (Read_frame (m_formatContext c)) w of (r, p, w) \<Rightarrow>
        if a_rc r < 0 then frame_loop E recording c fr wd ht w
        else if stream_index (a_pkt r) \<noteq> m_videoStreamIndex c
        then frame_loop E recording c fr wd ht (av_do E (Packet_unref p) w)
        else case av E (Send_packet (m_decoderContext c) ((a_pkt r)\<lparr>pk_buf := p\<rparr>)) w of (rs, _, w) \<Rightarrow>
          if a_rc rs \<noteq> 0 then frame_loop E recording c fr wd ht (av_do E (Packet_unref p) w)
          else case av E (Receive_frame (m_decoderContext c) fr) w of (rf, _, w) \<Rightarrow>
            if a_rc rf \<noteq> 0 then frame_loop E recording c fr wd ht (av_do E (Packet_unref p) w)
            else case convert_frame E fr p (a_w rf) (a_h rf) w of (data, w) \<Rightarrow>
              Some (data, a_w rf, a_h rf, w))"

definition getFrameData :: "'x av_env \<Rightarrow> ('x \<Rightarrow> bool) \<Rightarrow> cam \<Rightarrow> int \<Rightarrow> int \<Rightarrow> 'x av \<Rightarrow>
    (ptr \<times> int \<times> int \<times> 'x av) option" where
  "getFrameData E recording c wd ht w =
     (case av E Frame_alloc w of (_, fr, w) \<Rightarrow>
      if fr = None then Some (None, wd, ht, w) else frame_loop E recording c fr wd ht w)"

subsection \<open>The ledger of the camera\<close>

text \<open>\<open>avformat_open_input\<close> answers 0 or a negative code.\<close>

definition open_input_zero :: "'x av_env \<Rightarrow> bool" where
  "open_input_zero E \<longleftrightarrow> (\<forall>f name x. a_rc (fst (answers E (Open_input f name) x)) \<le> 0)"

text \<open>The camera owns \<open>n\<close> of its two resources, at the end of the ledger; nothing was misused.\<close>

definition cam_owned :: "nat \<Rightarrow> cam \<Rightarrow> (nat \<times> av_kind) list \<Rightarrow> bool" where
  "cam_owned n c ls \<longleftrightarrow>
     (case (m_formatContext c, m_decoderContext c) of
        (None, None) \<Rightarrow> n = 0 \<and> ls = []
      | (Some f, None) \<Rightarrow> n = 1 \<and> ls = [(f, KFormat)]
      | (Some f, Some d) \<Rightarrow> n = 2 \<and> ls = [(f, KFormat), (d, KCodec)]
      | _ \<Rightarrow> False)"

definition cam_at :: "nat \<Rightarrow> (nat \<times> av_kind) list \<Rightarrow> (ptr \<times> av_kind) list \<Rightarrow> cam \<times> 'x av \<Rightarrow> bool" where
  "cam_at n base fs s \<longleftrightarrow> (\<exists>ls. cam_owned n (fst s) ls \<and> live (snd s) = base @ ls) \<and>
     faults (snd s) = fs \<and> ordered (snd s)"

lemma cam_owned_simps:
  "cam_owned 0 c ls \<longleftrightarrow> m_formatContext c = None \<and> m_decoderContext c = None \<and> ls = []"
  "cam_owned (Suc 0) c ls \<longleftrightarrow> (\<exists>f. m_formatContext c = Some f \<and> m_decoderContext c = None \<and> ls = [(f, KFormat)])"
  "cam_owned 2 c ls \<longleftrightarrow> (\<exists>f d. m_formatContext c = Some f \<and> m_decoderContext c = Some d \<and>
     ls = [(f, KFormat), (d, KCodec)])"
  by (auto simp: cam_owned_def split: option.splits)

lemmas cam_simps = cam_at_def cam_owned_simps numeral_2_eq_2 [symmetric]

text \<open>Releasing the last handle of the ledger.\<close>

lemma av_do_drop_last:
  assumes "ordered w" and "live w = xs @ [(h, k)]" and "av_uses c = [(Some h, k)]"
    and "\<And>r. av_creates c r = None" and "\<And>r. av_releases c r = Some h"
  shows "live (av_do E c w) = xs" and "faults (av_do E c w) = faults w" and "ordered (av_do E c w)"
proof -
  have "drop_handle (Some h) (live w) = xs" using drop_owned [OF assms(1), of xs h k "[]"] assms(2) by simp
  then show "live (av_do E c w) = xs" by (simp add: av_do_live [OF assms(4,5)])
qed (use assms in \<open>simp_all add: ledger\<close>)

lemma close_camera_input_at:
  "cam_at 1 base fs s \<Longrightarrow> cam_at 0 base fs (close_camera_input E s)"
  using av_do_drop_last [of "snd s" base _ KFormat "Close_input (m_formatContext (fst s))" E]
  by (auto simp: cam_at_def cam_owned_simps close_camera_input_def split: prod.splits)

lemma free_decoder_at: "cam_at 2 base fs s \<Longrightarrow> cam_at 1 base fs (free_decoder E s)"
  using av_do_drop_last [of "snd s" "base @ [(the (m_formatContext (fst s)), KFormat)]" _ KCodec
      "Codec_free (m_decoderContext (fst s))" E]
  by (auto simp: cam_at_def cam_owned_simps free_decoder_def split: prod.splits)

lemma cam_at_call:
  assumes "cam_at n base fs (c, w)" and "av E k w = (r, p, w')"
    and "\<And>r. av_creates k r = None" and "\<And>r. av_releases k r = None"
    and "\<And>a. a \<in> set (av_uses k) \<Longrightarrow> usable (live w) a"
    and "m_formatContext c' = m_formatContext c" and "m_decoderContext c' = m_decoderContext c"
  shows "cam_at n base fs (c', w')"
  using assms(1,6,7) avD [OF assms(2)] assms(3-5)
  by (simp add: cam_at_def cam_owned_def filter_empty_conv)

lemma cam_open_input_at:
  assumes "open_input_zero E" and "cam_at 0 base fs s"
  shows "case cam_open_input E s of (go, s') \<Rightarrow> if go then cam_at 1 base fs s' else cam_at 0 base fs s'"
proof -
  obtain c w where s: "s = (c, w)" by (cases s)
  have l: "live w = base" "faults w = fs" "ordered w" "m_formatContext c = None" "m_decoderContext c = None"
    using assms(2) by (simp_all add: s cam_simps)
  obtain r0 f w1 where i1: "av E Alloc_format w = (r0, f, w1)" by (metis prod_cases3)
  obtain r g w2 where i2: "av E (Open_input f ''video=Integrated Webcam'') w1 = (r, g, w2)"
    by (metis prod_cases3)
  note D1 = avD [OF i1] and D2 = avD [OF i2]
  have neg: "a_rc r \<le> 0" using D2(7) assms(1) by (simp add: open_input_zero_def)
  have f1: "faults w1 = fs" "ordered w1" using D1 l by simp_all
  have run: "cam_open_input E s = (a_rc r = 0,
      (c\<lparr>m_formatContext := (if a_rc r < 0 then None else if f = None then g else f)\<rparr>, w2))"
    using neg by (simp add: s cam_open_input_def i1 i2)
  show ?thesis
  proof (cases f)
    case None
    then have w1: "live w1 = base" using D1(1,2) l(1) by (auto split: if_splits)
    then show ?thesis
      using D2(1-3,8) None neg l f1
      by (cases "a_rc r = 0") (auto simp: run cam_simps)
  next
    case (Some h)
    then have w1: "live w1 = base @ [(h, KFormat)]" using D1(1,2) l(1) by (auto split: if_splits)
    then have "drop_handle (Some h) (live w1) = base"
      using drop_owned [OF f1(2), of base h KFormat "[]"] by simp
    then show ?thesis
      using D2(1-3,8) Some neg l f1 w1
      by (cases "a_rc r = 0") (auto simp: run cam_simps)
  qed
qed

lemma cam_stream_info_at:
  assumes "cam_at 1 base fs s"
  shows "case cam_stream_info E s of (go, s') \<Rightarrow> if go then cam_at 1 base fs s' else cam_at 0 base fs s'"
proof -
  obtain c w where s: "s = (c, w)" by (cases s)
  obtain r q w1 where i: "av E (Find_stream_info (m_formatContext c)) w = (r, q, w1)"
    by (metis prod_cases3)
  have "usable (live w) (m_formatContext c, KFormat)" using assms by (auto simp: s cam_simps)
  then have "cam_at 1 base fs (c', w1)" if "m_formatContext c' = m_formatContext c"
    "m_decoderContext c' = m_decoderContext c" for c'
    using that by (intro cam_at_call [OF assms [unfolded s] i]) auto
  then show ?thesis
    by (auto simp: s cam_stream_info_def i intro: close_camera_input_at)
qed

lemma cam_find_decoder_at:
  assumes "cam_at 1 base fs s"
  shows "case cam_find_decoder E s of (go, s') \<Rightarrow>
     if go then cam_at 1 base fs s' \<and>
        map_option fst (find_video 0 (cam_streams (fst s'))) = Some (m_videoStreamIndex (fst s'))
     else cam_at 0 base fs s'"
proof -
  obtain c w where s: "s = (c, w)" by (cases s)
  show ?thesis
  proof (cases "find_video 0 (cam_streams c)")
    case None
    then show ?thesis
      using assms close_camera_input_at [of base fs "(c, w)" E] by (simp add: s cam_find_decoder_def)
  next
    case (Some p)
    obtain i st where p: "p = (i, st)" by (cases p)
    obtain r q w1 where iv: "av E (Find_decoder (si_codec st)) w = (r, q, w1)" by (metis prod_cases3)
    have "cam_at 1 base fs (c\<lparr>m_videoStreamIndex := i\<rparr>, w1)"
      by (rule cam_at_call [OF assms [unfolded s] iv]) simp_all
    then show ?thesis
      using Some p iv by (auto simp: s cam_find_decoder_def intro: close_camera_input_at)
  qed
qed

lemma cam_alloc_decoder_at:
  assumes "cam_at 1 base fs s"
  shows "case cam_alloc_decoder E s of (go, s') \<Rightarrow>
     if go then cam_at 2 base fs s' \<and> cam_streams (fst s') = cam_streams (fst s) \<and>
       m_videoStreamIndex (fst s') = m_videoStreamIndex (fst s)
     else cam_at 0 base fs s'"
proof -
  obtain c w where s: "s = (c, w)" by (cases s)
  obtain r d w1 where i: "av E Alloc_context3 w = (r, d, w1)" by (metis prod_cases3)
  note D = avD [OF i]
  show ?thesis
  proof (cases d)
    case None
    then have "cam_at 1 base fs (c\<lparr>m_decoderContext := None\<rparr>, w1)"
      using D assms by (auto simp: s cam_simps split: if_splits)
    then show ?thesis using None by (simp add: s cam_alloc_decoder_def i close_camera_input_at)
  next
    case (Some h)
    then show ?thesis using D assms by (auto simp: s cam_alloc_decoder_def i cam_simps split: if_splits)
  qed
qed

lemma cam_decoder_call_at:
  assumes "cam_at 2 base fs s" and "\<And>d r. av_creates (call d) r = None"
    and "\<And>d r. av_releases (call d) r = None" and "\<And>d. av_uses (call d) = [(d, KCodec)]"
  shows "case cam_decoder_call E call s of (go, s') \<Rightarrow>
     if go then cam_at 2 base fs s' \<and> fst s' = fst s else cam_at 0 base fs s'"
proof -
  obtain c w where s: "s = (c, w)" by (cases s)
  obtain r q w1 where i: "av E (call (m_decoderContext c)) w = (r, q, w1)" by (metis prod_cases3)
  have "usable (live w) (m_decoderContext c, KCodec)" using assms(1) by (auto simp: s cam_simps)
  then have "cam_at 2 base fs (c, w1)"
    using assms(4) by (intro cam_at_call [OF assms(1) [unfolded s] i assms(2,3)]) auto
  then show ?thesis
    by (auto simp: s cam_decoder_call_def i intro: close_camera_input_at free_decoder_at)
qed

lemma camera_stages_triple:
  assumes "open_input_zero E"
  shows "triple (cam_at 0 base fs) (camera_stages E)
     (\<lambda>s. cam_at 2 base fs s \<and>
        map_option fst (find_video 0 (cam_streams (fst s))) = Some (m_videoStreamIndex (fst s)))
     (cam_at 0 base fs)"
proof -
  let ?idx = "\<lambda>c. map_option fst (find_video 0 (cam_streams c)) = Some (m_videoStreamIndex c)"
  have dec: "case cam_decoder_call E call s of (go, s') \<Rightarrow>
      if go then cam_at 2 base fs s' \<and> ?idx (fst s') else cam_at 0 base fs s'"
    if "cam_at 2 base fs s \<and> ?idx (fst s)" "\<And>d r. av_creates (call d) r = None"
      "\<And>d r. av_releases (call d) r = None" "\<And>d. av_uses (call d) = [(d, KCodec)]" for call s
    using cam_decoder_call_at [OF _ that(2-4), of base fs s E] that(1) by (auto split: prod.splits)
  have al: "case cam_alloc_decoder E s of (go, s') \<Rightarrow>
      if go then cam_at 2 base fs s' \<and> ?idx (fst s') else cam_at 0 base fs s'"
    if "cam_at 1 base fs s \<and> ?idx (fst s)" for s
    using cam_alloc_decoder_at [of base fs s E] that by (auto split: prod.splits)
  show ?thesis
    unfolding camera_stages_def
    apply (rule triple_Cons [OF cam_open_input_at [OF assms]], assumption)
    apply (rule triple_Cons [OF cam_stream_info_at], assumption)
    apply (rule triple_Cons [OF cam_find_decoder_at], assumption)
    apply (rule triple_Cons [OF al], assumption)
    apply (rule triple_Cons [OF dec], assumption, simp, simp, simp)
    apply (rule triple_single [OF dec], assumption, simp, simp, simp)
    done
qed

lemma cleanupCamera_at:
  assumes "cam_at n base fs s"
  shows "cam_at 0 base fs (cleanupCamera E s)"
proof -
  have "n = 0 \<or> n = 1 \<or> n = 2" using assms by (auto simp: cam_at_def cam_owned_def split: option.splits)
  then show ?thesis
    using assms close_camera_input_at [of base fs s E] free_decoder_at [of base fs s E]
      close_camera_input_at [of base fs "free_decoder E s" E]
    by (auto simp: cleanupCamera_def Let_def cam_simps)
qed

subsection \<open>The ledger of a frame\<close>

text \<open>
  \<open>led ls fs w\<close>: the ledger of \<open>w\<close> is \<open>ls\<close>, its faults are \<open>fs\<close>.  The rules follow one call: a new
  handle goes to the end, a released one leaves its place, others change nothing.
\<close>

definition led :: "(nat \<times> av_kind) list \<Rightarrow> (ptr \<times> av_kind) list \<Rightarrow> 'x av \<Rightarrow> bool" where
  "led ls fs w \<longleftrightarrow> live w = ls \<and> faults w = fs \<and> ordered w"

lemma led_same:
  assumes "led ls fs w" and "av E k w = (r, p, w')"
    and "\<And>r. av_creates k r = None" and "\<And>r. av_releases k r = None"
    and "\<And>a. a \<in> set (av_uses k) \<Longrightarrow> usable ls a"
  shows "led ls fs w'"
  using assms(1) avD [OF assms(2)] assms(3-5) by (simp add: led_def filter_empty_conv)

lemma led_same_do:
  assumes "led ls fs w" and "\<And>r. av_creates k r = None" and "\<And>r. av_releases k r = None"
    and "\<And>a. a \<in> set (av_uses k) \<Longrightarrow> usable ls a"
  shows "led ls fs (av_do E k w)"
proof -
  obtain r p w' where i: "av E k w = (r, p, w')" by (metis prod_cases3)
  from led_same [OF assms(1) i assms(2-4)] show ?thesis by (simp add: av_do_pair [OF i])
qed

lemma led_new:
  assumes "led ls fs w" and "av E k w = (r, p, w')" and "\<And>r. av_releases k r = None"
    and "\<And>a. a \<in> set (av_uses k) \<Longrightarrow> usable ls a"
  shows "case p of None \<Rightarrow> av_creates k r = None \<and> led ls fs w'
     | Some h \<Rightarrow> (\<exists>kd. av_creates k r = Some kd \<and> led (ls @ [(h, kd)]) fs w')"
  using assms(1) avD [OF assms(2)] assms(3,4)
  by (cases "av_creates k r") (simp_all add: led_def filter_empty_conv)

lemma led_drop:
  assumes "led (xs @ (h, kd) # ys) fs w" and "\<And>r. av_creates k r = None"
    and "\<And>r. av_releases k r = Some h" and "av_uses k = [(Some h, kd)]"
  shows "led (xs @ ys) fs (av_do E k w)"
  using assms(1) drop_owned [of w xs h kd ys] assms(4)
  by (simp add: led_def av_do_live [OF assms(2,3)] ledger)

lemma convert_frame_ledger:
  assumes l: "led (base @ [(f, KFrame), (pk, KPacket)]) fs w"
    and r: "convert_frame E (Some f) (Some pk) wd ht w = (data, w')"
  shows "case data of None \<Rightarrow> led base fs w'
     | Some b \<Rightarrow> (\<exists>g. led (base @ [(g, KFrame), (b, KBuffer)]) fs w')"
proof -
  obtain r1 rgb w1 where i1: "av E Frame_alloc w = (r1, rgb, w1)" by (metis prod_cases3)
  obtain r2 q2 w2 where i2: "av E (Image_get_buffer_size wd ht) w1 = (r2, q2, w2)"
    by (metis prod_cases3)
  obtain r3 buf w3 where i3: "av E (Av_malloc (a_rc r2)) w2 = (r3, buf, w3)" by (metis prod_cases3)
  define w4 where "w4 = av_do E (Image_fill_arrays rgb buf) w3"
  obtain r5 sws w5 where i5: "av E (Sws_getContext wd ht AV_PIX_FMT_YUV420P wd ht AV_PIX_FMT_RGB24
      SWS_LANCZOS) w4 = (r5, sws, w5)" by (metis prod_cases3)
  define w6 where "w6 = av_do E (Sws_opt sws ''src_range'' 1) w5"
  define w7 where "w7 = av_do E (Sws_opt sws ''dst_range'' 1) w6"
  define w8 where "w8 = av_do E (Sws_scale sws (Some f) rgb 0 ht) w7"
  have run: "convert_frame E (Some f) (Some pk) wd ht w =
      (if rgb = None then (None, av_do E (Frame_free (Some f)) (av_do E (Packet_unref (Some pk)) w1))
       else if buf = None then (None, av_do E (Frame_free rgb) (av_do E (Frame_free (Some f))
              (av_do E (Packet_unref (Some pk)) w3)))
       else if sws = None then (None, av_do E (Av_free buf) (av_do E (Frame_free rgb)
              (av_do E (Frame_free (Some f)) (av_do E (Packet_unref (Some pk)) w5))))
       else (buf, av_do E (Frame_free (Some f)) (av_do E (Packet_unref (Some pk)) (av_do E (Sws_free sws) w8))))"
    using i5 unfolding w4_def w6_def w7_def w8_def by (simp add: convert_frame_def i1 i2 i3 Let_def)
  have rel: "led (base @ ls) fs (av_do E (Frame_free (Some f)) (av_do E (Packet_unref (Some pk)) v))"
    if "led (base @ [(f, KFrame), (pk, KPacket)] @ ls) fs v" for v ls
  proof -
    have "led (base @ (f, KFrame) # ls) fs (av_do E (Packet_unref (Some pk)) v)"
      using led_drop [of "base @ [(f, KFrame)]" pk KPacket ls fs v "Packet_unref (Some pk)" E] that
      by simp
    from led_drop [OF this] show ?thesis by simp
  qed
  show ?thesis
  proof (cases rgb)
    case None
    then have "led (base @ [(f, KFrame), (pk, KPacket)] @ []) fs w1" using led_new [OF l i1] by simp
    from rel [OF this] show ?thesis using r run None by (auto simp del: append_assoc)
  next
    case (Some g)
    then have l1: "led (base @ [(f, KFrame), (pk, KPacket)] @ [(g, KFrame)]) fs w1"
      using led_new [OF l i1] by (auto split: if_splits)
    have l2: "led (base @ [(f, KFrame), (pk, KPacket)] @ [(g, KFrame)]) fs w2"
      by (rule led_same [OF l1 i2]) simp_all
    show ?thesis
    proof (cases buf)
      case None
      then have "led (base @ [(f, KFrame), (pk, KPacket)] @ [(g, KFrame)]) fs w3"
        using led_new [OF l2 i3] by simp
      from led_drop [of base g KFrame "[]" fs _ "Frame_free rgb" E, OF _ _ _ _] rel [OF this]
      show ?thesis using r run Some None by (auto simp del: append_assoc)
    next
      case (Some b)
      then have l3: "led (base @ [(f, KFrame), (pk, KPacket)] @ [(g, KFrame), (b, KBuffer)]) fs w3"
        using led_new [OF l2 i3] by (auto split: if_splits)
      have l4: "led (base @ [(f, KFrame), (pk, KPacket)] @ [(g, KFrame), (b, KBuffer)]) fs w4"
        unfolding w4_def by (rule led_same_do [OF l3]) (simp_all add: \<open>rgb = Some g\<close>)
      show ?thesis
      proof (cases sws)
        case None
        then have "led (base @ [(f, KFrame), (pk, KPacket)] @ [(g, KFrame), (b, KBuffer)]) fs w5"
          using led_new [OF l4 i5] by simp
        from rel [OF this] led_drop [of base g KFrame "[(b, KBuffer)]" fs _ "Frame_free rgb" E]
          led_drop [of base b KBuffer "[]" fs _ "Av_free buf" E]
        show ?thesis using r run \<open>rgb = Some g\<close> \<open>buf = Some b\<close> None by auto
      next
        case (Some c)
        let ?ls = "base @ [(f, KFrame), (pk, KPacket)] @ [(g, KFrame), (b, KBuffer)]"
        have "led (?ls @ [(c, KSws)]) fs w5"
          using led_new [OF l4 i5] Some by (auto split: if_splits)
        then have "led (?ls @ [(c, KSws)]) fs w6"
          unfolding w6_def by (rule led_same_do) (simp_all add: Some)
        then have "led (?ls @ [(c, KSws)]) fs w7"
          unfolding w7_def by (rule led_same_do) (simp_all add: Some)
        then have "led (?ls @ [(c, KSws)]) fs w8"
          unfolding w8_def by (rule led_same_do) (auto simp: Some \<open>rgb = Some g\<close>)
        then have "led (?ls @ []) fs (av_do E (Sws_free sws) w8)"
          by (intro led_drop) (simp_all add: Some)
        then have "led (base @ [(f, KFrame), (pk, KPacket)] @ [(g, KFrame), (b, KBuffer)]) fs
            (av_do E (Sws_free sws) w8)" by simp
        from rel [OF this] show ?thesis
          using r run \<open>rgb = Some g\<close> \<open>buf = Some b\<close> Some by auto
      qed
    qed
  qed
qed

text \<open>Every turn of the loop that goes on has released its packet.\<close>

lemma frame_loop_ledger:
  assumes ret: "frame_loop E recording c (Some f) wd ht w = Some res"
    and c: "m_formatContext c = Some fc" "m_decoderContext c = Some dc"
    and own: "(fc, KFormat) \<in> set base" "(dc, KCodec) \<in> set base"
    and l: "led (base @ [(f, KFrame)]) fs w"
  shows "case res of (data, _, _, w') \<Rightarrow> (case data of None \<Rightarrow> led base fs w'
     | Some b \<Rightarrow> (\<exists>g. led (base @ [(g, KFrame), (b, KBuffer)]) fs w'))"
proof -
  have "led (base @ [(f, KFrame)]) fs w \<longrightarrow> c' = c \<longrightarrow> fr' = Some f \<longrightarrow>
      (case res of (data, _, _, w') \<Rightarrow> (case data of None \<Rightarrow> led base fs w'
     | Some b \<Rightarrow> (\<exists>g. led (base @ [(g, KFrame), (b, KBuffer)]) fs w')))"
    if ret: "frame_loop E recording c' fr' wd ht w = Some res" for c' fr'
  proof (rule frame_loop.raw_induct [where P = "\<lambda>E recording c' fr' wd ht w res.
      led (base @ [(f, KFrame)]) fs w \<longrightarrow> c' = c \<longrightarrow> fr' = Some f \<longrightarrow>
      (case res of (data, _, _, w') \<Rightarrow> (case data of None \<Rightarrow> led base fs w'
     | Some b \<Rightarrow> (\<exists>g. led (base @ [(g, KFrame), (b, KBuffer)]) fs w')))", OF _ ret], intro impI)
    fix loop E recording c' fr' wd ht w and res :: "ptr \<times> int \<times> int \<times> 'a av"
    assume IH: "\<And>E recording c' fr' wd ht w res. loop E recording c' fr' wd ht w = Some res \<Longrightarrow>
        led (base @ [(f, KFrame)]) fs w \<longrightarrow> c' = c \<longrightarrow> fr' = Some f \<longrightarrow>
        (case res of (data, _, _, w') \<Rightarrow> (case data of None \<Rightarrow> led base fs w'
          | Some b \<Rightarrow> (\<exists>g. led (base @ [(g, KFrame), (b, KBuffer)]) fs w')))"
      and eq: "(if \<not> recording (ext w) then Some (None, wd, ht, av_do E (Frame_free fr') w)
      else case av E (Read_frame (m_formatContext c')) w of (r, p, w) \<Rightarrow>
        if a_rc r < 0 then loop E recording c' fr' wd ht w
        else if stream_index (a_pkt r) \<noteq> m_videoStreamIndex c'
        then loop E recording c' fr' wd ht (av_do E (Packet_unref p) w)
        else case av E (Send_packet (m_decoderContext c') ((a_pkt r)\<lparr>pk_buf := p\<rparr>)) w of (rs, _, w) \<Rightarrow>
          if a_rc rs \<noteq> 0 then loop E recording c' fr' wd ht (av_do E (Packet_unref p) w)
          else case av E (Receive_frame (m_decoderContext c') fr') w of (rf, _, w) \<Rightarrow>
            if a_rc rf \<noteq> 0 then loop E recording c' fr' wd ht (av_do E (Packet_unref p) w)
            else case convert_frame E fr' p (a_w rf) (a_h rf) w of (data, w) \<Rightarrow>
              Some (data, a_w rf, a_h rf, w)) = Some res"
      and l: "led (base @ [(f, KFrame)]) fs w" and cc: "c' = c" and fr: "fr' = Some f"
    note IH' = IH [rule_format, OF _ _ refl refl, of E recording]
    obtain r p w1 where i1: "av E (Read_frame (m_formatContext c)) w = (r, p, w1)"
      by (metis prod_cases3)
    obtain rs ps w2 where i2: "av E (Send_packet (m_decoderContext c) ((a_pkt r)\<lparr>pk_buf := p\<rparr>)) w1
        = (rs, ps, w2)" by (metis prod_cases3)
    obtain rf pf w3 where i3: "av E (Receive_frame (m_decoderContext c) (Some f)) w2 = (rf, pf, w3)"
      by (metis prod_cases3)
    obtain data w4 where i4: "convert_frame E (Some f) p (a_w rf) (a_h rf) w3 = (data, w4)"
      by (cases "convert_frame E (Some f) p (a_w rf) (a_h rf) w3")
    note run = eq [unfolded cc fr i1 prod.case i2 i3 i4]
    note new = led_new [OF l i1]
    show "case res of (data, _, _, w') \<Rightarrow> (case data of None \<Rightarrow> led base fs w'
     | Some b \<Rightarrow> (\<exists>g. led (base @ [(g, KFrame), (b, KBuffer)]) fs w'))"
    proof (cases "recording (ext w)")
      case False
      have "led base fs (av_do E (Frame_free (Some f)) w)"
        using led_drop [of base f KFrame "[]" fs w "Frame_free (Some f)" E] l by simp
      then show ?thesis using run False by auto
    next
      case True
      note rec = this
      show ?thesis
      proof (cases p)
        case None
        then have "a_rc r < 0" "led (base @ [(f, KFrame)]) fs w1"
          using new c own by (auto split: if_splits)
        then show ?thesis using run rec IH' by simp
      next
        case (Some pk)
        then have rc: "\<not> a_rc r < 0" and l1: "led (base @ [(f, KFrame), (pk, KPacket)]) fs w1"
          using new c own by (auto split: if_splits)
        have l2: "led (base @ [(f, KFrame), (pk, KPacket)]) fs w2"
          by (rule led_same [OF l1 i2]) (use c own in auto)
        have l3: "led (base @ [(f, KFrame), (pk, KPacket)]) fs w3"
          by (rule led_same [OF l2 i3]) (use c own in auto)
        have un: "led (base @ [(f, KFrame)]) fs (av_do E (Packet_unref p) v)"
          if "led (base @ [(f, KFrame), (pk, KPacket)]) fs v" for v
          using led_drop [of "base @ [(f, KFrame)]" pk KPacket "[]" fs v "Packet_unref p" E] that Some
          by simp
        note C = convert_frame_ledger [OF l3 i4 [unfolded Some]]
        show ?thesis
          using run rec rc IH' [OF _ un [OF l1]] IH' [OF _ un [OF l2]] IH' [OF _ un [OF l3]] C
          by (auto split: if_splits)
      qed
    qed
  qed
  with ret l show ?thesis by blast
qed

lemma getFrameData_ledger:
  assumes "getFrameData E recording c wd ht w = Some (data, wd', ht', w')"
    and "m_formatContext c = Some fc" "m_decoderContext c = Some dc"
    and "(fc, KFormat) \<in> set base" "(dc, KCodec) \<in> set base" and l: "led base fs w"
  shows "case data of None \<Rightarrow> led base fs w' | Some b \<Rightarrow> (\<exists>g. led (base @ [(g, KFrame), (b, KBuffer)]) fs w')"
proof -
  obtain r fr w1 where i: "av E Frame_alloc w = (r, fr, w1)" by (metis prod_cases3)
  note new = led_new [OF l i]
  show ?thesis
  proof (cases fr)
    case None
    then show ?thesis using assms(1) new by (auto simp: getFrameData_def i)
  next
    case (Some f)
    then have "led (base @ [(f, KFrame)]) fs w1" using new by (auto split: if_splits)
    with frame_loop_ledger [OF _ assms(2-5) this, of E recording wd ht] assms(1) Some
    show ?thesis by (auto simp: getFrameData_def i)
  qed
qed

subsection \<open>Properties of the camera\<close>


lemma counting_open_input: "open_input_zero (counting_env bad)"
  by (simp add: open_input_zero_def)


text \<open>
  C35.  \<open>getFrameData\<close> on an open camera.  When it returns a picture, what it adds to the live resources
  is the buffer it returns and one more frame, the \<open>AVFrame\<close> that wrapped the buffer, which nobody
  can release any more: every captured picture leaks one.  When it returns null it has released
  everything, whichever step failed.
\<close>

theorem getFrameData_leaks_a_frame:
  assumes "getFrameData E recording c wd ht w = Some (data, wd', ht', w')"
    and "m_formatContext c = Some fc" and "m_decoderContext c = Some dc"
    and "(fc, KFormat) \<in> set (live w)" and "(dc, KCodec) \<in> set (live w)" and "ordered w"
  shows "faults w' = faults w \<and>
     (case data of None \<Rightarrow> live w' = live w
      | Some b \<Rightarrow> (\<exists>g. live w' = live w @ [(g, KFrame), (b, KBuffer)]))"
proof -
  have "led (live w) (faults w) w" using assms(6) by (simp add: led_def)
  from getFrameData_ledger [OF assms(1-5) this] show ?thesis
    by (auto simp: led_def split: option.splits)
qed

lemma example_frame:
  "\<exists>w. getFrameData (counting_env (\<lambda>_. False)) (\<lambda>_. True)
       \<lparr>m_formatContext = Some 0, m_decoderContext = Some 1, m_videoStreamIndex = 0, cam_streams = []\<rparr>
       1280 720 \<lparr>ext = 0, fresh = 2, live = [(0, KFormat), (1, KCodec)], faults = [], calls = []\<rparr>
     = Some (Some 5, 0, 0, w)"
  by (simp add: getFrameData_def frame_loop.simps convert_frame_def av_do_def av_def invoke_def
      avlib_def zero_packet_def)

theorem getFrameData_leaks_a_frame_witness:
  "\<exists>w g. getFrameData (counting_env (\<lambda>_. False)) (\<lambda>_. True)
       \<lparr>m_formatContext = Some 0, m_decoderContext = Some 1, m_videoStreamIndex = 0, cam_streams = []\<rparr>
       1280 720 \<lparr>ext = 0, fresh = 2, live = [(0, KFormat), (1, KCodec)], faults = [], calls = []\<rparr>
     = Some (Some 5, 0, 0, w) \<and> live w = [(0, KFormat), (1, KCodec), (g, KFrame), (5, KBuffer)]"
proof -
  obtain w where w: "getFrameData (counting_env (\<lambda>_. False)) (\<lambda>_. True)
       \<lparr>m_formatContext = Some 0, m_decoderContext = Some 1, m_videoStreamIndex = 0, cam_streams = []\<rparr>
       1280 720 \<lparr>ext = 0, fresh = 2, live = [(0, KFormat), (1, KCodec)], faults = [], calls = []\<rparr>
     = Some (Some 5, 0, 0, w)" using example_frame by blast
  from getFrameData_leaks_a_frame [OF w, of 0 1] w show ?thesis by (auto simp: ordered_def)
qed

end
