(* ===== verification/FileEncoder.thy ===== *)
theory FileEncoder
  imports EncoderContext
begin

text \<open>
  \<open>FFmpegEncoder\<close> (src/CFFmpegEncoder.cpp, inc/CFFmpegEncoder.hpp), the encoder that writes a file.
  \<open>Open\<close> is a staged block with one definition per stage; \<open>FlushPackets\<close> loops until the codec has
  no packet, so it and everything that calls it is of option type, \<open>None\<close> meaning that the codec
  never stops handing out packets.
\<close>

subsection \<open>FlushPackets and Write\<close>

partial_function (option) flush_packets :: "'x av_env \<Rightarrow> enc \<Rightarrow> 'x av \<Rightarrow> (bool \<times> 'x av) option" where
  "flush_packets E e w =
     (case av E (Receive_packet (codec_context e)) w of (r, p, w1) \<Rightarrow>
        if a_rc r = AVERROR EAGAIN \<or> a_rc r = AVERROR_EOF then Some (True, w1)
        else if a_rc r < 0 then Some (False, w1)
        else
          let pk = (packet_rescale_ts E ((a_pkt r)\<lparr>pk_buf := p\<rparr>) (time_base (cc e)) (stream_tb e))
                     \<lparr>stream_index := stream_idx e\<rparr>
          in case av E (Interleaved_write_frame (format_context e) pk) w1 of (r2, _, w2) \<Rightarrow>
               let w3 = av_do E (Packet_unref None) w2
               in if a_rc r2 < 0 then Some (False, w3) else flush_packets E e w3)"

definition write_frame :: "'x av_env \<Rightarrow> ptr \<Rightarrow> enc \<times> 'x av \<Rightarrow> (bool \<times> enc \<times> 'x av) option" where
  "write_frame E data = (\<lambda>(e, w).
     if \<not> is_open e then Some (False, e, w)
     else case av E (Frame_make_writable (frame e)) w of (r, _, w) \<Rightarrow>
       if a_rc r < 0 then Some (False, e, w)
       else
         let w = av_do E (Sws_scale (sws_context e) data (frame e) (width (cc e) * 3) (height (cc e))) w;
             e = e\<lparr>frame_pts := frame_index e, frame_index := (frame_index e + 1) mod 2 ^ 32\<rparr>
         in case av E (Send_frame (codec_context e) (Some (frame e, frame_pts e))) w of (r, _, w) \<Rightarrow>
              if a_rc r < 0 then Some (False, e, w)
              else map_option (\<lambda>(ok, w). (ok, e, w)) (flush_packets E e w))"

subsection \<open>Close\<close>

definition free_all :: "'x av_env \<Rightarrow> enc \<times> 'x av \<Rightarrow> enc \<times> 'x av" where
  "free_all E = (\<lambda>(e, w).
     let w = (if sws_context e \<noteq> None then av_do E (Sws_free (sws_context e)) w else w);
         w = (if frame e \<noteq> None then av_do E (Frame_free (frame e)) w else w);
         w = (if codec_context e \<noteq> None then av_do E (Codec_free (codec_context e)) w else w);
         codec_context = (None :: ptr);
         w = (if codec_context \<noteq> None then av_do E (Codec_close codec_context) w else w);
         w = (if format_context e \<noteq> None then av_do E (Format_free (format_context e)) w else w)
     in (empty_enc, w))"

definition close_enc :: "'x av_env \<Rightarrow> enc \<times> 'x av \<Rightarrow> (enc \<times> 'x av) option" where
  "close_enc E = (\<lambda>(e, w).
     if is_open e
     then (case flush_packets E e (av_do E (Send_frame (codec_context e) None) w) of
             None \<Rightarrow> None
           | Some (_, w) \<Rightarrow>
               let w = av_do E (Write_trailer (format_context e)) w;
                   w = av_do E (Avio_close (io e)) w
               in Some (free_all E (e, w)))
     else Some (free_all E (e, w)))"

subsection \<open>Open\<close>

definition st_format :: "'x av_env \<Rightarrow> string option \<Rightarrow> (enc \<times> 'x av) stage" where
  "st_format E filename = alloc_stage E (Alloc_output_context2 None filename)
     (\<lambda>r p e. (p \<noteq> None, e\<lparr>format_context := p, fmt_video_codec := a_w r,
                 fmt_global_header := a_flag r\<rparr>))"

definition st_avio :: "'x av_env \<Rightarrow> string option \<Rightarrow> (enc \<times> 'x av) stage" where
  "st_avio E filename = (\<lambda>(e, w). alloc_stage E (Avio_open (format_context e) filename)
     (\<lambda>r p e. (a_rc r = 0, e\<lparr>io := p\<rparr>)) (e, w))"

definition st_header :: "'x av_env \<Rightarrow> (enc \<times> 'x av) stage" where
  "st_header E = (\<lambda>(e, w). case av E (Write_header (format_context e) None) w of (r, _, w) \<Rightarrow>
     if a_rc r < 0 then (False, (e, av_do E (Avio_close (io e)) w)) else (True, (e, w)))"

definition open_stages :: "'x av_env \<Rightarrow> string option \<Rightarrow> params \<Rightarrow> (enc \<times> 'x av) stage list" where
  "open_stages E filename p =
     st_format E filename # shared_stages E (Some True) p @ [st_avio E filename, st_header E]"

definition open_enc :: "'x av_env \<Rightarrow> string option \<Rightarrow> params \<Rightarrow> enc \<times> 'x av \<Rightarrow>
    (bool \<times> enc \<times> 'x av) option" where
  "open_enc E filename p s =
     (case close_enc E s of None \<Rightarrow> None
      | Some s \<Rightarrow>
          (case run_stages (open_stages E filename p) s of
             (True, (e, w)) \<Rightarrow> Some (True, e\<lparr>frame_index := 0, is_open := True\<rparr>, w)
           | (False, s) \<Rightarrow> map_option (\<lambda>s. (False, s)) (close_enc E s)))"

text \<open>The operations as a client calls them; the constructor is \<open>Open\<close>, the destructor \<open>Close\<close>.\<close>

datatype enc_op = Open_op "string option" params | Write_op ptr | Close_op

fun enc_do :: "'x av_env \<Rightarrow> enc_op \<Rightarrow> enc \<times> 'x av \<Rightarrow> (enc \<times> 'x av) option" where
  "enc_do E (Open_op filename p) s = map_option snd (open_enc E filename p s)"
| "enc_do E (Write_op data) s = map_option snd (write_frame E data s)"
| "enc_do E Close_op s = close_enc E s"

subsection \<open>The muxer's protocol\<close>

text \<open>
  A muxer gets one header, then frames, then one trailer.  \<open>mux\<close> reads a list of calls and
  answers \<open>Some True\<close> when the muxer is between header and trailer, \<open>Some False\<close> when it is
  not, and \<open>None\<close> when the protocol was broken.
\<close>

definition mux_step :: "bool \<Rightarrow> av_call \<Rightarrow> bool option" where
  "mux_step b c = (case c of
       Write_header f o' \<Rightarrow> (if b then None else Some True)
     | Interleaved_write_frame f p \<Rightarrow> (if b then Some True else None)
     | Write_trailer f \<Rightarrow> (if b then Some False else None)
     | Format_free f \<Rightarrow> Some False
     | _ \<Rightarrow> Some b)"

fun mux_from :: "bool \<Rightarrow> av_call list \<Rightarrow> bool option" where
  "mux_from b [] = Some b"
| "mux_from b (c # cs) = (case mux_step b c of None \<Rightarrow> None | Some b' \<Rightarrow> mux_from b' cs)"

definition mux :: "av_call list \<Rightarrow> bool option" where
  "mux cs = mux_from False cs"

definition mux_is :: "bool \<Rightarrow> av_call list \<Rightarrow> bool" where
  "mux_is b cs \<longleftrightarrow> mux cs = Some b"

text \<open>After a stage of \<open>Open\<close> failed: a header may have been tried, and then there is a muxer.\<close>

definition mux_part :: "ptr \<Rightarrow> av_call list \<Rightarrow> bool" where
  "mux_part p cs \<longleftrightarrow> mux_is False cs \<or> mux_is True cs \<and> p \<noteq> None"

lemma mux_from_append:
  "mux_from b (cs @ ds) = (case mux_from b cs of None \<Rightarrow> None | Some b' \<Rightarrow> mux_from b' ds)"
  by (induction b cs rule: mux_from.induct) (auto split: option.splits)

lemma mux_is_append: "mux_is b cs \<Longrightarrow> mux_is b' (cs @ ds) \<longleftrightarrow> mux_from b ds = Some b'"
  by (simp add: mux_is_def mux_def mux_from_append)

lemma fits_mux [simp]: "fits (mux_is False) mux_part"
  by (simp add: fits_def mux_part_def)

lemma neutral_mux: "mux_step b c = Some b \<Longrightarrow> neutral (mux_is b) c"
  by (simp add: neutral_def mux_is_append)

lemma neutral_mux_calls [simp]:
  "neutral (mux_is b) (Find_encoder i)" "neutral (mux_is b) (New_stream f)"
  "neutral (mux_is b) (D2q x i)" "neutral (mux_is b) (Opt_set c k v)"
  "neutral (mux_is b) (Opt_set_int c k i)" "neutral (mux_is b) (Open_codec c a)"
  "neutral (mux_is b) (Frame_get_buffer fr i)" "neutral (mux_is b) (Parameters_from_context f c a)"
  "neutral (mux_is b) (Dump_format f)" "neutral (mux_is b) (Receive_packet c)"
  "neutral (mux_is b) (Packet_unref p)" "neutral (mux_is b) (Send_frame c q)"
  "neutral (mux_is b) (Avio_close p)" "neutral (mux_is b) (Sws_free p)"
  "neutral (mux_is b) (Frame_free p)" "neutral (mux_is b) (Codec_free p)"
  "neutral (mux_is b) (Frame_make_writable fr)" "neutral (mux_is b) (Sws_scale s d fr i j)"
  "neutral (mux_is b) (Alloc_output_context2 n1 n2)" "neutral (mux_is b) Alloc_context3"
  "neutral (mux_is b) Frame_alloc" "neutral (mux_is b) (Sws_getContext i1 i2 i3 i4 i5 i6 i7)"
  "neutral (mux_is b) (Avio_open f name)"
  "neutral (mux_is True) (Interleaved_write_frame f pk)"
  by (simp_all add: neutral_mux mux_step_def)

subsection \<open>Ownership\<close>

lemma holds_quiet:
  assumes "holds J base fs (e, w)" and "av E c w = (r, p, w')" and "quiet c" and "neutral J c"
    and "\<And>a. a \<in> set (av_uses c) \<Longrightarrow> usable (owned e) a"
  shows "holds J base fs (e, w')"
  using assms(1,4,5) av_quiet [OF assms(2,3)] by (simp add: holds_def neutral_def)

lemma holds_same: "holds J base fs (e, w) \<Longrightarrow> owned e' = owned e \<Longrightarrow> holds J base fs (e', w)"
  by (simp add: holds_def)

lemma holds_quiet_do:
  assumes "holds J base fs (e, w)" and "quiet c" and "neutral J c"
    and "\<And>a. a \<in> set (av_uses c) \<Longrightarrow> usable (owned e) a"
  shows "holds J base fs (e, av_do E c w)"
proof -
  obtain r p w' where i: "av E c w = (r, p, w')" by (metis prod_cases3)
  from holds_quiet [OF assms(1) i assms(2-4)] show ?thesis by (simp add: av_do_pair [OF i])
qed

definition free_calls :: "enc \<Rightarrow> av_call list" where
  "free_calls e =
     (if sws_context e = None then [] else [Sws_free (sws_context e)]) @
     (if frame e = None then [] else [Frame_free (frame e)]) @
     (if codec_context e = None then [] else [Codec_free (codec_context e)]) @
     (if format_context e = None then [] else [Format_free (format_context e)])"

lemma free_all_ledger:
  fixes w :: "'x av"
  assumes l: "live w = base @ owned (e\<lparr>io := None\<rparr>)" "ordered w"
  shows "\<exists>w'. free_all E (e, w) = (empty_enc, w') \<and> live w' = base \<and> faults w' = faults w \<and>
     ordered w' \<and> calls w' = calls w @ free_calls e"
proof -
  have l0: "live w = (base @ opt KFormat (format_context e) @ opt KCodec (codec_context e) @
      opt KFrame (frame e)) @ opt KSws (sws_context e) @ []"
    using l by (simp add: owned_def)
  define w1 where "w1 = (if sws_context e \<noteq> None then av_do E (Sws_free (sws_context e)) w else w)"
  note W1 = release_if [OF l(2) l0, of "Sws_free (sws_context e)" E, folded w1_def, simplified]
  define w2 where "w2 = (if frame e \<noteq> None then av_do E (Frame_free (frame e)) w1 else w1)"
  have l1: "live w1 = (base @ opt KFormat (format_context e) @ opt KCodec (codec_context e)) @
      opt KFrame (frame e) @ []" using W1(1) by simp
  note W2 = release_if [OF W1(3) l1, of "Frame_free (frame e)" E, folded w2_def, simplified]
  define w3 where
    "w3 = (if codec_context e \<noteq> None then av_do E (Codec_free (codec_context e)) w2 else w2)"
  have l2: "live w2 = (base @ opt KFormat (format_context e)) @ opt KCodec (codec_context e) @ []"
    using W2(1) by simp
  note W3 = release_if [OF W2(3) l2, of "Codec_free (codec_context e)" E, folded w3_def, simplified]
  define w4 where
    "w4 = (if format_context e \<noteq> None then av_do E (Format_free (format_context e)) w3 else w3)"
  have l3: "live w3 = base @ opt KFormat (format_context e) @ []" using W3(1) by simp
  note W4 = release_if [OF W3(3) l3, of "Format_free (format_context e)" E, folded w4_def, simplified]
  have "free_all E (e, w) = (empty_enc, w4)"
    by (simp add: free_all_def Let_def w1_def w2_def w3_def w4_def)
  moreover have "faults w4 = faults w" using W1(2) W2(2) W3(2) W4(2) by simp
  moreover have "calls w4 = calls w @ free_calls e"
    using W1(4) W2(4) W3(4) W4(4) by (simp add: free_calls_def)
  ultimately show ?thesis using W4(1,3) by auto
qed

lemma free_all_broken:
  fixes w :: "'x av"
  assumes "broken mux_part base fs (e, w)"
  shows "\<exists>w'. free_all E (e, w) = (empty_enc, w') \<and> holds (mux_is False) base fs (empty_enc, w')"
proof -
  have l: "live w = base @ owned (e\<lparr>io := None\<rparr>)" "ordered w" "faults w = fs"
    and m: "mux_part (format_context e) (calls w)"
    using assms by (simp_all add: broken_def holds_def)
  obtain w' where w': "free_all E (e, w) = (empty_enc, w')" "live w' = base" "faults w' = fs"
    "ordered w'" "calls w' = calls w @ free_calls e"
    using free_all_ledger [OF l(1,2), of E] l(3) by metis
  have "mux_is False (calls w')"
    using m unfolding w'(5) mux_part_def free_calls_def
    by (auto simp: mux_is_append mux_step_def split: if_splits)
  with w' show ?thesis by (auto simp: holds_def)
qed

text \<open>
  One turn of the flush loop: the packet that was received is given to the muxer, whatever comes
  of it, so the object holds what it held.
\<close>

lemma flush_turn:
  assumes h: "holds (mux_is True) base fs (e, w)" and n: "reached 5 e"
    and i: "av E (Receive_packet (codec_context e)) w = (r, p, w1)" and ok: "\<not> a_rc r < 0"
    and i2: "av E (Interleaved_write_frame (format_context e) pk) w1 = (r2, q, w2)"
    and pk: "pk_buf pk = p"
  shows "holds (mux_is True) base fs (e, av_do E (Packet_unref None) w2)"
proof -
  have l: "live w = base @ owned e" "faults w = fs" "ordered w" "mux_is True (calls w)"
    using h by (simp_all add: holds_def)
  have u: "usable (live w) (codec_context e, KCodec)" "usable (live w) (format_context e, KFormat)"
    using usable_owned(1,2) [OF n] l(1) by simp_all
  note D = avD [OF i] and D2 = avD [OF i2]
  have w1: "live w1 = live w @ [(fresh w, KPacket)]" "faults w1 = fs" "ordered w1" "p = Some (fresh w)"
    using D ok u l by simp_all
  have "drop_handle (Some (fresh w)) (live w1) = live w"
    using drop_owned [OF w1(3), of "live w" "fresh w" KPacket "[]"] w1(1) by simp
  then have w2: "live w2 = live w" "faults w2 = fs" "ordered w2"
    using D2(1,3,8) pk w1 u(2) by simp_all
  have "mux_is True (calls w2)"
    using D(5) D2(5) l(4) by (simp add: mux_is_append mux_step_def)
  then show ?thesis
    using w2 l(1) by (simp add: holds_def ledger neutralD)
qed

lemma flush_packets_holds:
  assumes ret: "flush_packets E e w = Some (ok, w')" and "holds (mux_is True) base fs (e, w)"
    and "reached 5 e"
  shows "holds (mux_is True) base fs (e, w')"
proof -
  have "holds (mux_is True) base fs (e, w) \<longrightarrow> reached 5 e \<longrightarrow>
      holds (mux_is True) base fs (e, snd (ok, w'))"
  proof (rule flush_packets.raw_induct [where P = "\<lambda>E e w res.
        holds (mux_is True) base fs (e, w) \<longrightarrow> reached 5 e \<longrightarrow>
        holds (mux_is True) base fs (e, snd res)", OF _ ret], intro impI)
    fix f :: "'a av_env \<Rightarrow> enc \<Rightarrow> 'a av \<Rightarrow> (bool \<times> 'a av) option" and E e w res
    assume IH: "\<And>E e w res. f E e w = Some res \<Longrightarrow> holds (mux_is True) base fs (e, w) \<longrightarrow>
        reached 5 e \<longrightarrow> holds (mux_is True) base fs (e, snd res)"
      and eq: "(case av E (Receive_packet (codec_context e)) w of (r, p, w1) \<Rightarrow>
        if a_rc r = AVERROR EAGAIN \<or> a_rc r = AVERROR_EOF then Some (True, w1)
        else if a_rc r < 0 then Some (False, w1)
        else
          let pk = (packet_rescale_ts E ((a_pkt r)\<lparr>pk_buf := p\<rparr>) (time_base (cc e)) (stream_tb e))
                     \<lparr>stream_index := stream_idx e\<rparr>
          in case av E (Interleaved_write_frame (format_context e) pk) w1 of (r2, _, w2) \<Rightarrow>
               let w3 = av_do E (Packet_unref None) w2
               in if a_rc r2 < 0 then Some (False, w3) else f E e w3) = Some res"
      and h: "holds (mux_is True) base fs (e, w)" and n: "reached 5 e"
    obtain r p w1 where i: "av E (Receive_packet (codec_context e)) w = (r, p, w1)"
      by (metis prod_cases3)
    note D = avD [OF i]
    show "holds (mux_is True) base fs (e, snd res)"
    proof (cases "a_rc r < 0")
      case True
      then have "holds (mux_is True) base fs (e, w1)"
        using D h usable_owned(2) [OF n] by (simp add: holds_def neutralD)
      moreover have "snd res = w1" using eq i True by (auto split: if_splits)
      ultimately show ?thesis by simp
    next
      case False
      define pk where "pk = (packet_rescale_ts E ((a_pkt r)\<lparr>pk_buf := p\<rparr>) (time_base (cc e))
          (stream_tb e))\<lparr>stream_index := stream_idx e\<rparr>"
      obtain r2 q w2 where i2: "av E (Interleaved_write_frame (format_context e) pk) w1 = (r2, q, w2)"
        by (metis prod_cases3)
      define w3 where "w3 = av_do E (Packet_unref None) w2"
      have w3: "holds (mux_is True) base fs (e, w3)"
        unfolding w3_def by (rule flush_turn [OF h n i False i2]) (simp add: pk_def)
      have "a_rc r \<noteq> AVERROR EAGAIN" "a_rc r \<noteq> AVERROR_EOF"
        using False by (auto simp: AVERROR_def EAGAIN_def AVERROR_EOF_def FFERRTAG_def MKTAG_def)
      then have "(if a_rc r2 < 0 then Some (False, w3) else f E e w3) = Some res"
        unfolding w3_def using eq False by (simp add: i i2 pk_def [symmetric] Let_def)
      then show ?thesis
        using w3 IH [of E e w3 res] n by (auto split: if_splits)
    qed
  qed
  with assms show ?thesis by simp
qed

lemma flush_packets_returns:
  assumes "codec_finite E m"
  shows "\<exists>ok w'. flush_packets E e w = Some (ok, w')"
proof (induction "m (ext w)" arbitrary: w rule: less_induct)
  case less
  obtain r p w1 where i: "av E (Receive_packet (codec_context e)) w = (r, p, w1)"
    by (metis prod_cases3)
  define pk where "pk = (packet_rescale_ts E ((a_pkt r)\<lparr>pk_buf := p\<rparr>) (time_base (cc e))
      (stream_tb e))\<lparr>stream_index := stream_idx e\<rparr>"
  obtain r2 q w2 where i2: "av E (Interleaved_write_frame (format_context e) pk) w1 = (r2, q, w2)"
    by (metis prod_cases3)
  obtain r3 q3 w3 where i3: "av E (Packet_unref None) w2 = (r3, q3, w3)" by (metis prod_cases3)
  note F = codec_finiteD [OF assms]
  show ?case
  proof (cases "a_rc r < 0")
    case True
    then show ?thesis by (subst flush_packets.simps) (auto simp: i)
  next
    case False
    then have "m (ext w1) < m (ext w)" using F(2) [OF i refl] by simp
    moreover have "m (ext w2) \<le> m (ext w1)" "m (ext w3) \<le> m (ext w2)"
      using F(1) [OF i2] F(1) [OF i3] by (simp_all add: is_send_def)
    ultimately have "\<exists>ok w'. flush_packets E e w3 = Some (ok, w')" by (intro less) simp
    then show ?thesis
      by (subst flush_packets.simps) (auto simp: i i2 av_do_pair [OF i3] pk_def [symmetric])
  qed
qed

subsection \<open>The stages of Open\<close>

text \<open>
  \<open>avio_open\<close> is documented to answer \<open>>= 0\<close> on success and \<open>Open\<close> tests for 0; a positive answer
  would leave the file open.  The hypothesis says that the library answers 0 on success.
\<close>

definition avio_open_zero :: "'x av_env \<Rightarrow> bool" where
  "avio_open_zero E \<longleftrightarrow> (\<forall>f name x. a_rc (fst (answers E (Avio_open f name) x)) \<le> 0)"

abbreviation staged :: "(nat \<times> av_kind) list \<Rightarrow> (ptr \<times> av_kind) list \<Rightarrow> nat \<Rightarrow> enc \<times> 'x av \<Rightarrow> bool"
  where "staged \<equiv> at_stage (mux_is False)"

lemma open_neutral_mux [simp]: "open_neutral (mux_is b)"
  unfolding open_neutral_def open_call_def
  by (auto simp: neutral_mux mux_step_def split: av_call.splits)

lemma st_format_ok: "stage_ok (mux_is False) base fs 0 (st_format E filename) 1"
  unfolding stage_ok_def st_format_def
  by (intro allI impI, rule alloc_stage_next) (auto simp: stage_simps split: if_splits)

lemma st_avio_ok:
  assumes "avio_open_zero E"
  shows "stage_ok (mux_is False) base fs 4 (st_avio E filename) 5"
  unfolding stage_ok_def
proof (intro allI impI)
  fix s :: "enc \<times> 'a av"
  assume at: "staged base fs 4 s"
  obtain e w where s: "s = (e, w)" by (cases s)
  have st: "reached 4 e" "\<not> is_open e" using at by (simp_all add: at_stage_def s)
  have le: "a_rc (fst (answers E (Avio_open f name) x)) \<le> 0" for f name x
    using assms by (simp add: avio_open_zero_def)
  show "case st_avio E filename s of (go, s') \<Rightarrow> if go then staged base fs 5 s' else staged base fs 4 s'"
    unfolding st_avio_def s prod.case
    by (rule alloc_stage_next [OF at [unfolded s]])
      (use st le [of "format_context e" filename "ext w"] usable_owned(1) [OF st(1)] in
        \<open>auto simp: same_ptrs_def owned_def reached_def split: if_splits\<close>)
qed

lemma within_broken: "within (mux_is False) base fs 4 s \<Longrightarrow> broken mux_part base fs s"
  unfolding within_def using at_stage_broken fits_mux by blast

lemma stage_triple:
  assumes ok: "stage_ok (mux_is False) base fs n f m" and "n \<le> 4"
    and tl: "triple (staged base fs m) gs Q (broken mux_part base fs)"
  shows "triple (staged base fs n) (f # gs) Q (broken mux_part base fs)"
proof (rule triple_Cons [OF _ tl])
  fix s :: "enc \<times> 'a av"
  assume "staged base fs n s"
  from stage_ok_step [OF ok assms(2) this] within_broken
  show "case f s of (go, s') \<Rightarrow> if go then staged base fs m s' else broken mux_part base fs s'"
    by (auto split: prod.splits)
qed

lemma st_header_ok:
  assumes "staged base fs 5 s"
  shows "case st_header E s of (go, s') \<Rightarrow>
    if go then at_stage (mux_is True) base fs 5 s' else broken mux_part base fs s'"
proof -
  obtain e w where s: "s = (e, w)" by (cases s)
  obtain r p w' where i: "av E (Write_header (format_context e) None) w = (r, p, w')"
    by (metis prod_cases3)
  have l: "live w = base @ owned e" "faults w = fs" "ordered w" "reached 5 e" "\<not> is_open e"
    "mux_is False (calls w)"
    using assms by (simp_all add: at_stage_def holds_def s)
  have A: "live w' = live w" "faults w' = faults w" "ordered w'"
    "calls w' = calls w @ [Write_header (format_context e) None]"
    using av_quiet [OF i] l usable_owned(1) [OF l(4)] by simp_all
  then have m: "mux_is True (calls w')" using l(6) by (simp add: mux_is_append mux_step_def)
  obtain h where h: "io e = Some h" "format_context e \<noteq> None" using l(4) by (auto simp: reached_def)
  have "live w' = (base @ owned (e\<lparr>io := None\<rparr>)) @ opt KIo (io e) @ []"
    using A(1) l(1) by (simp add: owned_def)
  from av_do_release [OF A(3) this, of "Avio_close (io e)" E] h
  have "live (av_do E (Avio_close (io e)) w') = base @ owned (e\<lparr>io := None\<rparr>)"
    "faults (av_do E (Avio_close (io e)) w') = faults w'" "ordered (av_do E (Avio_close (io e)) w')"
    "calls (av_do E (Avio_close (io e)) w') = calls w' @ [Avio_close (io e)]"
    by simp_all
  then show ?thesis
    using i l A m h
    by (auto simp: st_header_def s at_stage_def broken_def holds_def mux_part_def mux_is_append
        mux_step_def)
qed

lemma open_stages_triple:
  assumes "avio_open_zero E"
  shows "triple (staged base fs 0) (open_stages E filename p)
     (at_stage (mux_is True) base fs 5) (broken mux_part base fs)"
  unfolding open_stages_def
  apply (rule stage_triple [OF st_format_ok], simp)
  apply (rule shared_stages_triple [OF open_neutral_mux order_refl _ within_broken])
   apply (rule stage_triple [OF st_avio_ok [OF assms]], simp)
   apply (rule triple_single [OF st_header_ok], assumption)
  apply assumption
  done

subsection \<open>The contract of the encoder\<close>

text \<open>
  An encoder is closed and empty, or open with all its pointers set and its muxer between header
  and trailer; in both cases it holds exactly what it points to.
\<close>

definition enc_ok :: "(nat \<times> av_kind) list \<Rightarrow> (ptr \<times> av_kind) list \<Rightarrow> enc \<times> 'x av \<Rightarrow> bool" where
  "enc_ok base fs s \<longleftrightarrow>
     (if is_open (fst s) then reached 5 (fst s) \<and> holds (mux_is True) base fs s
      else fst s = empty_enc \<and> holds (mux_is False) base fs s)"

lemma not_open_empty [simp]: "\<not> is_open empty_enc"
  by (simp add: empty_enc_def)

lemma enc_ok_empty: "enc_ok base fs (empty_enc, w) \<longleftrightarrow> holds (mux_is False) base fs (empty_enc, w)"
  by (simp add: enc_ok_def)

lemma close_enc_ok:
  assumes fin: "codec_finite E m" and ok: "enc_ok base fs s"
  shows "\<exists>w'. close_enc E s = Some (empty_enc, w') \<and> holds (mux_is False) base fs (empty_enc, w')"
proof -
  obtain e w where s: "s = (e, w)" by (cases s)
  show ?thesis
  proof (cases "is_open e")
    case False
    then have "broken mux_part base fs (e, w)"
      using ok by (auto simp: s enc_ok_def broken_def holds_def mux_part_def owned_def empty_enc_def)
    from free_all_broken [OF this, of E] False show ?thesis by (auto simp: s close_enc_def)
  next
    case True
    then have n: "reached 5 e" and h: "holds (mux_is True) base fs (e, w)"
      using ok by (simp_all add: s enc_ok_def)
    note u = usable_owned [OF n]
    define w1 where "w1 = av_do E (Send_frame (codec_context e) None) w"
    have h1: "holds (mux_is True) base fs (e, w1)"
      unfolding w1_def by (rule holds_quiet_do [OF h]) (use u in auto)
    obtain b w2 where f: "flush_packets E e w1 = Some (b, w2)"
      using flush_packets_returns [OF fin] by blast
    note h2 = flush_packets_holds [OF f h1 n]
    define w3 where "w3 = av_do E (Write_trailer (format_context e)) w2"
    have w3: "live w3 = base @ owned e" "faults w3 = fs" "ordered w3" "mux_is False (calls w3)"
      using h2 u by (simp_all add: w3_def holds_def ledger mux_is_append [of True] mux_step_def)
    define w4 where "w4 = av_do E (Avio_close (io e)) w3"
    have "live w3 = (base @ owned (e\<lparr>io := None\<rparr>)) @ opt KIo (io e) @ []"
      using w3(1) by (simp add: owned_def)
    from av_do_release [OF w3(3) this, of "Avio_close (io e)" E] n w3
    have w4: "live w4 = base @ owned (e\<lparr>io := None\<rparr>)" "faults w4 = fs" "ordered w4"
      "mux_is False (calls w4)"
      by (auto simp: w4_def reached_def mux_is_append mux_step_def)
    have "free_all E (e, w4) = free_all E (e\<lparr>is_open := False\<rparr>, w4)" by (simp add: free_all_def Let_def)
    moreover have "broken mux_part base fs (e\<lparr>is_open := False\<rparr>, w4)"
      using w4 by (simp add: broken_def holds_def mux_part_def owned_def)
    ultimately obtain w5 where "free_all E (e, w4) = (empty_enc, w5)"
      "holds (mux_is False) base fs (empty_enc, w5)"
      using free_all_broken by metis
    then show ?thesis
      using True f by (simp add: s close_enc_def w1_def w3_def w4_def)
  qed
qed

text \<open>\<open>Write\<close> on an open encoder, with its intermediate states named.\<close>

lemma write_frame_open:
  assumes "is_open e" and "av E (Frame_make_writable (frame e)) w = (r, q, w1)"
    and "w2 = av_do E (Sws_scale (sws_context e) data (frame e) (width (cc e) * 3) (height (cc e))) w1"
    and "e2 = e\<lparr>frame_pts := frame_index e, frame_index := (frame_index e + 1) mod 2 ^ 32\<rparr>"
    and "av E (Send_frame (codec_context e2) (Some (frame e2, frame_pts e2))) w2 = (r3, q3, w3)"
  shows "write_frame E data (e, w) =
     (if a_rc r < 0 then Some (False, e, w1) else if a_rc r3 < 0 then Some (False, e2, w3)
      else map_option (\<lambda>(ok, w). (ok, e2, w)) (flush_packets E e2 w3))"
  using assms unfolding write_frame_def by (simp add: Let_def)

lemma write_frame_ok:
  assumes fin: "codec_finite E m" and ok: "enc_ok base fs s"
  shows "\<exists>b s'. write_frame E data s = Some (b, s') \<and> enc_ok base fs s'"
proof -
  obtain e w where s: "s = (e, w)" by (cases s)
  show ?thesis
  proof (cases "is_open e")
    case False
    then show ?thesis using ok by (auto simp: s write_frame_def)
  next
    case True
    then have n: "reached 5 e" and h: "holds (mux_is True) base fs (e, w)"
      using ok by (simp_all add: s enc_ok_def)
    note u = usable_owned [OF n]
    obtain r q w1 where i: "av E (Frame_make_writable (frame e)) w = (r, q, w1)"
      by (metis prod_cases3)
    have h1: "holds (mux_is True) base fs (e, w1)" by (rule holds_quiet [OF h i]) (use u in auto)
    define w2 where
      "w2 = av_do E (Sws_scale (sws_context e) data (frame e) (width (cc e) * 3) (height (cc e))) w1"
    have h2: "holds (mux_is True) base fs (e, w2)"
      unfolding w2_def by (rule holds_quiet_do [OF h1]) (use u in auto)
    define e' where "e' = e\<lparr>frame_pts := frame_index e, frame_index := (frame_index e + 1) mod 2 ^ 32\<rparr>"
    have e': "owned e' = owned e" "reached 5 e'" "is_open e'"
      using n True by (simp_all add: e'_def owned_def reached_def)
    have h2': "holds (mux_is True) base fs (e', w2)" using holds_same [OF h2 e'(1)] .
    obtain r3 q3 w3 where i3: "av E (Send_frame (codec_context e') (Some (frame e', frame_pts e'))) w2
        = (r3, q3, w3)" by (metis prod_cases3)
    have h3: "holds (mux_is True) base fs (e', w3)"
      by (rule holds_quiet [OF h2' i3]) (use usable_owned [OF e'(2)] in auto)
    obtain b w4 where f: "flush_packets E e' w3 = Some (b, w4)"
      using flush_packets_returns [OF fin] by blast
    have "enc_ok base fs (e', w4)"
      using flush_packets_holds [OF f h3 e'(2)] e' by (simp add: enc_ok_def)
    moreover have "write_frame E data (e, w) =
        (if a_rc r < 0 then Some (False, e, w1)
         else if a_rc r3 < 0 then Some (False, e', w3) else Some (b, e', w4))"
      using f by (simp add: write_frame_open [OF True i w2_def e'_def i3])
    ultimately show ?thesis
      using h1 h3 n True e' by (auto simp: s enc_ok_def)
  qed
qed

lemma open_enc_ok:
  assumes fin: "codec_finite E m" and zero: "avio_open_zero E" and ok: "enc_ok base fs s"
  shows "\<exists>b s'. open_enc E filename p s = Some (b, s') \<and> is_open (fst s') = b \<and> enc_ok base fs s'"
proof -
  obtain w where c: "close_enc E s = Some (empty_enc, w)"
    and h: "holds (mux_is False) base fs (empty_enc, w)"
    using close_enc_ok [OF fin ok] by blast
  have st: "staged base fs 0 (empty_enc, w)" using h by (simp add: at_stage_def)
  obtain go e1 w1 where r: "run_stages (open_stages E filename p) (empty_enc, w) = (go, (e1, w1))"
    by (metis prod_cases3)
  note T = tripleD [OF open_stages_triple [OF zero, of base fs filename p] st r]
  show ?thesis
  proof (cases go)
    case True
    with T have "at_stage (mux_is True) base fs 5 (e1, w1)" by simp
    then have "enc_ok base fs (e1\<lparr>frame_index := 0, is_open := True\<rparr>, w1)"
      by (auto simp: enc_ok_def at_stage_def holds_def owned_def reached_def)
    then show ?thesis using c r True by (auto simp: open_enc_def)
  next
    case False
    with T have b: "broken mux_part base fs (e1, w1)" by simp
    then have "\<not> is_open e1" by (simp add: broken_def)
    then have "close_enc E (e1, w1) = Some (free_all E (e1, w1))" by (simp add: close_enc_def)
    with free_all_broken [OF b, of E] obtain w2 where
      "close_enc E (e1, w1) = Some (empty_enc, w2)" "holds (mux_is False) base fs (empty_enc, w2)"
      by auto
    then show ?thesis using c r False by (auto simp: open_enc_def enc_ok_empty)
  qed
qed

text \<open>\<open>enc_ok\<close> with the hypotheses on the library is the invariant of the object.\<close>

definition file_inv :: "'x av_env \<Rightarrow> ('x \<Rightarrow> nat) \<Rightarrow> (nat \<times> av_kind) list \<Rightarrow> (ptr \<times> av_kind) list \<Rightarrow>
    enc \<times> 'x av \<Rightarrow> bool" where
  "file_inv E m base fs s \<longleftrightarrow> codec_finite E m \<and> avio_open_zero E \<and> enc_ok base fs s"

interpretation file_encoder: component "enc_do E" "file_inv E m base fs" for E m base fs
proof unfold_locales
  fix s :: "enc \<times> 'a av" and a
  assume i: "file_inv E m base fs s"
  then have f: "codec_finite E m" "avio_open_zero E" "enc_ok base fs s"
    by (simp_all add: file_inv_def)
  show "\<exists>s'. enc_do E a s = Some s' \<and> file_inv E m base fs s'"
  proof (cases a)
    case (Open_op filename p)
    with open_enc_ok [OF f, of filename p] f show ?thesis by (auto simp: file_inv_def)
  next
    case (Write_op data)
    with write_frame_ok [OF f(1,3), of data] f show ?thesis by (auto simp: file_inv_def)
  next
    case Close_op
    with close_enc_ok [OF f(1,3)] f show ?thesis by (auto simp: file_inv_def enc_ok_empty)
  qed
qed

subsection \<open>What a successful Open has done\<close>

lemma run_stages_Cons_True:
  "run_stages (f # fs) s = (True, s') \<longleftrightarrow> (\<exists>s1. f s = (True, s1) \<and> run_stages fs s1 = (True, s'))"
  by (auto split: prod.splits if_splits)

lemma test_stage_True:
  "test_stage E c put (e, w) = (True, s') \<longleftrightarrow>
     (\<exists>r w'. s' = (snd (put r e), w') \<and> fst (put r e) \<and> calls w' = calls w @ [c e] \<and>
        (\<exists>p. av E (c e) w = (r, p, w')))"
  by (auto simp: test_stage_def dest: avD(5) split: prod.splits)

lemma alloc_stage_True:
  "alloc_stage E c put (e, w) = (True, s') \<longleftrightarrow>
     (\<exists>r p w'. s' = (snd (put r p e), w') \<and> fst (put r p e) \<and> calls w' = calls w @ [c] \<and>
        av E c w = (r, p, w'))"
  by (auto simp: alloc_stage_def dest: avD(5) split: prod.splits)

lemma st_header_True:
  "st_header E (e, w) = (True, s') \<longleftrightarrow>
     (\<exists>w'. s' = (e, w') \<and> calls w' = calls w @ [Write_header (format_context e) None] \<and>
        (\<exists>r p. \<not> a_rc r < 0 \<and> av E (Write_header (format_context e) None) w = (r, p, w')))"
  by (auto simp: st_header_def dest: avD(5) split: prod.splits if_splits)

lemma st_preset_True:
  "st_preset E p (e, w) = (True, s') \<longleftrightarrow>
     (case p_preset p of None \<Rightarrow> s' = (e, w)
      | Some x \<Rightarrow> (\<exists>r w'. s' = (e, w') \<and> a_rc r = 0 \<and>
          calls w' = calls w @ [Opt_set (codec_context e) ''preset'' x] \<and>
          (\<exists>q. av E (Opt_set (codec_context e) ''preset'' x) w = (r, q, w'))))"
  by (auto simp: st_preset_def test_stage_True split: option.splits)

definition open_calls :: "string option \<Rightarrow> params \<Rightarrow> enc \<Rightarrow> av_call list" where
  "open_calls filename p e =
     [Alloc_output_context2 None filename, Find_encoder AV_CODEC_ID_H264, New_stream (format_context e),
      Alloc_context3, D2q (p_fps p) 120] @
     (case p_preset p of None \<Rightarrow> [] | Some x \<Rightarrow> [Opt_set (codec_context e) ''preset'' x]) @
     [Opt_set_int (codec_context e) ''crf'' (uint (p_crf p)), Open_codec (codec_context e) (cc e),
      Frame_alloc, Frame_get_buffer (frame e) 32,
      Parameters_from_context (format_context e) (codec_context e) (cc e), sws_call p e,
      Dump_format (format_context e), Avio_open (format_context e) filename,
      Write_header (format_context e) None]"

lemma open_stages_True:
  assumes "run_stages (open_stages E filename p) (empty_enc, w) = (True, (e, w'))"
  shows "calls w' = calls w @ open_calls filename p e"
    and "width (cc e) = sint (p_width p)" and "height (cc e) = sint (p_height p)"
    and "pix_fmt (cc e) = p_dst_format p" and "bit_rate (cc e) = uint (p_bitrate p)"
    and "time_base (cc e) = stream_tb e" and "gop_size (cc e) = 12" and "max_b_frames (cc e) = 2"
    and "frame_w e = width (cc e)" and "frame_h e = height (cc e)"
    and "apply_cropping (cc e) = Some True" and "fmt_global_header e = global_header (cc e)"
  using assms
  unfolding open_stages_def shared_stages_def append_Cons append_Nil run_stages_Cons_True st_format_def st_codec_def st_stream_def
    st_context_def st_configure_def st_crf_def st_open_codec_def st_frame_def st_frame_buffer_def
    st_parameters_def st_sws_def st_dump_def st_avio_def
  by (auto simp: test_stage_True alloc_stage_True st_header_True st_preset_True open_calls_def
      sws_call_def configure_def empty_enc_def zero_fields_def split: option.splits)

subsection \<open>Timestamps\<close>

text \<open>The timestamps of the frames handed to the codec, in order.\<close>

definition sent_pts :: "av_call list \<Rightarrow> int list" where
  "sent_pts cs = List.map_filter (\<lambda>c. case c of Send_frame _ (Some (_, t)) \<Rightarrow> Some t | _ \<Rightarrow> None) cs"

lemma sent_pts_append [simp]: "sent_pts (cs @ ds) = sent_pts cs @ sent_pts ds"
  by (simp add: sent_pts_def map_filter_def)

lemma sent_pts_simps [simp]:
  "sent_pts [Receive_packet c] = []" "sent_pts [Interleaved_write_frame f p] = []"
  "sent_pts [Packet_unref b] = []" "sent_pts [Send_frame c (Some (fr, t))] = [t]"
  "sent_pts [Frame_make_writable fr] = []" "sent_pts [Sws_scale s d fr i j] = []"
  by (simp_all add: sent_pts_def map_filter_simps)

lemma sent_pts_Cons [simp]: "sent_pts (c # d # cs) = sent_pts [c] @ sent_pts (d # cs)"
  using sent_pts_append [of "[c]" "d # cs"] by simp

lemma flush_packets_calls:
  assumes ret: "flush_packets E e w = Some (ok, w')" and "K (calls w)"
    and K: "\<And>c cs. K cs \<Longrightarrow> K (cs @ [Receive_packet c])"
      "\<And>f p cs. K cs \<Longrightarrow> K (cs @ [Interleaved_write_frame f p])"
      "\<And>b cs. K cs \<Longrightarrow> K (cs @ [Packet_unref b])"
  shows "K (calls w')"
proof -
  have "K (calls w) \<longrightarrow> K (calls (snd (ok, w')))"
  proof (rule flush_packets.raw_induct
      [where P = "\<lambda>E e w res. K (calls w) \<longrightarrow> K (calls (snd res))", OF _ ret], intro impI)
    fix f :: "'a av_env \<Rightarrow> enc \<Rightarrow> 'a av \<Rightarrow> (bool \<times> 'a av) option" and E e w res
    assume IH: "\<And>E e w res. f E e w = Some res \<Longrightarrow> K (calls w) \<longrightarrow> K (calls (snd res))"
      and eq: "(case av E (Receive_packet (codec_context e)) w of (r, p, w1) \<Rightarrow>
        if a_rc r = AVERROR EAGAIN \<or> a_rc r = AVERROR_EOF then Some (True, w1)
        else if a_rc r < 0 then Some (False, w1)
        else
          let pk = (packet_rescale_ts E ((a_pkt r)\<lparr>pk_buf := p\<rparr>) (time_base (cc e)) (stream_tb e))
                     \<lparr>stream_index := stream_idx e\<rparr>
          in case av E (Interleaved_write_frame (format_context e) pk) w1 of (r2, _, w2) \<Rightarrow>
               let w3 = av_do E (Packet_unref None) w2
               in if a_rc r2 < 0 then Some (False, w3) else f E e w3) = Some res"
      and h: "K (calls w)"
    obtain r p w1 where i: "av E (Receive_packet (codec_context e)) w = (r, p, w1)"
      by (metis prod_cases3)
    define pk where "pk = (packet_rescale_ts E ((a_pkt r)\<lparr>pk_buf := p\<rparr>) (time_base (cc e))
        (stream_tb e))\<lparr>stream_index := stream_idx e\<rparr>"
    obtain r2 q w2 where i2: "av E (Interleaved_write_frame (format_context e) pk) w1 = (r2, q, w2)"
      by (metis prod_cases3)
    define w3 where "w3 = av_do E (Packet_unref None) w2"
    have "K (calls w1)" using K(1) [OF h] avD(5) [OF i] by simp
    moreover from K(2) [OF this] have "K (calls w2)" using avD(5) [OF i2] by simp
    then have "K (calls w3)" using K(3) by (simp add: w3_def ledger)
    moreover have "snd res = w1 \<or> snd res = w3 \<or> f E e w3 = Some res"
      unfolding w3_def using eq by (auto simp: i i2 pk_def [symmetric] Let_def split: if_splits)
    ultimately show "K (calls (snd res))" using IH by blast
  qed
  with assms show ?thesis by simp
qed

lemma write_frame_pts:
  assumes "write_frame E data (e, w) = Some (b, e', w')" and "is_open e"
    and "0 \<le> frame_index e" and "frame_index e < 2 ^ 32"
  shows "\<exists>n \<le> 1. sent_pts (calls w') = sent_pts (calls w) @ map (\<lambda>i. (frame_index e + int i) mod 2 ^ 32) [0..<n]
     \<and> frame_index e' = (frame_index e + int n) mod 2 ^ 32 \<and> is_open e'"
proof -
  obtain r q w1 where i: "av E (Frame_make_writable (frame e)) w = (r, q, w1)" by (metis prod_cases3)
  define w2 where
    "w2 = av_do E (Sws_scale (sws_context e) data (frame e) (width (cc e) * 3) (height (cc e))) w1"
  define e2 where "e2 = e\<lparr>frame_pts := frame_index e, frame_index := (frame_index e + 1) mod 2 ^ 32\<rparr>"
  obtain r3 q3 w3 where i3: "av E (Send_frame (codec_context e2) (Some (frame e2, frame_pts e2))) w2
      = (r3, q3, w3)" by (metis prod_cases3)
  have c1: "sent_pts (calls w1) = sent_pts (calls w)" using avD(5) [OF i] by simp
  have c3: "sent_pts (calls w3) = sent_pts (calls w) @ [frame_index e]"
    using avD(5) [OF i3] c1 by (simp add: w2_def ledger e2_def)
  have fl: "sent_pts (calls w4) = sent_pts (calls w3)" if "flush_packets E e2 w3 = Some (ok, w4)" for ok w4
    by (rule flush_packets_calls [OF that, where K = "\<lambda>cs. sent_pts cs = sent_pts (calls w3)"]) simp_all
  have "(if a_rc r < 0 then Some (False, e, w1) else if a_rc r3 < 0 then Some (False, e2, w3)
      else map_option (\<lambda>(ok, w). (ok, e2, w)) (flush_packets E e2 w3)) = Some (b, e', w')"
    using assms(1) by (simp only: write_frame_open [OF assms(2) i w2_def e2_def i3])
  then consider "e' = e" "w' = w1" | "e' = e2" "sent_pts (calls w') = sent_pts (calls w3)"
    using fl by (auto split: if_splits)
  then show ?thesis
  proof cases
    case 1
    then show ?thesis using c1 assms by (intro exI [of _ 0]) simp
  next
    case 2
    then show ?thesis using c3 assms by (intro exI [of _ 1]) (simp add: e2_def)
  qed
qed

subsection \<open>Properties\<close>

lemma counting_zero: "avio_open_zero (counting_env bad)"
  by (simp add: avio_open_zero_def)

lemma enc_ok_start: "enc_ok [] [] (empty_enc, start_world x)"
  by (simp add: enc_ok_empty holds_def mux_is_def mux_def) (simp add: start_world_def)





text \<open>What a successful \<open>Open\<close> on a fresh encoder has done: exactly the calls of \<open>open_calls\<close>, in
  that order, with the codec opened for the size, pixel format and bit rate of the parameters, a
  frame of the same size, the stream's time base equal to the codec's, and the frame counter at 0.
\<close>

theorem file_open_configures:
  assumes "open_enc E filename p (empty_enc, w) = Some (True, e, w')"
  shows "calls w' = calls w @ open_calls filename p e \<and> width (cc e) = sint (p_width p) \<and>
     height (cc e) = sint (p_height p) \<and> pix_fmt (cc e) = p_dst_format p \<and>
     bit_rate (cc e) = uint (p_bitrate p) \<and> time_base (cc e) = stream_tb e \<and>
     frame_w e = width (cc e) \<and> frame_h e = height (cc e) \<and> frame_index e = 0"
proof -
  have c: "close_enc E (empty_enc, w) = Some (empty_enc, w)"
    by (simp add: close_enc_def free_all_def empty_enc_def)
  obtain go e1 w1 where r: "run_stages (open_stages E filename p) (empty_enc, w) = (go, (e1, w1))"
    by (metis prod_cases3)
  have go: "go" "e = e1\<lparr>frame_index := 0, is_open := True\<rparr>" "w' = w1"
    using assms(1) by (auto simp: open_enc_def c r split: if_splits bool.splits)
  then have "run_stages (open_stages E filename p) (empty_enc, w) = (True, (e1, w1))" using r by simp
  note O = open_stages_True [OF this]
  have "open_calls filename p e = open_calls filename p e1"
    by (simp add: open_calls_def sws_call_def go(2) split: option.splits)
  then show ?thesis using O go(2,3) by simp
qed

lemma counting_open:
  fixes p :: params
  shows "\<exists>e w. open_enc (counting_env (\<lambda>_. False)) (Some name) p (empty_enc, start_world 0) = Some (True, e, w)
    \<and> is_open e \<and> frame_index e = 0 \<and> sent_pts (calls w) = []"
  unfolding open_enc_def close_enc_def free_all_def open_stages_def shared_stages_def st_format_def
    st_codec_def st_stream_def st_context_def st_configure_def st_preset_def st_crf_def st_open_codec_def
    st_frame_def st_frame_buffer_def st_parameters_def st_sws_def st_dump_def st_avio_def
    st_header_def alloc_stage_def test_stage_def av_def invoke_def avlib_def sws_call_def
  by (simp add: empty_enc_def start_world_def configure_def sent_pts_def map_filter_simps
      split: option.splits)

theorem file_open_configures_witness:
  "\<exists>e w. open_enc (counting_env (\<lambda>_. False)) (Some ''a.mp4'')
      \<lparr>p_width = 640, p_height = 480, p_fps = 0, p_bitrate = 5000, p_preset = Some ''fast'',
       p_crf = 23, p_src_format = 2, p_dst_format = 0\<rparr> (empty_enc, start_world 0)
      = Some (True, e, w) \<and> width (cc e) = 640 \<and> frame_h e = 480 \<and> pix_fmt (cc e) = 0"
  (is "\<exists>e w. ?o e w \<and> _ e")
proof -
  obtain e w where o: "?o e w" using counting_open by blast
  from file_open_configures [OF o] have "width (cc e) = 640 \<and> frame_h e = 480 \<and> pix_fmt (cc e) = 0"
    by simp
  with o show ?thesis by blast
qed

text \<open>
  C13.  Timestamps: from an open encoder whose counter is \<open>k\<close>, any number of \<open>Write\<close> calls hands the
  codec frames numbered \<open>k\<close>, \<open>k + 1\<close>, ... without gap or repetition (modulo \<open>2 ^ 32\<close>), however many of
  the calls fail and at whichever step.
\<close>

theorem file_timestamps:
  assumes "run_ops (enc_do E) (map Write_op ds) (e, w) = Some (e', w')" and "is_open e"
    and "0 \<le> frame_index e" and "frame_index e < 2 ^ 32"
  shows "\<exists>n \<le> length ds. sent_pts (calls w') = sent_pts (calls w) @
       map (\<lambda>i. (frame_index e + int i) mod 2 ^ 32) [0..<n] \<and>
     frame_index e' = (frame_index e + int n) mod 2 ^ 32"
  using assms
proof (induction ds arbitrary: e w)
  case Nil
  then show ?case by (intro exI [of _ 0]) simp
next
  case (Cons d ds)
  obtain b e1 w1 where w1: "write_frame E d (e, w) = Some (b, e1, w1)"
    and r: "run_ops (enc_do E) (map Write_op ds) (e1, w1) = Some (e', w')"
    using Cons.prems(1) by (auto split: option.splits)
  from write_frame_pts [OF w1 Cons.prems(2-4)] obtain n where n: "n \<le> 1"
    "sent_pts (calls w1) = sent_pts (calls w) @ map (\<lambda>i. (frame_index e + int i) mod 2 ^ 32) [0..<n]"
    "frame_index e1 = (frame_index e + int n) mod 2 ^ 32" "is_open e1" by blast
  have "0 \<le> frame_index e1" "frame_index e1 < 2 ^ 32" using n(3) by simp_all
  from Cons.IH [OF r n(4) this] obtain k where k: "k \<le> length ds"
    "sent_pts (calls w') = sent_pts (calls w1) @ map (\<lambda>i. (frame_index e1 + int i) mod 2 ^ 32) [0..<k]"
    "frame_index e' = (frame_index e1 + int k) mod 2 ^ 32" by blast
  let ?f = "\<lambda>i. (frame_index e + int i) mod 2 ^ 32"
  have m: "(frame_index e1 + int i) mod 2 ^ 32 = ?f (n + i)" for i
    unfolding n(3) of_nat_add mod_add_left_eq by (simp add: add.assoc)
  have "map (\<lambda>i. (frame_index e1 + int i) mod 2 ^ 32) [0..<k] = map ?f [n..<n + k]"
    unfolding m by (rule nth_equalityI) simp_all
  moreover have "map ?f [0..<n + k] = map ?f [0..<n] @ map ?f [n..<n + k]"
    by (simp only: upt_add_eq_append [OF le0] map_append)
  ultimately have "sent_pts (calls w') = sent_pts (calls w) @ map ?f [0..<n + k]"
    unfolding k(2) n(2) by simp
  moreover have "n + k \<le> length (d # ds)" using n(1) k(1) by simp
  moreover have "frame_index e' = ?f (n + k)" unfolding k(3) m ..
  ultimately show ?case by blast
qed

theorem file_timestamps_witness:
  "\<exists>e w e' w' n. open_enc (counting_env (\<lambda>_. False)) (Some ''a.mp4'') capture_params (empty_enc, start_world 0)
      = Some (True, e, w) \<and>
    run_ops (enc_do (counting_env (\<lambda>_. False))) (map Write_op [None, Some 7, None]) (e, w) = Some (e', w')
    \<and> n \<le> (3::nat) \<and> sent_pts (calls w') = map int [0..<n] \<and> frame_index e' = int n"
proof -
  let ?E = "counting_env (\<lambda>_. False)"
  obtain e w where o: "open_enc ?E (Some ''a.mp4'') capture_params (empty_enc, start_world 0) = Some (True, e, w)"
    "is_open e" "frame_index e = 0" "sent_pts (calls w) = []"
    using counting_open by blast
  have "file_inv ?E (\<lambda>n. n) [] [] (e, w)"
    using open_enc_ok [OF counting_finite counting_zero enc_ok_start, of "\<lambda>_. False" "Some ''a.mp4''" capture_params 0] o(1)
    by (simp add: file_inv_def counting_finite counting_zero)
  from file_encoder.run_keeps [OF this] obtain e' w' where
    r: "run_ops (enc_do ?E) (map Write_op [None, Some 7, None]) (e, w) = Some (e', w')"
    by (metis prod.exhaust)
  from file_timestamps [OF r o(2)] o(3,4) obtain n where n: "n \<le> 3"
    "sent_pts (calls w') = map (\<lambda>i. int i mod 2 ^ 32) [0..<n]" "frame_index e' = int n mod 2 ^ 32"
    by auto
  then have "sent_pts (calls w') = map int [0..<n]" "frame_index e' = int n" by auto
  with o(1) r n(1) show ?thesis by blast
qed

end
