(* ===== verification/StreamEncoder.thy ===== *)
theory StreamEncoder
  imports FileEncoder SafeQueue
begin

text \<open>
  \<open>VideoStreamEncoder\<close> (src/CVideoStreamEncoder.cpp, inc/CVideoStreamEncoder.hpp), the encoder that
  turns every packet into an MP4 fragment of its own and queues the fragment for the client.  The
  object is the record \<open>enc\<close> together with \<open>encodedFramesQueue\<close>.  \<open>avio_close_dyn_buf\<close> returns the
  length of the buffer it hands out, so \<open>buffer_size\<close> is the length of the answer's data.
\<close>

type_synonym fragments = "byte list tsq"

subsection \<open>remuxVideo\<close>

text \<open>\<open>av_init_packet\<close> and the fields set for a packet that carries \<open>data\<close> without owning it.\<close>

definition stamp :: "'x av_env \<Rightarrow> enc \<Rightarrow> packet \<Rightarrow> packet" where
  "stamp E e pk =
     (let step = rescale_q E 1 (time_base (cc e)) (stream_tb e);
          pk = pk\<lparr>pts := frame_index e * step, dts := frame_index e * step, duration := step\<rparr>
      in (packet_rescale_ts E pk (time_base (cc e)) (stream_tb e))\<lparr>stream_index := stream_idx e\<rparr>)"

definition stream_parameters :: "enc \<Rightarrow> codec_fields" where
  "stream_parameters e = zero_fields\<lparr>codec_id := AV_CODEC_ID_H264, width := width (cc e),
     height := height (cc e), pix_fmt := pix_fmt (cc e), bit_rate := bit_rate (cc e)\<rparr>"

definition movflags :: string where
  "movflags = ''frag_keyframe+empty_moov+default_base_moof''"

definition remux_packet :: "'x av_env \<Rightarrow> enc \<Rightarrow> byte list \<Rightarrow> fragments \<times> 'x av \<Rightarrow>
    bool \<times> fragments \<times> 'x av" where
  "remux_packet E e data = (\<lambda>(q, w).
     case av E (Alloc_output_context2 (Some ''mp4'') None) w of (_, ofc, w) \<Rightarrow>
     if ofc = None then (False, q, w)
     else case av E Open_dyn_buf w of (_, pb, w) \<Rightarrow>
     case av E (New_stream ofc) w of (r, _, w) \<Rightarrow>
     if \<not> a_ok r then (False, q, av_do E (Format_free ofc) w)
     else case av E Parameters_alloc w of (_, codecpar, w) \<Rightarrow>
     let w = av_do E (Parameters_copy ofc codecpar (stream_parameters e)) w;
         w = av_do E (Parameters_free codecpar) w
     in case av E (Write_header ofc (Some movflags)) w of (r, _, w) \<Rightarrow>
     if a_rc r < 0 then (False, q, av_do E (Format_free ofc) w)
     else let pk = stamp E e (zero_packet\<lparr>pk_data := data, pos := -1\<rparr>) in
     if pts pk = AV_NOPTS_VALUE \<or> dts pk = AV_NOPTS_VALUE
     then (False, q, av_do E (Format_free ofc) w)
     else case av E (Interleaved_write_frame ofc pk) w of (r, _, w) \<Rightarrow>
     if a_rc r < 0 then (False, q, av_do E (Format_free ofc) w)
     else case av E (Close_dyn_buf pb) (av_do E (Write_trailer ofc) w) of (r, buffer, w) \<Rightarrow>
     let fmp4Data = a_data r; w = av_do E (Av_free buffer) w
     in (True, push fmp4Data q, av_do E (Format_free ofc) w))"

subsection \<open>FlushPackets and Write\<close>

partial_function (option) flush_stream :: "'x av_env \<Rightarrow> enc \<Rightarrow> fragments \<times> 'x av \<Rightarrow>
    (bool \<times> fragments \<times> 'x av) option" where
  "flush_stream E e s =
     (case s of (q, w) \<Rightarrow>
      case av E (Receive_packet (codec_context e)) w of (r, p, w1) \<Rightarrow>
        if a_rc r = AVERROR EAGAIN \<or> a_rc r = AVERROR_EOF then Some (True, q, w1)
        else if a_rc r < 0 then Some (False, q, w1)
        else
          let pk = stamp E e ((a_pkt r)\<lparr>pk_buf := p\<rparr>)
          in if pts pk = AV_NOPTS_VALUE \<or> dts pk = AV_NOPTS_VALUE
             then Some (False, q, av_do E (Packet_unref p) w1)
             else case remux_packet E e (pk_data pk) (q, w1) of (ok, q2, w2) \<Rightarrow>
               if \<not> ok then Some (False, q2, av_do E (Packet_unref p) w2)
               else flush_stream E e (q2, av_do E (Packet_unref p) w2))"

definition write_stream :: "'x av_env \<Rightarrow> ptr \<Rightarrow> enc \<times> fragments \<times> 'x av \<Rightarrow>
    (bool \<times> enc \<times> fragments \<times> 'x av) option" where
  "write_stream E data = (\<lambda>(e, q, w).
     if \<not> is_open e then Some (False, e, q, w)
     else case av E (Frame_make_writable (frame e)) w of (r, _, w) \<Rightarrow>
       if a_rc r < 0 then Some (False, e, q, w)
       else
         let w = av_do E (Sws_scale (sws_context e) data (frame e) (width (cc e) * 3) (height (cc e))) w;
             e = e\<lparr>frame_pts := frame_index e, frame_index := frame_index e + 1\<rparr>
         in case av E (Send_frame (codec_context e) (Some (frame e, frame_pts e))) w of (r, _, w) \<Rightarrow>
              if a_rc r < 0 then Some (False, e, q, w)
              else map_option (\<lambda>(ok, s). (ok, e, s)) (flush_stream E e (q, w)))"

subsection \<open>Close and Open\<close>

definition free_stream :: "'x av_env \<Rightarrow> enc \<times> 'x av \<Rightarrow> enc \<times> 'x av" where
  "free_stream E = (\<lambda>(e, w).
     let w = (if sws_context e \<noteq> None then av_do E (Sws_free (sws_context e)) w else w);
         w = (if frame e \<noteq> None then av_do E (Frame_free (frame e)) w else w);
         w = (if codec_context e \<noteq> None then av_do E (Codec_free (codec_context e)) w else w);
         w = (if format_context e \<noteq> None then av_do E (Format_free (format_context e)) w else w)
     in (empty_enc, w))"

lemma free_stream_eq: "free_stream E = free_all E"
  by (intro ext) (simp add: free_stream_def free_all_def Let_def split: prod.splits)

definition close_stream :: "'x av_env \<Rightarrow> enc \<times> fragments \<times> 'x av \<Rightarrow> (enc \<times> fragments \<times> 'x av) option"
  where
  "close_stream E = (\<lambda>(e, q, w).
     if is_open e
     then (case flush_stream E e (q, av_do E (Send_frame (codec_context e) None) w) of
             None \<Rightarrow> None
           | Some (_, q, w) \<Rightarrow>
               (case av E (Close_dyn_buf (io e)) (av_do E (Write_trailer (format_context e)) w) of
                  (r, buffer, w) \<Rightarrow>
                    let buffer_size = int (length (a_data r));
                        (q, w) = (if buffer_size \<ge> 0
                                  then (push (a_data r) q, av_do E (Av_free buffer) w) else (q, w));
                        (e, w) = free_stream E (e, w)
                    in Some (e, q, w)))
     else Some (e, q, w))"

definition st_mp4 :: "'x av_env \<Rightarrow> (enc \<times> 'x av) stage" where
  "st_mp4 E = alloc_stage E (Alloc_output_context2 (Some ''mp4'') None)
     (\<lambda>r p e. (p \<noteq> None, e\<lparr>format_context := p, fmt_video_codec := a_w r,
                 fmt_global_header := a_flag r\<rparr>))"

definition st_dyn_buf :: "'x av_env \<Rightarrow> (enc \<times> 'x av) stage" where
  "st_dyn_buf E = alloc_stage E Open_dyn_buf (\<lambda>r p e. (\<not> a_rc r < 0, e\<lparr>io := p\<rparr>))"

definition st_stream_header :: "'x av_env \<Rightarrow> (enc \<times> 'x av) stage" where
  "st_stream_header E = test_stage E (\<lambda>e. Write_header (format_context e) None)
     (\<lambda>r e. (\<not> a_rc r < 0, e))"

definition stream_stages :: "'x av_env \<Rightarrow> params \<Rightarrow> (enc \<times> 'x av) stage list" where
  "stream_stages E p = st_mp4 E # shared_stages E None p @ [st_dyn_buf E, st_stream_header E]"

definition open_stream :: "'x av_env \<Rightarrow> params \<Rightarrow> enc \<times> fragments \<times> 'x av \<Rightarrow>
    (bool \<times> enc \<times> fragments \<times> 'x av) option" where
  "open_stream E p s =
     (case close_stream E s of None \<Rightarrow> None
      | Some (e, q, w) \<Rightarrow>
          (case run_stages (stream_stages E p) (e, w) of
             (True, (e, w)) \<Rightarrow> Some (True, e\<lparr>frame_index := 0, is_open := True\<rparr>, q, w)
           | (False, (e, w)) \<Rightarrow> map_option (\<lambda>s. (False, s)) (close_stream E (e, q, w))))"

text \<open>\<open>getEncodedFrame\<close> waits when the queue is empty: \<open>None\<close>.\<close>

definition getEncodedFrame :: "fragments \<Rightarrow> (byte list \<times> fragments) option" where
  "getEncodedFrame q = pop q"

definition isencodedFramesQueueEmpty :: "fragments \<Rightarrow> bool" where
  "isencodedFramesQueueEmpty q = is_empty q"

subsection \<open>What remuxVideo leaves behind\<close>

lemma remux_quiet [simp]:
  "quiet (Parameters_copy f q a)" "quiet (Interleaved_write_frame f (p\<lparr>pk_buf := None\<rparr>))"
  by (simp_all add: quiet_def)

lemma stamp_buf [simp]: "pk_buf (stamp E e pk) = pk_buf pk" "pk_data (stamp E e pk) = pk_data pk"
  by (simp_all add: stamp_def Let_def)

lemma push_contents [simp]: "queue (push v q) = queue q @ [v]"
  by (simp add: push_with_def notify_def)

text \<open>A call that creates and releases nothing leaves the ledger alone.\<close>

lemma av_quiet_live:
  assumes "av E c w = (r, p, w')" and "quiet c"
  shows "live w' = live w" and "ordered w \<Longrightarrow> ordered w'"
  using avD [OF assms(1)] assms(2) by (simp_all add: quiet_def)

lemma av_do_quiet_live:
  "quiet c \<Longrightarrow> live (av_do E c w) = live w"
  using av_quiet_live(1) unfolding av_do_def by (metis prod.collapse)

text \<open>Releasing the handle in the middle of the ledger.\<close>

lemma av_do_drop:
  assumes "ordered w" and "live w = xs @ (h, k) # ys"
    and "\<And>r. av_creates c r = None" and "\<And>r. av_releases c r = Some h"
  shows "live (av_do E c w) = xs @ ys"
  using drop_owned [OF assms(1,2)] by (simp add: av_do_live [OF assms(3,4)])

text \<open>\<open>remuxVideo\<close> with its intermediate states named.\<close>

lemma remux_packet_run:
  assumes i1: "av E (Alloc_output_context2 (Some ''mp4'') None) w = (r1, ofc, w1)"
    and i2: "av E Open_dyn_buf w1 = (r2, pb, w2)"
    and i3: "av E (New_stream ofc) w2 = (r3, p3, w3)"
    and i4: "av E Parameters_alloc w3 = (r4, cp, w4)"
    and w5: "w5 = av_do E (Parameters_copy ofc cp (stream_parameters e)) w4"
    and w6: "w6 = av_do E (Parameters_free cp) w5"
    and i7: "av E (Write_header ofc (Some movflags)) w6 = (r7, p7, w7)"
    and pk: "pk = stamp E e (zero_packet\<lparr>pk_data := data, pos := -1\<rparr>)"
    and i8: "av E (Interleaved_write_frame ofc pk) w7 = (r8, p8, w8)"
    and w9: "w9 = av_do E (Write_trailer ofc) w8"
    and i10: "av E (Close_dyn_buf pb) w9 = (r10, buf, w10)"
    and w11: "w11 = av_do E (Av_free buf) w10"
  shows "remux_packet E e data (q, w) =
    (if ofc = None then (False, q, w1)
     else if \<not> a_ok r3 then (False, q, av_do E (Format_free ofc) w3)
     else if a_rc r7 < 0 then (False, q, av_do E (Format_free ofc) w7)
     else if pts pk = AV_NOPTS_VALUE \<or> dts pk = AV_NOPTS_VALUE
     then (False, q, av_do E (Format_free ofc) w7)
     else if a_rc r8 < 0 then (False, q, av_do E (Format_free ofc) w8)
     else (True, push (a_data r10) q, av_do E (Format_free ofc) w11))"
  using i7 i8 i10 unfolding w5 w6 w9 w11 pk
  by (simp add: remux_packet_def i1 i2 i3 i4 Let_def)

lemma remux_packet_ledger:
  assumes r: "remux_packet E e data (q, w) = (ok, q', w')" and o: "ordered w"
  shows "ordered w' \<and> (if ok then (\<exists>d. queue q' = queue q @ [d]) \<and> live w' = live w
     else q' = q \<and> (\<exists>ls. live w' = live w @ ls \<and> (\<forall>a \<in> set ls. snd a = KIo) \<and> length ls \<le> 1))"
proof -
  obtain r1 ofc w1 where i1: "av E (Alloc_output_context2 (Some ''mp4'') None) w = (r1, ofc, w1)"
    by (metis prod_cases3)
  obtain r2 pb w2 where i2: "av E Open_dyn_buf w1 = (r2, pb, w2)" by (metis prod_cases3)
  obtain r3 p3 w3 where i3: "av E (New_stream ofc) w2 = (r3, p3, w3)" by (metis prod_cases3)
  obtain r4 cp w4 where i4: "av E Parameters_alloc w3 = (r4, cp, w4)" by (metis prod_cases3)
  define w5 where "w5 = av_do E (Parameters_copy ofc cp (stream_parameters e)) w4"
  define w6 where "w6 = av_do E (Parameters_free cp) w5"
  obtain r7 p7 w7 where i7: "av E (Write_header ofc (Some movflags)) w6 = (r7, p7, w7)"
    by (metis prod_cases3)
  define pk where "pk = stamp E e (zero_packet\<lparr>pk_data := data, pos := -1\<rparr>)"
  have b: "pk_buf pk = None" by (simp add: pk_def zero_packet_def)
  obtain r8 p8 w8 where i8: "av E (Interleaved_write_frame ofc pk) w7 = (r8, p8, w8)"
    by (metis prod_cases3)
  define w9 where "w9 = av_do E (Write_trailer ofc) w8"
  obtain r10 buf w10 where i10: "av E (Close_dyn_buf pb) w9 = (r10, buf, w10)" by (metis prod_cases3)
  define w11 where "w11 = av_do E (Av_free buf) w10"
  note run = r [unfolded remux_packet_run
    [OF i1 i2 i3 i4 w5_def w6_def i7 pk_def i8 w9_def i10 w11_def]]
  note D1 = avD [OF i1] and D2 = avD [OF i2] and D4 = avD [OF i4] and D10 = avD [OF i10]
  show ?thesis
  proof (cases "ofc = None")
    case True
    then have "av_creates (Alloc_output_context2 (Some ''mp4'') None) r1 = None" using D1(2) by simp
    then have "live w1 = live w" using D1(1) by (simp del: av_creates.simps)
    then show ?thesis using run True D1(8) o by (auto intro: exI [of _ "[]"])
  next
    case False
    then obtain f where f: "ofc = Some f" "live w1 = live w @ [(f, KFormat)]" "ordered w1"
      using D1 o by (auto split: if_splits)
    define ios where "ios = opt KIo pb"
    have w2: "live w2 = live w @ [(f, KFormat)] @ ios" "ordered w2"
      using D2 f by (auto simp: ios_def split: if_splits)
    have w3: "live w3 = live w @ [(f, KFormat)] @ ios" "ordered w3"
      using av_quiet_live [OF i3] w2 by simp_all
    have w4: "live w4 = (live w @ [(f, KFormat)] @ ios) @ opt KParams cp @ []" "ordered w4"
      using D4 w3 by (auto split: if_splits)
    have w5: "live w5 = live w4" "ordered w5"
      using w4 by (simp_all add: w5_def av_do_quiet_live ledger)
    have w6: "live w6 = live w @ [(f, KFormat)] @ ios" "ordered w6"
    proof -
      show "ordered w6" using w5 by (simp add: w6_def ledger)
      show "live w6 = live w @ [(f, KFormat)] @ ios"
      proof (cases cp)
        case None
        then show ?thesis using w4(1) w5(1) by (simp add: w6_def av_do_live [of _ None])
      next
        case (Some h)
        have "live w5 = (live w @ [(f, KFormat)] @ ios) @ (h, KParams) # []"
          using w4(1) w5(1) Some by simp
        from av_do_drop [OF w5(2) this, of "Parameters_free cp"] Some show ?thesis
          by (simp add: w6_def)
      qed
    qed
    have w7: "live w7 = live w @ [(f, KFormat)] @ ios" "ordered w7"
      using av_quiet_live [OF i7] w6 by simp_all
    have w8: "live w8 = live w @ [(f, KFormat)] @ ios" "ordered w8"
      using avD(1,8) [OF i8] b w7 by simp_all
    have fr: "live (av_do E (Format_free ofc) v) = live w @ ls" if "live v = live w @ [(f, KFormat)] @ ls"
      "ordered v" for v ls
      using av_do_drop [OF that(2), of "live w" f KFormat ls "Format_free ofc"] that(1) f(1) by simp
    have io1: "\<forall>a \<in> set ios. snd a = KIo" "length ios \<le> 1" by (cases pb; simp add: ios_def)+
    have w9: "live w9 = live w @ [(f, KFormat)] @ ios" "ordered w9"
      using w8 by (simp_all add: w9_def av_do_quiet_live ledger)
    have w10: "live w10 = live w @ [(f, KFormat)] @ opt KBuffer buf" "ordered w10" "buf \<noteq> None"
    proof -
      have "drop_handle pb (live w9) = live w @ [(f, KFormat)]"
      proof (cases pb)
        case None
        then show ?thesis using w9(1) by (simp add: ios_def)
      next
        case (Some h)
        then show ?thesis
          using drop_owned [OF w9(2), of "live w @ [(f, KFormat)]" h KIo "[]"] w9(1)
          by (simp add: ios_def)
      qed
      then show "live w10 = live w @ [(f, KFormat)] @ opt KBuffer buf" "ordered w10" "buf \<noteq> None"
        using D10(1,2,8) w9(2) by simp_all
    qed
    obtain h where h: "buf = Some h" using w10(3) by auto
    have w11: "live w11 = live w @ [(f, KFormat)] @ []" "ordered w11"
      using av_do_drop [OF w10(2), of "live w @ [(f, KFormat)]" h KBuffer "[]" "Av_free buf" E] w10 h
      by (simp_all add: w11_def ledger)
    show ?thesis
      using run False fr [OF w3] fr [OF w7] fr [OF w8] fr [OF w11] io1 w3(2) w7(2) w8(2) w11(2)
      by (auto simp: ledger split: if_splits)
  qed
qed

subsection \<open>What reaches the muxer\<close>

definition muxed :: "av_call list \<Rightarrow> packet list" where
  "muxed cs = List.map_filter (\<lambda>c. case c of Interleaved_write_frame _ p \<Rightarrow> Some p | _ \<Rightarrow> None) cs"

lemma muxed_append [simp]: "muxed (cs @ ds) = muxed cs @ muxed ds"
  by (simp add: muxed_def map_filter_def)

lemma muxed_Cons [simp]: "muxed (c # d # cs) = muxed [c] @ muxed (d # cs)"
  using muxed_append [of "[c]" "d # cs"] by simp

lemma muxed_simps [simp]:
  "muxed [Receive_packet c] = []" "muxed [Interleaved_write_frame f p] = [p]"
  "muxed [Packet_unref b] = []" "muxed [Alloc_output_context2 i j] = []" "muxed [Open_dyn_buf] = []"
  "muxed [New_stream f] = []" "muxed [Parameters_alloc] = []" "muxed [Parameters_copy f q a] = []"
  "muxed [Parameters_free q] = []" "muxed [Write_header f o'] = []" "muxed [Write_trailer f] = []"
  "muxed [Close_dyn_buf f] = []" "muxed [Av_free b] = []" "muxed [Format_free f] = []"
  "muxed [Send_frame c fr] = []"
  by (simp_all add: muxed_def map_filter_simps)

text \<open>The time stamps depend on the frame counter alone, not on the packet.\<close>

lemma stamp_times:
  "pts (stamp E e pk) = pts (stamp E e zero_packet)" "dts (stamp E e pk) = dts (stamp E e zero_packet)"
  "duration (stamp E e pk) = duration (stamp E e zero_packet)"
  by (simp_all add: stamp_def Let_def packet_rescale_ts_def split: prod.splits)

definition stamped :: "'x av_env \<Rightarrow> enc \<Rightarrow> packet \<Rightarrow> bool" where
  "stamped E e p \<longleftrightarrow> pts p = pts (stamp E e zero_packet) \<and> dts p = dts (stamp E e zero_packet)"

lemma remux_packet_muxed:
  assumes r: "remux_packet E e data (q, w) = (ok, q', w')"
  shows "\<exists>ps. muxed (calls w') = muxed (calls w) @ ps \<and> (\<forall>p \<in> set ps. stamped E e p \<and> pk_data p = data)
    \<and> (ok \<longrightarrow> length ps = 1)"
proof -
  obtain r1 ofc w1 where i1: "av E (Alloc_output_context2 (Some ''mp4'') None) w = (r1, ofc, w1)"
    by (metis prod_cases3)
  obtain r2 pb w2 where i2: "av E Open_dyn_buf w1 = (r2, pb, w2)" by (metis prod_cases3)
  obtain r3 p3 w3 where i3: "av E (New_stream ofc) w2 = (r3, p3, w3)" by (metis prod_cases3)
  obtain r4 cp w4 where i4: "av E Parameters_alloc w3 = (r4, cp, w4)" by (metis prod_cases3)
  define w5 where "w5 = av_do E (Parameters_copy ofc cp (stream_parameters e)) w4"
  define w6 where "w6 = av_do E (Parameters_free cp) w5"
  obtain r7 p7 w7 where i7: "av E (Write_header ofc (Some movflags)) w6 = (r7, p7, w7)"
    by (metis prod_cases3)
  define pk where "pk = stamp E e (zero_packet\<lparr>pk_data := data, pos := -1\<rparr>)"
  obtain r8 p8 w8 where i8: "av E (Interleaved_write_frame ofc pk) w7 = (r8, p8, w8)"
    by (metis prod_cases3)
  define w9 where "w9 = av_do E (Write_trailer ofc) w8"
  obtain r10 buf w10 where i10: "av E (Close_dyn_buf pb) w9 = (r10, buf, w10)" by (metis prod_cases3)
  define w11 where "w11 = av_do E (Av_free buf) w10"
  note run = r [unfolded remux_packet_run
    [OF i1 i2 i3 i4 w5_def w6_def i7 pk_def i8 w9_def i10 w11_def]]
  have c: "muxed (calls w1) = muxed (calls w)" "muxed (calls w3) = muxed (calls w)"
    "muxed (calls w7) = muxed (calls w)" "muxed (calls w8) = muxed (calls w) @ [pk]"
    "muxed (calls w11) = muxed (calls w) @ [pk]"
    using avD(5) [OF i1] avD(5) [OF i2] avD(5) [OF i3] avD(5) [OF i4] avD(5) [OF i7] avD(5) [OF i8]
      avD(5) [OF i10]
    by (simp_all add: w5_def w6_def w9_def w11_def ledger)
  have "stamped E e pk \<and> pk_data pk = data"
    using stamp_times [of E e "zero_packet\<lparr>pk_data := data, pos := -1\<rparr>"]
    by (simp add: stamped_def pk_def)
  then show ?thesis
    using run c by (auto simp: ledger split: if_splits)
qed

text \<open>
  One turn of the flush loop: a received packet becomes one fragment at the end of the queue, or
  the loop ends with the packet released.
\<close>

definition flush_post :: "'x av_env \<Rightarrow> enc \<Rightarrow> fragments \<times> 'x av \<Rightarrow> bool \<times> fragments \<times> 'x av \<Rightarrow> bool" where
  "flush_post E e s res \<longleftrightarrow>
     (case (s, res) of ((q, w), (ok, q', w')) \<Rightarrow> ordered w' \<and>
       (\<exists>fs ps ls. queue q' = queue q @ fs \<and> muxed (calls w') = muxed (calls w) @ ps \<and>
          (\<forall>p \<in> set ps. stamped E e p) \<and> live w' = live w @ ls \<and> (\<forall>a \<in> set ls. snd a = KIo) \<and>
          length ls \<le> 1 \<and> (ok \<longrightarrow> ls = [] \<and> length fs = length ps)))"

lemma flush_post_trans:
  assumes "flush_post E e (q, w) (True, q2, w2)" and "flush_post E e (q2, w2) res"
  shows "flush_post E e (q, w) res"
proof -
  obtain ok q' w' where res: "res = (ok, q', w')" by (metis prod_cases3)
  from assms obtain fs ps fs' ps' ls' where
    "queue q2 = queue q @ fs" "muxed (calls w2) = muxed (calls w) @ ps" "\<forall>p \<in> set ps. stamped E e p"
    "live w2 = live w" "length fs = length ps"
    "ordered w'" "queue q' = queue q2 @ fs'" "muxed (calls w') = muxed (calls w2) @ ps'"
    "\<forall>p \<in> set ps'. stamped E e p" "live w' = live w2 @ ls'" "\<forall>a \<in> set ls'. snd a = KIo"
    "length ls' \<le> 1" "ok \<longrightarrow> ls' = [] \<and> length fs' = length ps'"
    unfolding flush_post_def res by auto
  then show ?thesis
    unfolding flush_post_def res prod.case
    by (intro conjI exI [of _ "fs @ fs'"] exI [of _ "ps @ ps'"] exI [of _ ls']) auto
qed

lemma flush_stream_turn:
  assumes o: "ordered w" and i: "av E (Receive_packet (codec_context e)) w = (r, p, w1)"
    and ok: "\<not> a_rc r < 0" and m: "remux_packet E e data (q, w1) = (ok', q2, w2)"
  shows "flush_post E e (q, w) (ok', q2, av_do E (Packet_unref p) w2)"
proof -
  note D = avD [OF i]
  have w1: "live w1 = live w @ [(fresh w, KPacket)]" "p = Some (fresh w)" "ordered w1"
    "muxed (calls w1) = muxed (calls w)"
    using D ok o by simp_all
  note R = remux_packet_ledger [OF m w1(3)]
  obtain ps where ps: "muxed (calls w2) = muxed (calls w1) @ ps" "\<forall>p \<in> set ps. stamped E e p"
    "ok' \<longrightarrow> length ps = 1"
    using remux_packet_muxed [OF m] by auto
  obtain ls where ls: "live w2 = live w1 @ ls" "\<forall>a \<in> set ls. snd a = KIo" "length ls \<le> 1"
    "ok' \<longrightarrow> ls = []" "ordered w2"
    using R by (auto split: if_splits)
  have "live w2 = live w @ (fresh w, KPacket) # ls" using ls(1) w1(1) by simp
  from av_do_drop [OF ls(5) this, of "Packet_unref p" E] w1(2)
  have l: "live (av_do E (Packet_unref p) w2) = live w @ ls" by simp
  obtain fs where fs: "queue q2 = queue q @ fs" "ok' \<longrightarrow> length fs = 1"
    using R by (cases ok') auto
  show ?thesis
    unfolding flush_post_def prod.case
    using l ls ps fs w1(4) by (intro conjI exI [of _ fs] exI [of _ ps] exI [of _ ls]) (auto simp: ledger)
qed

lemma flush_stream_post:
  assumes ret: "flush_stream E e s = Some res" and "ordered (snd s)"
  shows "flush_post E e s res"
proof -
  have "ordered (snd s) \<longrightarrow> flush_post E e s res"
  proof (rule flush_stream.raw_induct
      [where P = "\<lambda>E e s res. ordered (snd s) \<longrightarrow> flush_post E e s res", OF _ ret], intro impI)
    fix f :: "'a av_env \<Rightarrow> enc \<Rightarrow> fragments \<times> 'a av \<Rightarrow> (bool \<times> fragments \<times> 'a av) option"
      and E e s res
    assume IH: "\<And>E e s res. f E e s = Some res \<Longrightarrow> ordered (snd s) \<longrightarrow> flush_post E e s res"
      and eq: "(case s of (q, w) \<Rightarrow>
      case av E (Receive_packet (codec_context e)) w of (r, p, w1) \<Rightarrow>
        if a_rc r = AVERROR EAGAIN \<or> a_rc r = AVERROR_EOF then Some (True, q, w1)
        else if a_rc r < 0 then Some (False, q, w1)
        else
          let pk = stamp E e ((a_pkt r)\<lparr>pk_buf := p\<rparr>)
          in if pts pk = AV_NOPTS_VALUE \<or> dts pk = AV_NOPTS_VALUE
             then Some (False, q, av_do E (Packet_unref p) w1)
             else case remux_packet E e (pk_data pk) (q, w1) of (ok, q2, w2) \<Rightarrow>
               if \<not> ok then Some (False, q2, av_do E (Packet_unref p) w2)
               else f E e (q2, av_do E (Packet_unref p) w2)) = Some res"
      and o: "ordered (snd s)"
    obtain q w where s: "s = (q, w)" by (cases s)
    obtain r p w1 where i: "av E (Receive_packet (codec_context e)) w = (r, p, w1)"
      by (metis prod_cases3)
    note D = avD [OF i]
    have stop: "flush_post E e s (b, q, v)" if "live v = live w" "ordered v"
      "muxed (calls v) = muxed (calls w)" for b v
      unfolding flush_post_def s prod.case using that
      by (intro conjI exI [of _ "[]"]) auto
    show "flush_post E e s res"
    proof (cases "a_rc r < 0")
      case True
      then have "flush_post E e s (b, q, w1)" for b using D o s by (intro stop) simp_all
      then show ?thesis using eq i True by (auto simp: s split: if_splits)
    next
      case False
      define pk where "pk = stamp E e ((a_pkt r)\<lparr>pk_buf := p\<rparr>)"
      obtain ok q2 w2 where m: "remux_packet E e (pk_data pk) (q, w1) = (ok, q2, w2)"
        by (metis prod_cases3)
      have w1: "live w1 = live w @ [(fresh w, KPacket)]" "p = Some (fresh w)" "ordered w1"
        using D False o s by simp_all
      have "flush_post E e s (False, q, av_do E (Packet_unref p) w1)"
        using av_do_drop [OF w1(3), of "live w" "fresh w" KPacket "[]" "Packet_unref p" E] w1 D(5)
        by (intro stop) (simp_all add: ledger)
      moreover have T: "flush_post E e s (ok, q2, av_do E (Packet_unref p) w2)"
        using flush_stream_turn [OF _ i False m] o by (simp add: s)
      moreover have "flush_post E e s res" if "ok" "f E e (q2, av_do E (Packet_unref p) w2) = Some res"
      proof -
        have "ordered (av_do E (Packet_unref p) w2)" using T by (simp add: flush_post_def s)
        with IH [OF that(2)] T that(1) show ?thesis unfolding s by (auto intro: flush_post_trans)
      qed
      moreover have "a_rc r \<noteq> AVERROR EAGAIN" "a_rc r \<noteq> AVERROR_EOF"
        using False by (auto simp: AVERROR_def EAGAIN_def AVERROR_EOF_def FFERRTAG_def MKTAG_def)
      ultimately show ?thesis
        using eq False by (auto simp: s i pk_def [symmetric] m Let_def split: if_splits)
    qed
  qed
  with assms show ?thesis by simp
qed

subsection \<open>Termination\<close>

lemma remux_packet_measure:
  assumes F: "codec_finite E m" and r: "remux_packet E e data (q, w) = (ok, q', w')"
  shows "m (ext w') \<le> m (ext w)"
proof -
  obtain r1 ofc w1 where i1: "av E (Alloc_output_context2 (Some ''mp4'') None) w = (r1, ofc, w1)"
    by (metis prod_cases3)
  obtain r2 pb w2 where i2: "av E Open_dyn_buf w1 = (r2, pb, w2)" by (metis prod_cases3)
  obtain r3 p3 w3 where i3: "av E (New_stream ofc) w2 = (r3, p3, w3)" by (metis prod_cases3)
  obtain r4 cp w4 where i4: "av E Parameters_alloc w3 = (r4, cp, w4)" by (metis prod_cases3)
  define w5 where "w5 = av_do E (Parameters_copy ofc cp (stream_parameters e)) w4"
  define w6 where "w6 = av_do E (Parameters_free cp) w5"
  obtain r7 p7 w7 where i7: "av E (Write_header ofc (Some movflags)) w6 = (r7, p7, w7)"
    by (metis prod_cases3)
  define pk where "pk = stamp E e (zero_packet\<lparr>pk_data := data, pos := -1\<rparr>)"
  obtain r8 p8 w8 where i8: "av E (Interleaved_write_frame ofc pk) w7 = (r8, p8, w8)"
    by (metis prod_cases3)
  define w9 where "w9 = av_do E (Write_trailer ofc) w8"
  obtain r10 buf w10 where i10: "av E (Close_dyn_buf pb) w9 = (r10, buf, w10)" by (metis prod_cases3)
  define w11 where "w11 = av_do E (Av_free buf) w10"
  note run = r [unfolded remux_packet_run
    [OF i1 i2 i3 i4 w5_def w6_def i7 pk_def i8 w9_def i10 w11_def]]
  note N = codec_finiteD(1) [OF F]
  have "m (ext w1) \<le> m (ext w)" using N [OF i1] by (simp add: is_send_def)
  moreover have "m (ext w2) \<le> m (ext w1)" using N [OF i2] by (simp add: is_send_def)
  moreover have "m (ext w3) \<le> m (ext w2)" using N [OF i3] by (simp add: is_send_def)
  moreover have "m (ext w4) \<le> m (ext w3)" using N [OF i4] by (simp add: is_send_def)
  moreover have "m (ext w5) \<le> m (ext w4)" unfolding w5_def by (rule codec_finite_do [OF F]) (simp add: is_send_def)
  moreover have "m (ext w6) \<le> m (ext w5)" unfolding w6_def by (rule codec_finite_do [OF F]) (simp add: is_send_def)
  moreover have "m (ext w7) \<le> m (ext w6)" using N [OF i7] by (simp add: is_send_def)
  moreover have "m (ext w8) \<le> m (ext w7)" using N [OF i8] by (simp add: is_send_def)
  moreover have "m (ext w9) \<le> m (ext w8)" unfolding w9_def by (rule codec_finite_do [OF F]) (simp add: is_send_def)
  moreover have "m (ext w10) \<le> m (ext w9)" using N [OF i10] by (simp add: is_send_def)
  moreover have "m (ext w11) \<le> m (ext w10)" unfolding w11_def by (rule codec_finite_do [OF F]) (simp add: is_send_def)
  moreover have "m (ext (av_do E (Format_free ofc) v)) \<le> m (ext v)" for v
    by (rule codec_finite_do [OF F]) (simp add: is_send_def)
  ultimately show ?thesis
    using run order_trans by (fastforce split: if_splits)
qed

lemma flush_stream_returns:
  assumes F: "codec_finite E m"
  shows "\<exists>ok q' w'. flush_stream E e (q, w) = Some (ok, q', w')"
proof (induction "m (ext w)" arbitrary: q w rule: less_induct)
  case less
  obtain r p w1 where i: "av E (Receive_packet (codec_context e)) w = (r, p, w1)"
    by (metis prod_cases3)
  define pk where "pk = stamp E e ((a_pkt r)\<lparr>pk_buf := p\<rparr>)"
  obtain ok q2 w2 where m: "remux_packet E e (pk_data pk) (q, w1) = (ok, q2, w2)"
    by (metis prod_cases3)
  show ?case
  proof (cases "a_rc r < 0")
    case True
    then show ?thesis by (subst flush_stream.simps) (auto simp: i)
  next
    case False
    have "m (ext w1) < m (ext w)" using codec_finiteD(2) [OF F i refl False] .
    moreover have "m (ext w2) \<le> m (ext w1)" using remux_packet_measure [OF F m] .
    moreover have "m (ext (av_do E (Packet_unref p) w2)) \<le> m (ext w2)"
      by (rule codec_finite_do [OF F]) (simp add: is_send_def)
    ultimately have "\<exists>ok q' w'. flush_stream E e (q2, av_do E (Packet_unref p) w2) = Some (ok, q', w')"
      by (intro less) simp
    then show ?thesis
      by (subst flush_stream.simps) (auto simp: i pk_def [symmetric] m Let_def)
  qed
qed

subsection \<open>Open that fails\<close>

text \<open>No call can break the empty condition on the calls, so the stages of \<open>Open\<close> keep the ledger.\<close>

abbreviation gained :: "(nat \<times> av_kind) list \<Rightarrow> (ptr \<times> av_kind) list \<Rightarrow> nat \<Rightarrow> enc \<times> 'x av \<Rightarrow> bool" where
  "gained \<equiv> at_stage (\<lambda>_. True)"

lemma gained_triple:
  assumes ok: "stage_ok (\<lambda>_. True) base fs n f m" and "n \<le> 5"
    and tl: "triple (gained base fs m) gs Q (within (\<lambda>_. True) base fs 5)"
  shows "triple (gained base fs n) (f # gs) Q (within (\<lambda>_. True) base fs 5)"
proof (rule triple_Cons [OF _ tl])
  fix s :: "enc \<times> 'a av"
  assume "gained base fs n s"
  from stage_ok_step [OF ok assms(2) this]
  show "case f s of (go, s') \<Rightarrow>
      if go then gained base fs m s' else within (\<lambda>_. True) base fs 5 s'" .
qed

lemma stream_ends_ok:
  "stage_ok (\<lambda>_. True) base fs 0 (st_mp4 E) 1"
  "stage_ok (\<lambda>_. True) base fs 4 (st_dyn_buf E) 5"
  "stage_ok (\<lambda>_. True) base fs 5 (st_stream_header E) 5"
proof -
  show "stage_ok (\<lambda>_. True) base fs 0 (st_mp4 E) 1"
    unfolding stage_ok_def st_mp4_def
    by (intro allI impI, rule alloc_stage_next) (auto simp: stage_simps split: if_splits)
  show "stage_ok (\<lambda>_. True) base fs 4 (st_dyn_buf E) 5"
    unfolding stage_ok_def st_dyn_buf_def
    by (intro allI impI, rule alloc_stage_next) (auto simp: stage_simps split: if_splits)
  have r: "reached 5 (fst s)" if "gained base fs 5 s" for s :: "enc \<times> 'a av"
    using that by (simp add: at_stage_def)
  show "stage_ok (\<lambda>_. True) base fs 5 (st_stream_header E) 5"
    unfolding stage_ok_def st_stream_header_def
    by (intro allI impI, rule test_stage_next)
      (use usable_owned(1) [OF r] in \<open>auto simp: same_ptrs_def\<close>)
qed

lemma stream_stages_triple:
  "triple (gained base fs 0) (stream_stages E p) (gained base fs 5) (within (\<lambda>_. True) base fs 5)"
  unfolding stream_stages_def
  apply (rule gained_triple [OF stream_ends_ok(1)], simp)
  apply (rule shared_stages_triple [OF open_neutral_True, where lim = 5], simp)
   apply (rule gained_triple [OF stream_ends_ok(2)], simp)
   apply (rule gained_triple [OF stream_ends_ok(3)], simp)
   apply (rule triple_Nil, assumption)
  apply assumption
  done

lemma reached_length: "reached n e \<Longrightarrow> n \<le> 5 \<Longrightarrow> length (owned e) = n"
  unfolding reached_def owned_def
  by (cases "n = 0"; cases "n = 1"; cases "n = 2"; cases "n = 3"; cases "n = 4"; cases "n = 5") auto

subsection \<open>Properties\<close>

lemma close_stream_closed [simp]: "\<not> is_open e \<Longrightarrow> close_stream E (e, q, w) = Some (e, q, w)"
  by (simp add: close_stream_def)


lemma counting_stream_fails:
  fixes p :: params
  shows "\<exists>e w. open_stream (counting_env (\<lambda>c. c = Frame_alloc)) p (empty_enc, new_queue, start_world 0)
      = Some (False, e, new_queue, w) \<and> format_context e = Some 0 \<and> codec_context e = Some 1 \<and> frame e = None"
  unfolding open_stream_def close_stream_def free_stream_def stream_stages_def shared_stages_def
    st_mp4_def st_codec_def st_stream_def st_context_def st_configure_def st_preset_def st_crf_def
    st_open_codec_def st_frame_def alloc_stage_def test_stage_def av_def invoke_def avlib_def
  by (simp add: empty_enc_def start_world_def configure_def split: option.splits)




text \<open>
  \<open>Close\<close> of an open stream encoder whose last flush goes through: everything the encoder held
  is released, the encoder is as constructed, and the queue has grown by the last fragments and,
  at its end, the container that the encoder's own muxer wrote into \<open>format_context->pb\<close>.
\<close>

theorem stream_close:
  assumes "flush_stream E e (q, av_do E (Send_frame (codec_context e) None) w) = Some (True, q1, w1)"
    and "is_open e" and "reached 5 e" and "live w = base @ owned e" and "ordered w"
  shows "\<exists>q' w' fs d. close_stream E (e, q, w) = Some (empty_enc, q', w') \<and> live w' = base \<and>
     queue q' = queue q @ fs @ [d]"
proof -
  define w0 where "w0 = av_do E (Send_frame (codec_context e) None) w"
  have w0: "ordered w0" "live w0 = base @ owned e"
    using assms(4,5) by (simp_all add: w0_def ledger av_do_quiet_live)
  from flush_stream_post [OF assms(1) [folded w0_def]] w0 obtain fs where
    w1: "ordered w1" "live w1 = base @ owned e" "queue q1 = queue q @ fs"
    unfolding flush_post_def by auto
  define w2 where "w2 = av_do E (Write_trailer (format_context e)) w1"
  have w2: "ordered w2" "live w2 = base @ owned e"
    using w1 by (simp_all add: w2_def ledger av_do_quiet_live)
  obtain r buf w3 where i: "av E (Close_dyn_buf (io e)) w2 = (r, buf, w3)" by (metis prod_cases3)
  obtain h where h: "io e = Some h" using assms(3) by (auto simp: reached_def)
  have l2: "live w2 = (base @ owned (e\<lparr>io := None\<rparr>)) @ (h, KIo) # []"
    using w2(2) h by (simp add: owned_def)
  have w3: "live w3 = (base @ owned (e\<lparr>io := None\<rparr>)) @ (fresh w2, KBuffer) # []" "ordered w3"
    "buf = Some (fresh w2)"
    using avD(1,2,8) [OF i] drop_owned [OF w2(1) l2] w2(1) h by simp_all
  define w4 where "w4 = av_do E (Av_free buf) w3"
  have w4: "live w4 = base @ owned (e\<lparr>io := None\<rparr>)" "ordered w4"
    using av_do_drop [OF w3(2,1), of "Av_free buf" E] w3 by (simp_all add: w4_def ledger)
  obtain w5 where "free_all E (e, w4) = (empty_enc, w5)" "live w5 = base"
    using free_all_ledger [OF w4] by blast
  then have "close_stream E (e, q, w) = Some (empty_enc, push (a_data r) q1, w5)"
    using assms(1,2) i unfolding w2_def w4_def
    by (simp add: close_stream_def free_stream_eq Let_def)
  then show ?thesis using \<open>live w5 = base\<close> w1(3) by simp
qed

definition open_example :: enc where
  "open_example = empty_enc\<lparr>is_open := True, format_context := Some 0, codec_context := Some 1,
     frame := Some 2, sws_context := Some 3, io := Some 4, cc := zero_fields\<rparr>"

definition world_example :: "nat av" where
  "world_example = \<lparr>ext = 0, fresh = 5,
     live = [(0, KFormat), (1, KCodec), (2, KFrame), (3, KSws), (4, KIo)], faults = [], calls = []\<rparr>"

lemma example_flush:
  "\<exists>q w. flush_stream (counting_env (\<lambda>_. False)) open_example
     (new_queue, av_do (counting_env (\<lambda>_. False)) (Send_frame (codec_context open_example) None)
        world_example) = Some (True, q, w)"
  unfolding open_example_def world_example_def
  apply (subst flush_stream.simps)
  apply (simp add: av_do_def av_def invoke_def avlib_def remux_packet_def stamp_def
      packet_rescale_ts_def empty_enc_def zero_fields_def AVERROR_def EAGAIN_def AVERROR_EOF_def
      FFERRTAG_def MKTAG_def AV_NOPTS_VALUE_def zero_packet_def)
  apply (subst flush_stream.simps)
  apply (simp add: av_do_def av_def invoke_def avlib_def AVERROR_def EAGAIN_def)
  done

theorem stream_close_witness:
  "\<exists>q' w' fs d. close_stream (counting_env (\<lambda>_. False)) (open_example, new_queue, world_example)
      = Some (empty_enc, q', w') \<and> live w' = [] \<and> queue q' = queue new_queue @ fs @ [d]"
proof -
  have "is_open open_example" "reached 5 open_example" "live world_example = [] @ owned open_example"
    "ordered world_example"
    by (simp_all add: open_example_def world_example_def reached_def owned_def ordered_def)
  with example_flush stream_close show ?thesis by blast
qed

end
