(* ===== verification/MediaFile.thy ===== *)
theory MediaFile
  imports Camera StreamEncoder
begin

text \<open>
  \<open>videoStream::remuxVideo\<close> and \<open>videoStream::playVideo\<close> (src/CStreamVideo.cpp): copying a file into a
  new container, and decoding one to the observer at the pace of its timestamps.  An index into
  \<open>streams\<close> that is out of range is \<open>OutOfBounds\<close>.  A container that never ends is \<open>None\<close>.
\<close>

subsection \<open>remuxVideo\<close>

fun copy_streams :: "'x av_env \<Rightarrow> ptr \<Rightarrow> ptr \<Rightarrow> nat \<Rightarrow> nat \<Rightarrow> 'x av \<Rightarrow> bool \<times> 'x av" where
  "copy_streams E ifc ofc i 0 w = (True, w)"
| "copy_streams E ifc ofc i (Suc n) w =
     (case av E (New_stream ofc) w of (r, _, w) \<Rightarrow>
      if \<not> a_ok r then (False, av_do E (Format_free ofc) (av_do E (Close_input ifc) w))
      else case av E (Copy_stream_parameters ofc ifc i) w of (r, _, w) \<Rightarrow>
      if a_rc r < 0 then (False, av_do E (Format_free ofc) (av_do E (Close_input ifc) w))
      else copy_streams E ifc ofc (Suc i) n w)"

definition remuxed_packet :: "'x av_env \<Rightarrow> rational \<Rightarrow> rational \<Rightarrow> packet \<Rightarrow> packet" where
  "remuxed_packet E src dst p = p\<lparr>pts := rescale_rnd E (pts p) src dst, dts := rescale_rnd E (dts p) src dst,
     duration := rescale_q E (duration p) src dst, pos := -1\<rparr>"

partial_function (option) remux_loop :: "'x av_env \<Rightarrow> ptr \<Rightarrow> ptr \<Rightarrow> stream_info list \<Rightarrow> stream_info list \<Rightarrow>
    'x av \<Rightarrow> (unit, 'x av) outcome option" where
  "remux_loop E ifc ofc ins outs w =
     (case av E (Read_frame ifc) w of (r, p, w1) \<Rightarrow>
      if a_rc r < 0 then Some (Ret w1)
      else let pk = (a_pkt r)\<lparr>pk_buf := p\<rparr>; i = stream_index pk in
      if i < 0 \<or> int (length ins) \<le> i \<or> int (length outs) \<le> i then Some OutOfBounds
      else case av E (Interleaved_write_frame ofc (remuxed_packet E (si_time_base (ins ! nat i))
                        (si_time_base (outs ! nat i)) pk)) w1 of (r2, _, w2) \<Rightarrow>
      if a_rc r2 < 0 then Some (Ret w2)
      else remux_loop E ifc ofc ins outs (av_do E (Packet_unref None) w2))"

definition remux_body :: "'x av_env \<Rightarrow> ptr \<Rightarrow> ptr \<Rightarrow> ptr \<Rightarrow> bool \<Rightarrow> stream_info list \<Rightarrow> 'x av \<Rightarrow>
    (unit, bool \<times> 'x av) outcome option" where
  "remux_body E ifc ofc pb nofile ins w =
     (let w = av_do E (Set_metadata ofc ''movflags'' movflags) w in
      case av E (Write_header ofc None) w of (r, _, w) \<Rightarrow>
      if a_rc r < 0
      then Some (Ret (False, av_do E (Format_free ofc) (av_do E (Close_input ifc) w)))
      else case remux_loop E ifc ofc ins (a_streams r) w of
        None \<Rightarrow> None
      | Some (Ret w) \<Rightarrow>
          let w = av_do E (Write_trailer ofc) w;
              w = av_do E (Close_input ifc) w;
              w = (if \<not> nofile then av_do E (Avio_close pb) w else w)
          in Some (Ret (True, av_do E (Format_free ofc) w))
      | Some _ \<Rightarrow> Some OutOfBounds)"

definition remux_file :: "'x av_env \<Rightarrow> string \<Rightarrow> string \<Rightarrow> 'x av \<Rightarrow> (unit, bool \<times> 'x av) outcome option" where
  "remux_file E input output w =
     (case av E (Open_input None input) w of (r, ifc, w) \<Rightarrow>
      if a_rc r < 0 then Some (Ret (False, w))
      else case av E (Find_stream_info ifc) w of (r, _, w) \<Rightarrow>
      if a_rc r < 0 then Some (Ret (False, av_do E (Close_input ifc) w))
      else let ins = a_streams r in
      case av E (Alloc_output_context2 (Some ''mp4'') (Some output)) w of (r, ofc, w) \<Rightarrow>
      if ofc = None then Some (Ret (False, av_do E (Close_input ifc) w))
      else let nofile = a_nofile r in
      case copy_streams E ifc ofc 0 (length ins) w of (ok, w) \<Rightarrow>
      if \<not> ok then Some (Ret (False, w))
      else if nofile then remux_body E ifc ofc None True ins w
      else case av E (Avio_open ofc (Some output)) w of (r, pb, w) \<Rightarrow>
      if a_rc r < 0
      then Some (Ret (False, av_do E (Format_free ofc) (av_do E (Close_input ifc) w)))
      else remux_body E ifc ofc pb False ins w)"

subsection \<open>playVideo\<close>

definition AV_TIME_BASE_Q :: rational where
  "AV_TIME_BASE_Q = \<lparr>rnum = 1, rden = 1000000\<rparr>"

text \<open>One decoded frame: convert, show, free, then wait until its time has come.\<close>

definition show_frame :: "'x av_env \<Rightarrow> bool \<Rightarrow> ptr \<Rightarrow> int \<Rightarrow> rational \<Rightarrow> int \<Rightarrow> av_answer \<Rightarrow> 'x av \<Rightarrow> 'x av" where
  "show_frame E observed fr pixfmt timeBase startTime r w =
     (let wd = a_w r; ht = a_h r in
      case av E Frame_alloc w of (_, rgb, w) \<Rightarrow>
      case av E (Image_get_buffer_size wd ht) w of (rs, _, w) \<Rightarrow>
      case av E (Av_malloc (a_rc rs)) w of (_, buf, w) \<Rightarrow>
      case av E (Sws_getContext wd ht pixfmt wd ht AV_PIX_FMT_RGB24 SWS_BILINEAR)
             (av_do E (Image_fill_arrays rgb buf) w) of (_, sws, w) \<Rightarrow>
      let w = av_do E (Sws_scale sws fr rgb 0 ht) w;
          w = (if observed then av_do E (Notify buf wd ht) w else w);
          w = av_do E (Av_free buf) w;
          w = av_do E (Frame_free rgb) w;
          w = av_do E (Sws_free sws) w
      in case av E Now w of (rn, _, w) \<Rightarrow>
      let delay = rescale_q E (a_pts r) timeBase AV_TIME_BASE_Q - (a_pts rn - startTime)
      in if delay > 0 then av_do E (Sleep_us delay) w else w)"

partial_function (option) show_frames :: "'x av_env \<Rightarrow> bool \<Rightarrow> ptr \<Rightarrow> ptr \<Rightarrow> int \<Rightarrow> rational \<Rightarrow> int \<Rightarrow>
    'x av \<Rightarrow> 'x av option" where
  "show_frames E observed dec fr pixfmt timeBase startTime w =
     (case av E (Receive_frame dec fr) w of (r, _, w1) \<Rightarrow>
      if a_rc r \<noteq> 0 then Some w1
      else show_frames E observed dec fr pixfmt timeBase startTime
             (show_frame E observed fr pixfmt timeBase startTime r w1))"

partial_function (option) play_loop :: "'x av_env \<Rightarrow> bool \<Rightarrow> ptr \<Rightarrow> ptr \<Rightarrow> ptr \<Rightarrow> int \<Rightarrow> int \<Rightarrow> rational \<Rightarrow>
    int \<Rightarrow> 'x av \<Rightarrow> 'x av option" where
  "play_loop E observed fmt dec fr idx pixfmt timeBase startTime w =
     (case av E (Read_frame fmt) w of (r, p, w1) \<Rightarrow>
      if a_rc r < 0 then Some w1
      else if stream_index (a_pkt r) \<noteq> idx
      then play_loop E observed fmt dec fr idx pixfmt timeBase startTime w1
      else case av E (Send_packet dec ((a_pkt r)\<lparr>pk_buf := p\<rparr>)) w1 of (rs, _, w2) \<Rightarrow>
      if a_rc rs \<noteq> 0
      then play_loop E observed fmt dec fr idx pixfmt timeBase startTime (av_do E (Packet_unref p) w2)
      else case show_frames E observed dec fr pixfmt timeBase startTime w2 of
        None \<Rightarrow> None
      | Some w3 \<Rightarrow> play_loop E observed fmt dec fr idx pixfmt timeBase startTime
                     (av_do E (Packet_unref p) w3))"

text \<open>What is done for the first video stream, from finding its decoder to the end of the file.\<close>

definition play_stream :: "'x av_env \<Rightarrow> bool \<Rightarrow> ptr \<Rightarrow> ptr \<Rightarrow> int \<Rightarrow> stream_info \<Rightarrow> 'x av \<Rightarrow> 'x av option" where
  "play_stream E observed fr fmt idx s w =
     (case av E (Find_decoder (si_codec s)) w of (rd, _, w) \<Rightarrow>
      if \<not> a_ok rd then Some (av_do E (Close_input fmt) w)
      else case av E Alloc_context3 w of (_, dec, w) \<Rightarrow>
      if dec = None then Some (av_do E (Close_input fmt) w)
      else case av E (Parameters_to_context dec) w of (rp, _, w) \<Rightarrow>
      if a_rc rp < 0 then Some (av_do E (Close_input fmt) (av_do E (Codec_free dec) w))
      else case av E (Open_codec dec zero_fields) w of (ro, _, w) \<Rightarrow>
      if a_rc ro < 0 then Some (av_do E (Close_input fmt) (av_do E (Codec_free dec) w))
      else case av E Now w of (rt, _, w) \<Rightarrow>
      map_option
        (\<lambda>w. av_do E (Close_input fmt) (av_do E (Codec_free dec) (av_do E (Frame_free fr) w)))
        (play_loop E observed fmt dec fr idx (a_w ro) (si_time_base s) (a_pts rt) w))"

definition play_video :: "'x av_env \<Rightarrow> bool \<Rightarrow> string \<Rightarrow> 'x av \<Rightarrow> 'x av option" where
  "play_video E observed filename w =
     (case av E Frame_alloc w of (_, fr, w) \<Rightarrow>
      case av E (Open_input None filename) w of (r, fmt, w) \<Rightarrow>
      if a_rc r < 0 then Some w
      else case av E (Find_stream_info fmt) w of (rs, _, w) \<Rightarrow>
      if a_rc rs < 0 then Some (av_do E (Close_input fmt) w)
      else case find_video 0 (a_streams rs) of
        None \<Rightarrow> Some (av_do E (Close_input fmt) w)
      | Some (idx, s) \<Rightarrow> play_stream E observed fr fmt idx s w)"

subsection \<open>The ledger of remuxVideo\<close>

lemma led_release:
  assumes "led (xs @ (h, kd) # ys) fs w" and "av E k w = (r, p, w')" and "\<And>r. av_creates k r = None"
    and "\<And>r. av_releases k r = Some h" and "\<And>a. a \<in> set (av_uses k) \<Longrightarrow> usable (xs @ (h, kd) # ys) a"
  shows "led (xs @ ys) fs w'"
  using assms(1) drop_owned [of w xs h kd ys] avD [OF assms(2)] assms(3-5)
  by (simp add: led_def filter_empty_conv)

text \<open>Releasing the last two handles, the order in which the failing paths do it.\<close>

lemma led_drop2:
  assumes "led (base @ [(f, KFormat), (g, KFormat)] @ ls) fs w"
  shows "led (base @ ls) fs (av_do E (Format_free (Some g)) (av_do E (Close_input (Some f)) w))"
proof -
  have "led (base @ (g, KFormat) # ls) fs (av_do E (Close_input (Some f)) w)"
    using led_drop [of base f KFormat "(g, KFormat) # ls" fs w "Close_input (Some f)" E] assms by simp
  from led_drop [OF this] show ?thesis by simp
qed

lemma copy_streams_ledger:
  assumes "copy_streams E (Some f) (Some g) i n w = (ok, w')"
    and "led (base @ [(f, KFormat), (g, KFormat)]) fs w"
  shows "if ok then led (base @ [(f, KFormat), (g, KFormat)]) fs w' else led base fs w'"
  using assms
proof (induction n arbitrary: i w)
  case 0
  then show ?case by simp
next
  case (Suc n)
  obtain r p w1 where i1: "av E (New_stream (Some g)) w = (r, p, w1)" by (metis prod_cases3)
  obtain r2 p2 w2 where i2: "av E (Copy_stream_parameters (Some g) (Some f) i) w1 = (r2, p2, w2)"
    by (metis prod_cases3)
  have l1: "led (base @ [(f, KFormat), (g, KFormat)]) fs w1"
    by (rule led_same [OF Suc.prems(2) i1]) auto
  have l2: "led (base @ [(f, KFormat), (g, KFormat)]) fs w2" by (rule led_same [OF l1 i2]) auto
  show ?case
    using Suc.prems(1) Suc.IH [OF _ l2, of "Suc i"] led_drop2 [of base f g "[]" fs _ E] l1 l2
    by (auto simp: i1 i2 split: if_splits)
qed

lemma remux_loop_ledger:
  assumes ret: "remux_loop E (Some f) (Some g) ins outs w = Some (Ret w')"
    and own: "(f, KFormat) \<in> set base" "(g, KFormat) \<in> set base" and l: "led base fs w"
  shows "led base fs w'"
proof -
  have "led base fs w \<longrightarrow> ifc = Some f \<longrightarrow> ofc = Some g \<longrightarrow> (\<forall>w'. res = Ret w' \<longrightarrow> led base fs w')"
    if ret: "remux_loop E ifc ofc ins outs w = Some res" for ifc ofc res
  proof (rule remux_loop.raw_induct [where P = "\<lambda>E ifc ofc ins outs w res.
      led base fs w \<longrightarrow> ifc = Some f \<longrightarrow> ofc = Some g \<longrightarrow> (\<forall>w'. res = Ret w' \<longrightarrow> led base fs w')",
      OF _ ret], intro impI allI)
    fix loop E ifc ofc ins outs w and res :: "(unit, 'a av) outcome" and w'
    assume IH: "\<And>E ifc ofc ins outs w res. loop E ifc ofc ins outs w = Some res \<Longrightarrow>
        led base fs w \<longrightarrow> ifc = Some f \<longrightarrow> ofc = Some g \<longrightarrow> (\<forall>w'. res = Ret w' \<longrightarrow> led base fs w')"
      and eq: "(case av E (Read_frame ifc) w of (r, p, w1) \<Rightarrow>
      if a_rc r < 0 then Some (Ret w1)
      else let pk = (a_pkt r)\<lparr>pk_buf := p\<rparr>; i = stream_index pk in
      if i < 0 \<or> int (length ins) \<le> i \<or> int (length outs) \<le> i then Some OutOfBounds
      else case av E (Interleaved_write_frame ofc (remuxed_packet E (si_time_base (ins ! nat i))
                        (si_time_base (outs ! nat i)) pk)) w1 of (r2, _, w2) \<Rightarrow>
      if a_rc r2 < 0 then Some (Ret w2)
      else loop E ifc ofc ins outs (av_do E (Packet_unref None) w2)) = Some res"
      and l: "led base fs w" and c: "ifc = Some f" "ofc = Some g" and res: "res = Ret w'"
    obtain r p w1 where i1: "av E (Read_frame (Some f)) w = (r, p, w1)" by (metis prod_cases3)
    define pk where "pk = (a_pkt r)\<lparr>pk_buf := p\<rparr>"
    let ?i = "stream_index pk"
    define out where "out = remuxed_packet E (si_time_base (ins ! nat ?i)) (si_time_base (outs ! nat ?i)) pk"
    have b: "pk_buf out = p" by (simp add: out_def pk_def remuxed_packet_def)
    obtain r2 q w2 where i2: "av E (Interleaved_write_frame (Some g) out) w1 = (r2, q, w2)"
      by (metis prod_cases3)
    note run = eq [unfolded c i1 prod.case Let_def, folded pk_def, folded out_def, unfolded i2 prod.case]
    note new = led_new [OF l i1]
    show "led base fs w'"
    proof (cases p)
      case None
      then have "a_rc r < 0" "led base fs w1" using new own by (auto split: if_splits)
      then show ?thesis using run res by simp
    next
      case (Some h)
      then have rc: "\<not> a_rc r < 0" and l1: "led (base @ [(h, KPacket)]) fs w1"
        using new own by (auto split: if_splits)
      have "led (base @ []) fs w2"
        by (rule led_release [OF _ i2]) (use l1 b Some own in auto)
      then have l2: "led base fs w2" by simp
      have l3: "led base fs (av_do E (Packet_unref None) w2)"
        by (rule led_same_do [OF l2]) simp_all
      show ?thesis
        using run rc res l2 IH [OF _, of E "Some f" "Some g" ins outs] l3 by (auto split: if_splits)
    qed
  qed
  with ret l show ?thesis by blast
qed

lemma remux_body_ledger:
  assumes r: "remux_body E (Some f) (Some g) pb nofile ins w = Some (Ret (ok, w'))"
    and l: "led (base @ [(f, KFormat), (g, KFormat)] @ opt KIo pb) fs w"
    and pb: "nofile \<longleftrightarrow> pb = None"
  shows "if ok then led base fs w' else led (base @ opt KIo pb) fs w'"
proof -
  let ?ls = "base @ [(f, KFormat), (g, KFormat)] @ opt KIo pb"
  define w1 where "w1 = av_do E (Set_metadata (Some g) ''movflags'' movflags) w"
  have l1: "led ?ls fs w1" unfolding w1_def by (rule led_same_do [OF l]) auto
  obtain rh ph w2 where i2: "av E (Write_header (Some g) None) w1 = (rh, ph, w2)"
    by (metis prod_cases3)
  have l2: "led ?ls fs w2" by (rule led_same [OF l1 i2]) auto
  note run = r [unfolded remux_body_def Let_def, folded w1_def, unfolded i2 prod.case]
  show ?thesis
  proof (cases "a_rc rh < 0")
    case True
    then show ?thesis using run led_drop2 [OF l2, of E] by auto
  next
    case False
    then obtain w3 where loop: "remux_loop E (Some f) (Some g) ins (a_streams rh) w2 = Some (Ret w3)"
      using run by (auto split: option.splits outcome.splits)
    have l3: "led ?ls fs w3" by (rule remux_loop_ledger [OF loop _ _ l2]) auto
    define w4 where "w4 = av_do E (Write_trailer (Some g)) w3"
    have l4: "led ?ls fs w4" unfolding w4_def by (rule led_same_do [OF l3]) auto
    define w5 where "w5 = av_do E (Close_input (Some f)) w4"
    have l5: "led (base @ (g, KFormat) # opt KIo pb) fs w5"
      using led_drop [of base f KFormat "(g, KFormat) # opt KIo pb" fs w4 "Close_input (Some f)" E] l4
      by (simp add: w5_def)
    define w6 where "w6 = (if \<not> nofile then av_do E (Avio_close pb) w5 else w5)"
    have l6: "led (base @ [(g, KFormat)]) fs w6"
    proof (cases pb)
      case None
      then show ?thesis using l5 pb by (simp add: w6_def)
    next
      case (Some h)
      then show ?thesis
        using led_drop [of "base @ [(g, KFormat)]" h KIo "[]" fs w5 "Avio_close pb" E] l5 pb
        by (simp add: w6_def)
    qed
    have "led base fs (av_do E (Format_free (Some g)) w6)"
      using led_drop [of base g KFormat "[]" fs w6 "Format_free (Some g)" E] l6 by simp
    moreover have "ok" "w' = av_do E (Format_free (Some g)) w6"
      using run False loop by (simp_all add: w4_def w5_def w6_def split: if_splits)
    ultimately show ?thesis by simp
  qed
qed

text \<open>What \<open>remuxVideo\<close> may leave behind: nothing on success, at most the output file otherwise.\<close>

definition left_behind :: "(nat \<times> av_kind) list \<Rightarrow> (ptr \<times> av_kind) list \<Rightarrow> bool \<Rightarrow> 'x av \<Rightarrow> bool" where
  "left_behind base fs ok w \<longleftrightarrow>
     (\<exists>ls. led (base @ ls) fs w \<and> list_all (\<lambda>a. snd a = KIo) ls \<and> length ls \<le> (if ok then 0 else 1))"

lemma left_nothing: "led base fs w \<Longrightarrow> left_behind base fs ok w"
  unfolding left_behind_def by (rule exI [of _ "[]"]) simp

text \<open>The end of \<open>remuxVideo\<close>, once both files have their contexts: the output is opened and written.\<close>

lemma remux_output_ledger:
  assumes "(if nofile then remux_body E (Some f) (Some g) None True ins w
     else case av E (Avio_open (Some g) (Some dst)) w of (r, pb, w) \<Rightarrow>
       if a_rc r < 0 then Some (Ret (False, av_do E (Format_free (Some g)) (av_do E (Close_input (Some f)) w)))
       else remux_body E (Some f) (Some g) pb False ins w) = Some (Ret (ok, w'))"
    and l: "led (base @ [(f, KFormat), (g, KFormat)]) fs w"
  shows "left_behind base fs ok w'"
proof (cases nofile)
  case True
  then have "remux_body E (Some f) (Some g) None True ins w = Some (Ret (ok, w'))" using assms(1) by simp
  from remux_body_ledger [OF this, of base fs] l show ?thesis by (auto intro: left_nothing split: if_splits)
next
  case False
  obtain r pb w1 where i: "av E (Avio_open (Some g) (Some dst)) w = (r, pb, w1)" by (metis prod_cases3)
  note new = led_new [OF l i] and run = assms(1) [unfolded i prod.case]
  show ?thesis
  proof (cases pb)
    case None
    then have "a_rc r < 0" "led (base @ [(f, KFormat), (g, KFormat)] @ []) fs w1" using new by (auto split: if_splits)
    with led_drop2 [OF this(2), of E] show ?thesis using run False by (auto intro: left_nothing)
  next
    case (Some h)
    then have rc: "\<not> a_rc r < 0" and l1: "led (base @ [(f, KFormat), (g, KFormat)] @ opt KIo pb) fs w1"
      using new by (auto split: if_splits)
    have "remux_body E (Some f) (Some g) pb False ins w1 = Some (Ret (ok, w'))" using run rc False by simp
    from remux_body_ledger [OF this l1] Some have "led (base @ (if ok then [] else [(h, KIo)])) fs w'"
      by (auto split: if_splits)
    then show ?thesis
      unfolding left_behind_def by (rule exI [of _ "if ok then [] else [(h, KIo)]", OF conjI]) simp
  qed
qed

lemma remux_file_ledger:
  assumes r: "remux_file E input output w = Some (Ret (ok, w'))" and l: "led base fs w"
  shows "left_behind base fs ok w'"
proof -
  obtain r1 ifc w1 where i1: "av E (Open_input None input) w = (r1, ifc, w1)" by (metis prod_cases3)
  obtain r2 p2 w2 where i2: "av E (Find_stream_info ifc) w1 = (r2, p2, w2)" by (metis prod_cases3)
  obtain r3 ofc w3 where i3: "av E (Alloc_output_context2 (Some ''mp4'') (Some output)) w2 = (r3, ofc, w3)"
    by (metis prod_cases3)
  obtain cok w4 where i4: "copy_streams E ifc ofc 0 (length (a_streams r2)) w3 = (cok, w4)" by (metis prod.exhaust)
  note run = r [unfolded remux_file_def i1 prod.case i2 Let_def i3 i4] and new = led_new [OF l i1]
  show ?thesis
  proof (cases ifc)
    case None
    then have "a_rc r1 < 0" "led base fs w1" using new by (auto split: if_splits)
    then show ?thesis using run by (auto intro: left_nothing)
  next
    case (Some f)
    then have rc1: "\<not> a_rc r1 < 0" and l1: "led (base @ [(f, KFormat)]) fs w1" using new by (auto split: if_splits)
    have l2: "led (base @ [(f, KFormat)]) fs w2" by (rule led_same [OF l1 i2]) (auto simp: Some)
    have closed: "left_behind base fs k (av_do E (Close_input ifc) v)" if "led (base @ [(f, KFormat)]) fs v" for v k
      using led_drop [of base f KFormat "[]" fs v "Close_input ifc" E] that Some by (auto intro: left_nothing)
    note new3 = led_new [OF l2 i3]
    show ?thesis
    proof (cases "a_rc r2 < 0 \<or> ofc = None")
      case True
      moreover have "led (base @ [(f, KFormat)]) fs w3" if "ofc = None" using new3 that by simp
      ultimately show ?thesis using run rc1 closed [OF l2] closed [of w3] by (auto split: if_splits)
    next
      case False
      then obtain g where g: "ofc = Some g" and rc2: "\<not> a_rc r2 < 0" by auto
      then have "led (base @ [(f, KFormat), (g, KFormat)]) fs w3" using new3 by (auto split: if_splits)
      note C = copy_streams_ledger [OF i4 [unfolded Some g] this]
      show ?thesis
      proof (cases cok)
        case False
        then show ?thesis using run rc1 rc2 g C by (auto intro: left_nothing)
      next
        case True
        then have l4: "led (base @ [(f, KFormat), (g, KFormat)]) fs w4" using C by simp
        show ?thesis
          by (rule remux_output_ledger [where nofile = "a_nofile r3" and E = E and f = f and g = g and ins = "a_streams r2" and dst = "output", OF _ l4])
            (use run [unfolded Some g] rc1 rc2 True in simp)
      qed
    qed
  qed
qed

text \<open>
  C36.  \<open>remuxVideo\<close> on a file, whenever it returns.  When it answers true, all it opened has been
  released; when it answers false, everything but possibly the output file has: if the header
  cannot be written, the output stays open.  In no case is a call given a bad handle.
\<close>

theorem remux_file_releases:
  assumes r: "remux_file E input output w = Some (Ret (ok, w'))" and o: "ordered w"
  shows "faults w' = faults w \<and> (\<exists>ls. live w' = live w @ ls \<and> list_all (\<lambda>a. snd a = KIo) ls \<and>
     length ls \<le> (if ok then 0 else 1))"
proof -
  have "led (live w) (faults w) w" using o by (simp add: led_def)
  from remux_file_ledger [OF r this] show ?thesis by (auto simp: left_behind_def led_def)
qed

lemma example_remux:
  "\<exists>w. remux_file (counting_env (\<lambda>c. case c of Write_header _ _ \<Rightarrow> True | _ \<Rightarrow> False)) ''a.mp4'' ''b.mp4''
     (start_world 0) = Some (Ret (False, w)) \<and> live w = [(2, KIo)]"
  by (simp add: remux_file_def remux_body_def av_do_def av_def invoke_def avlib_def start_world_def)

theorem remux_file_releases_witness:
  "\<exists>w. remux_file (counting_env (\<lambda>c. case c of Write_header _ _ \<Rightarrow> True | _ \<Rightarrow> False)) ''a.mp4'' ''b.mp4''
     (start_world 0) = Some (Ret (False, w)) \<and> faults w = [] \<and> length (live w) = 1"
proof -
  obtain w where w: "remux_file (counting_env (\<lambda>c. case c of Write_header _ _ \<Rightarrow> True | _ \<Rightarrow> False))
      ''a.mp4'' ''b.mp4'' (start_world 0) = Some (Ret (False, w))" "live w = [(2, KIo)]"
    using example_remux by blast
  from remux_file_releases [OF w(1) ordered_start] w show ?thesis
    by (simp add: start_world_def)
qed

subsection \<open>The ledger of playVideo\<close>

text \<open>The library has memory: frames, buffers and scalers are never refused.\<close>

definition memory_ok :: "'x av_env \<Rightarrow> bool" where
  "memory_ok E \<longleftrightarrow> (\<forall>x. a_ok (fst (answers E Frame_alloc x))) \<and>
     (\<forall>n x. a_ok (fst (answers E (Av_malloc n) x))) \<and>
     (\<forall>a b c d e f g x. a_ok (fst (answers E (Sws_getContext a b c d e f g) x)))"

lemma memory_okD:
  assumes "memory_ok E" and "av E k w = (r, p, w')"
  shows "k = Frame_alloc \<Longrightarrow> a_ok r" and "k = Av_malloc n \<Longrightarrow> a_ok r"
    and "k = Sws_getContext a b c d e f g \<Longrightarrow> a_ok r"
  using assms(1) avD(7) [OF assms(2)] by (simp_all add: memory_ok_def)

lemma led_get:
  assumes "led ls fs w" and "av E k w = (r, p, w')" and "\<And>r. av_releases k r = None"
    and "\<And>a. a \<in> set (av_uses k) \<Longrightarrow> usable ls a" and "av_creates k r = Some kd"
  obtains h where "p = Some h" and "led (ls @ [(h, kd)]) fs w'"
  using led_new [OF assms(1-4)] assms(5) by (auto split: option.splits)

lemma show_frame_ledger:
  assumes m: "memory_ok E" and l: "led base fs w" and f: "(f, KFrame) \<in> set base"
  shows "led base fs (show_frame E observed (Some f) pixfmt tb t0 r w)"
proof -
  let ?w = "a_w r" and ?h = "a_h r"
  obtain r1 rgb w1 where i1: "av E Frame_alloc w = (r1, rgb, w1)" by (metis prod_cases3)
  obtain r2 q2 w2 where i2: "av E (Image_get_buffer_size ?w ?h) w1 = (r2, q2, w2)"
    by (metis prod_cases3)
  obtain r3 buf w3 where i3: "av E (Av_malloc (a_rc r2)) w2 = (r3, buf, w3)" by (metis prod_cases3)
  define w4 where "w4 = av_do E (Image_fill_arrays rgb buf) w3"
  obtain r5 sws w5 where i5: "av E (Sws_getContext ?w ?h pixfmt ?w ?h AV_PIX_FMT_RGB24 SWS_BILINEAR) w4
      = (r5, sws, w5)" by (metis prod_cases3)
  note M = memory_okD [OF m i1] memory_okD [OF m i3] memory_okD [OF m i5]
  obtain g where g: "rgb = Some g" "led (base @ [(g, KFrame)]) fs w1"
    by (rule led_get [OF l i1]) (use M in auto)
  have l2: "led (base @ [(g, KFrame)]) fs w2" by (rule led_same [OF g(2) i2]) auto
  obtain b where b: "buf = Some b" "led (base @ [(g, KFrame), (b, KBuffer)]) fs w3"
    by (rule led_get [OF l2 i3]) (use M in auto)
  have l4: "led (base @ [(g, KFrame), (b, KBuffer)]) fs w4"
    unfolding w4_def by (rule led_same_do [OF b(2)]) (auto simp: g)
  obtain c where c: "sws = Some c" "led ((base @ [(g, KFrame), (b, KBuffer)]) @ [(c, KSws)]) fs w5"
    by (rule led_get [OF l4 i5]) (use M in auto)
  let ?ls = "base @ [(g, KFrame), (b, KBuffer), (c, KSws)]"
  define w6 where "w6 = av_do E (Sws_scale sws (Some f) rgb 0 ?h) w5"
  have l6: "led ?ls fs w6" unfolding w6_def by (rule led_same_do) (use c g in auto)
  define w7 where "w7 = (if observed then av_do E (Notify buf ?w ?h) w6 else w6)"
  have l7: "led ?ls fs w7"
    using led_same_do [OF l6, of "Notify buf ?w ?h" E] l6 b by (simp add: w7_def)
  define w8 where "w8 = av_do E (Av_free buf) w7"
  have l8: "led (base @ [(g, KFrame), (c, KSws)]) fs w8"
    using led_drop [of "base @ [(g, KFrame)]" b KBuffer "[(c, KSws)]" fs w7 "Av_free buf" E] l7 b
    by (simp add: w8_def)
  define w9 where "w9 = av_do E (Frame_free rgb) w8"
  have l9: "led (base @ [(c, KSws)]) fs w9"
    using led_drop [of base g KFrame "[(c, KSws)]" fs w8 "Frame_free rgb" E] l8 g by (simp add: w9_def)
  define w10 where "w10 = av_do E (Sws_free sws) w9"
  have l10: "led base fs w10"
    using led_drop [of base c KSws "[]" fs w9 "Sws_free sws" E] l9 c by (simp add: w10_def)
  obtain rn qn w11 where i11: "av E Now w10 = (rn, qn, w11)" by (metis prod_cases3)
  have l11: "led base fs w11" by (rule led_same [OF l10 i11]) auto
  have "led base fs (av_do E (Sleep_us d) w11)" for d by (rule led_same_do [OF l11]) auto
  moreover have "\<exists>d. show_frame E observed (Some f) pixfmt tb t0 r w =
      (if d > 0 then av_do E (Sleep_us d) w11 else w11)"
    using i5 i11 unfolding w10_def w9_def w8_def w7_def w6_def w4_def
    by (intro exI [of _ "rescale_q E (a_pts r) tb AV_TIME_BASE_Q - (a_pts rn - t0)"])
      (simp add: show_frame_def Let_def i1 i2 i3)
  ultimately show ?thesis using l11 by auto
qed

lemma show_frames_ledger:
  assumes ret: "show_frames E observed (Some d) (Some f) pixfmt tb t0 w = Some w'"
    and m: "memory_ok E" and own: "(d, KCodec) \<in> set base" "(f, KFrame) \<in> set base"
    and l: "led base fs w"
  shows "led base fs w'"
proof -
  have "memory_ok E \<longrightarrow> led base fs w \<longrightarrow> dec = Some d \<longrightarrow> fr = Some f \<longrightarrow> led base fs w'"
    if ret: "show_frames E observed dec fr pixfmt tb t0 w = Some w'" for dec fr
  proof (rule show_frames.raw_induct [where P = "\<lambda>E observed dec fr pixfmt tb t0 w w'.
      memory_ok E \<longrightarrow> led base fs w \<longrightarrow> dec = Some d \<longrightarrow> fr = Some f \<longrightarrow> led base fs w'", OF _ ret], intro impI)
    fix loop E observed dec fr pixfmt tb t0 w and w' :: "'a av"
    assume IH: "\<And>E observed dec fr pixfmt tb t0 w w'.
        loop E observed dec fr pixfmt tb t0 w = Some w' \<Longrightarrow> memory_ok E \<longrightarrow> led base fs w \<longrightarrow>
        dec = Some d \<longrightarrow> fr = Some f \<longrightarrow> led base fs w'"
      and eq: "(case av E (Receive_frame dec fr) w of (r, _, w1) \<Rightarrow>
      if a_rc r \<noteq> 0 then Some w1
      else loop E observed dec fr pixfmt tb t0 (show_frame E observed fr pixfmt tb t0 r w1)) = Some w'"
      and m: "memory_ok E" and l: "led base fs w" and c: "dec = Some d" "fr = Some f"
    obtain r p w1 where i: "av E (Receive_frame (Some d) (Some f)) w = (r, p, w1)"
      by (metis prod_cases3)
    have l1: "led base fs w1" by (rule led_same [OF l i]) (use own in auto)
    show "led base fs w'"
      using eq c i l1 m IH [of E observed "Some d" "Some f" pixfmt tb t0] show_frame_ledger [OF m l1 own(2)]
      by (auto split: if_splits)
  qed
  with ret m l show ?thesis by blast
qed

text \<open>Packets of other streams are never released: they pile up at the end of the ledger.\<close>

lemma play_loop_ledger:
  assumes ret: "play_loop E observed (Some m) (Some d) (Some f) idx pixfmt tb t0 w = Some w'"
    and mem: "memory_ok E"
    and own: "(m, KFormat) \<in> set base" "(d, KCodec) \<in> set base" "(f, KFrame) \<in> set base"
    and l: "led base fs w"
  shows "\<exists>ls. led (base @ ls) fs w' \<and> list_all (\<lambda>a. snd a = KPacket) ls"
proof -
  have "\<forall>ps. memory_ok E \<longrightarrow> list_all (\<lambda>a. snd a = KPacket) ps \<longrightarrow> led (base @ ps) fs w \<longrightarrow>
      fmt = Some m \<longrightarrow> dec = Some d \<longrightarrow> fr = Some f \<longrightarrow>
      (\<exists>ls. led (base @ ls) fs w' \<and> list_all (\<lambda>a. snd a = KPacket) ls)"
    if ret: "play_loop E observed fmt dec fr idx pixfmt tb t0 w = Some w'" for fmt dec fr
  proof (rule play_loop.raw_induct [where P = "\<lambda>E observed fmt dec fr idx pixfmt tb t0 w w'.
      \<forall>ps. memory_ok E \<longrightarrow> list_all (\<lambda>a. snd a = KPacket) ps \<longrightarrow> led (base @ ps) fs w \<longrightarrow>
      fmt = Some m \<longrightarrow> dec = Some d \<longrightarrow> fr = Some f \<longrightarrow>
      (\<exists>ls. led (base @ ls) fs w' \<and> list_all (\<lambda>a. snd a = KPacket) ls)", OF _ ret], intro impI allI)
    fix loop E observed fmt dec fr idx pixfmt tb t0 w and w' :: "'a av" and ps
    assume IH: "\<And>E observed fmt dec fr idx pixfmt tb t0 w w'.
        loop E observed fmt dec fr idx pixfmt tb t0 w = Some w' \<Longrightarrow>
        \<forall>ps. memory_ok E \<longrightarrow> list_all (\<lambda>a. snd a = KPacket) ps \<longrightarrow> led (base @ ps) fs w \<longrightarrow>
        fmt = Some m \<longrightarrow> dec = Some d \<longrightarrow> fr = Some f \<longrightarrow>
        (\<exists>ls. led (base @ ls) fs w' \<and> list_all (\<lambda>a. snd a = KPacket) ls)"
      and eq: "(case av E (Read_frame fmt) w of (r, p, w1) \<Rightarrow>
      if a_rc r < 0 then Some w1
      else if stream_index (a_pkt r) \<noteq> idx then loop E observed fmt dec fr idx pixfmt tb t0 w1
      else case av E (Send_packet dec ((a_pkt r)\<lparr>pk_buf := p\<rparr>)) w1 of (rs, _, w2) \<Rightarrow>
      if a_rc rs \<noteq> 0 then loop E observed fmt dec fr idx pixfmt tb t0 (av_do E (Packet_unref p) w2)
      else case show_frames E observed dec fr pixfmt tb t0 w2 of
        None \<Rightarrow> None
      | Some w3 \<Rightarrow> loop E observed fmt dec fr idx pixfmt tb t0 (av_do E (Packet_unref p) w3)) = Some w'"
      and mem: "memory_ok E" and ps: "list_all (\<lambda>a. snd a = KPacket) ps" and l: "led (base @ ps) fs w"
      and c: "fmt = Some m" "dec = Some d" "fr = Some f"
    obtain r p w1 where i1: "av E (Read_frame (Some m)) w = (r, p, w1)" by (metis prod_cases3)
    obtain rs q w2 where i2: "av E (Send_packet (Some d) ((a_pkt r)\<lparr>pk_buf := p\<rparr>)) w1 = (rs, q, w2)"
      by (metis prod_cases3)
    note run = eq [unfolded c i1 i2 prod.case]
    note new = led_new [OF l i1]
    have IH': "\<exists>ls. led (base @ ls) fs w' \<and> list_all (\<lambda>a. snd a = KPacket) ls"
      if "loop E observed (Some m) (Some d) (Some f) idx pixfmt tb t0 v = Some w'"
        "led (base @ qs) fs v" "list_all (\<lambda>a. snd a = KPacket) qs" for v qs
      using IH [OF that(1)] that(2,3) mem by blast
    show "\<exists>ls. led (base @ ls) fs w' \<and> list_all (\<lambda>a. snd a = KPacket) ls"
    proof (cases p)
      case None
      then have "a_rc r < 0" "led (base @ ps) fs w1" using new own by (auto split: if_splits)
      then show ?thesis using run ps by auto
    next
      case (Some h)
      then have rc: "\<not> a_rc r < 0" and l1: "led ((base @ ps) @ [(h, KPacket)]) fs w1"
        using new own by (auto split: if_splits)
      have l2: "led ((base @ ps) @ [(h, KPacket)]) fs w2" by (rule led_same [OF l1 i2]) (use own in auto)
      have un: "led (base @ ps) fs (av_do E (Packet_unref p) v)"
        if "led ((base @ ps) @ [(h, KPacket)]) fs v" for v
        using led_drop [of "base @ ps" h KPacket "[]" fs v "Packet_unref p" E] that Some by simp
      show ?thesis
      proof (cases "stream_index (a_pkt r) = idx")
        case False
        then show ?thesis using run rc IH' [of w1 "ps @ [(h, KPacket)]"] l1 ps by simp
      next
        case idx: True
        show ?thesis
        proof (cases "a_rc rs = 0")
          case False
          then show ?thesis using run rc idx IH' [OF _ un [OF l2] ps] by simp
        next
          case True
          then obtain w3 where s: "show_frames E observed (Some d) (Some f) pixfmt tb t0 w2 = Some w3"
            using run rc idx by (auto split: option.splits)
          have "led ((base @ ps) @ [(h, KPacket)]) fs w3"
            by (rule show_frames_ledger [OF s mem _ _ l2]) (use own in auto)
          from IH' [OF _ un [OF this] ps] show ?thesis using run rc idx True s by simp
        qed
      qed
    qed
  qed
  from this [OF ret, THEN spec, of "[]"] mem l show ?thesis by simp
qed

definition play_post :: "(nat \<times> av_kind) list \<Rightarrow> (ptr \<times> av_kind) list \<Rightarrow> 'x av \<Rightarrow> bool" where
  "play_post base fs w \<longleftrightarrow> (\<exists>f. led (base @ [(f, KFrame)]) fs w) \<or>
     (\<exists>ls. led (base @ ls) fs w \<and> list_all (\<lambda>a. snd a = KPacket) ls)"

lemma play_end_ledger:
  assumes "play_loop E observed (Some m) (Some d) (Some f) idx pixfmt tb t0 w = Some w'"
    and "memory_ok E" and "led (base @ [(f, KFrame), (m, KFormat), (d, KCodec)]) fs w"
  shows "play_post base fs
     (av_do E (Close_input (Some m)) (av_do E (Codec_free (Some d)) (av_do E (Frame_free (Some f)) w')))"
proof -
  obtain ls where ls: "led ((base @ [(f, KFrame), (m, KFormat), (d, KCodec)]) @ ls) fs w'"
    "list_all (\<lambda>a. snd a = KPacket) ls"
    using play_loop_ledger [OF assms(1,2) _ _ _ assms(3)] by auto
  have "led (base @ (m, KFormat) # (d, KCodec) # ls) fs (av_do E (Frame_free (Some f)) w')"
    using led_drop [of base f KFrame "(m, KFormat) # (d, KCodec) # ls" fs w' "Frame_free (Some f)" E]
      ls(1) by simp
  then have "led (base @ (m, KFormat) # ls) fs
      (av_do E (Codec_free (Some d)) (av_do E (Frame_free (Some f)) w'))"
    using led_drop [of "base @ [(m, KFormat)]" d KCodec ls fs _ "Codec_free (Some d)" E] by simp
  from led_drop [OF this, of "Close_input (Some m)" E] ls(2) show ?thesis by (auto simp: play_post_def)
qed

lemma play_stream_ledger:
  assumes r: "play_stream E observed (Some f) (Some m) idx s w = Some w'" and mem: "memory_ok E"
    and l: "led (base @ [(f, KFrame), (m, KFormat)]) fs w"
  shows "play_post base fs w'"
proof -
  let ?L = "base @ [(f, KFrame), (m, KFormat)]"
  obtain r4 p4 w4 where i4: "av E (Find_decoder (si_codec s)) w = (r4, p4, w4)" by (metis prod_cases3)
  obtain r5 dec w5 where i5: "av E Alloc_context3 w4 = (r5, dec, w5)" by (metis prod_cases3)
  obtain r6 p6 w6 where i6: "av E (Parameters_to_context dec) w5 = (r6, p6, w6)" by (metis prod_cases3)
  obtain r7 p7 w7 where i7: "av E (Open_codec dec zero_fields) w6 = (r7, p7, w7)" by (metis prod_cases3)
  obtain r8 p8 w8 where i8: "av E Now w7 = (r8, p8, w8)" by (metis prod_cases3)
  note run = r [unfolded play_stream_def i4 prod.case i5 i6 i7 i8]
  have l4: "led ?L fs w4" by (rule led_same [OF l i4]) auto
  have cl: "play_post base fs (av_do E (Close_input (Some m)) v)" if "led ?L fs v" for v
    using led_drop [of "base @ [(f, KFrame)]" m KFormat "[]" fs v "Close_input (Some m)" E] that
    by (auto simp: play_post_def)
  note new5 = led_new [OF l4 i5]
  show ?thesis
  proof (cases dec)
    case None
    then have "led ?L fs w5" using new5 by simp
    then show ?thesis using run cl [of w4] cl [of w5] l4 None by (auto split: if_splits)
  next
    case (Some d)
    then have l5: "led (?L @ [(d, KCodec)]) fs w5" using new5 by (auto split: if_splits)
    have l6: "led (?L @ [(d, KCodec)]) fs w6" by (rule led_same [OF l5 i6]) (auto simp: Some)
    have l7: "led (?L @ [(d, KCodec)]) fs w7" by (rule led_same [OF l6 i7]) (auto simp: Some)
    have l8: "led (?L @ [(d, KCodec)]) fs w8" by (rule led_same [OF l7 i8]) auto
    have fd: "led ?L fs (av_do E (Codec_free dec) v)" if "led (?L @ [(d, KCodec)]) fs v" for v
      using led_drop [of ?L d KCodec "[]" fs v "Codec_free dec" E] that Some by simp
    show ?thesis
      using run l8 Some cl [OF l4] cl [OF fd [OF l6]] cl [OF fd [OF l7]]
        play_end_ledger [OF _ mem, of observed m d f idx "a_w r7" "si_time_base s" "a_pts r8" w8 _ base fs]
      by (auto split: if_splits)
  qed
qed

text \<open>
  \<open>playVideo\<close>, whenever it returns and memory never runs out: no call is given a bad handle, and
  what stays alive is either the one frame (every early return forgets it) or packets only (the
  packets of streams other than the video's are never released).
\<close>

theorem play_video_leaks:
  assumes r: "play_video E observed filename w = Some w'" and mem: "memory_ok E" and o: "ordered w"
  shows "faults w' = faults w \<and> ((\<exists>f. live w' = live w @ [(f, KFrame)]) \<or>
     (\<exists>ls. live w' = live w @ ls \<and> list_all (\<lambda>a. snd a = KPacket) ls))"
proof -
  let ?B = "live w" and ?F = "faults w"
  have l: "led ?B ?F w" using o by (simp add: led_def)
  have done': ?thesis if "play_post ?B ?F w'" using that by (auto simp: play_post_def led_def)
  obtain r1 fr w1 where i1: "av E Frame_alloc w = (r1, fr, w1)" by (metis prod_cases3)
  obtain f where f: "fr = Some f" "led (?B @ [(f, KFrame)]) ?F w1"
    by (rule led_get [OF l i1]) (use memory_okD(1) [OF mem i1 HOL.refl] in auto)
  obtain r2 fmt w2 where i2: "av E (Open_input None filename) w1 = (r2, fmt, w2)"
    by (metis prod_cases3)
  obtain r3 p3 w3 where i3: "av E (Find_stream_info fmt) w2 = (r3, p3, w3)" by (metis prod_cases3)
  note new = led_new [OF f(2) i2]
  note run = r [unfolded play_video_def i1 prod.case i2 i3]
  show ?thesis
  proof (cases fmt)
    case None
    then have "a_rc r2 < 0" "led (?B @ [(f, KFrame)]) ?F w2" using new by (auto split: if_splits)
    then show ?thesis using run by (intro done') (auto simp: play_post_def)
  next
    case (Some m)
    then have rc2: "\<not> a_rc r2 < 0" and l2: "led (?B @ [(f, KFrame), (m, KFormat)]) ?F w2"
      using new by (auto split: if_splits)
    have l3: "led (?B @ [(f, KFrame), (m, KFormat)]) ?F w3"
      by (rule led_same [OF l2 i3]) (auto simp: Some)
    have cl: "play_post ?B ?F (av_do E (Close_input fmt) w3)"
      using led_drop [of "?B @ [(f, KFrame)]" m KFormat "[]" ?F w3 "Close_input fmt" E] l3 Some
      by (auto simp: play_post_def)
    show ?thesis
      using run rc2 cl play_stream_ledger [OF _ mem l3, of observed _ _ w'] f(1) Some
      by (intro done') (auto split: if_splits option.splits)
  qed
qed

lemma example_play:
  "\<exists>w. play_video (counting_env (\<lambda>c. case c of Open_input _ _ \<Rightarrow> True | _ \<Rightarrow> False)) True ''a.mp4''
     (start_world 0) = Some w \<and> live w = [(0, KFrame)]"
  by (simp add: play_video_def play_stream_def av_do_def av_def invoke_def avlib_def start_world_def)

theorem play_video_leaks_witness:
  "\<exists>w. play_video (counting_env (\<lambda>c. case c of Open_input _ _ \<Rightarrow> True | _ \<Rightarrow> False)) True ''a.mp4''
     (start_world 0) = Some w \<and> faults w = [] \<and> (\<exists>f. live w = [(f, KFrame)])"
proof -
  let ?E = "counting_env (\<lambda>c. case c of Open_input _ _ \<Rightarrow> True | _ \<Rightarrow> False)"
  obtain w where w: "play_video ?E True ''a.mp4'' (start_world 0) = Some w" "live w = [(0, KFrame)]"
    using example_play by blast
  have "memory_ok ?E" by (simp add: memory_ok_def)
  from play_video_leaks [OF w(1) this ordered_start] w show ?thesis by (simp add: start_world_def)
qed

end
