(* ===== verification/Pipeline.thy ===== *)
theory Pipeline
  imports MediaFile BoxFilter
begin

text \<open>
  The two capture functions of \<open>videoStream\<close> (src/CStreamVideo.cpp): \<open>videoCaptureAndEncoding\<close> and
  \<open>sendLiveVideoToClient\<close>.  What they do before and after their threads is sequential code over the
  encoder and the camera.  The threads are an interleaving: every thread has a program counter,
  every step of \<open>pipe_step\<close> is one atomic action of one thread, and the frame queue moves by the
  steps of \<open>SafeQueue\<close>.  A captured frame is known by its address.
\<close>

subsection \<open>Before and after the threads\<close>

text \<open>
  The result is the function's early return value, if it makes one; the encoder is a local
  variable, so its destructor runs on the way out.
\<close>

definition capture_begin :: "'x av_env \<Rightarrow> string option \<Rightarrow> cam \<Rightarrow> 'x av \<Rightarrow>
    (int option \<times> enc \<times> cam \<times> 'x av) option" where
  "capture_begin E env_filepath c w =
     (case open_enc E env_filepath capture_params (empty_enc, w) of
        None \<Rightarrow> None
      | Some (ok, e, w) \<Rightarrow>
          if \<not> ok then map_option (\<lambda>(e, w). (Some (-1), e, c, w)) (close_enc E (e, w))
          else case initializeCamera E (c, w) of (ok, c, w) \<Rightarrow>
            if \<not> ok then map_option (\<lambda>(e, w). (Some (-1), e, c, w)) (close_enc E (e, w))
            else Some (None, e, c, w))"

definition capture_end :: "'x av_env \<Rightarrow> enc \<Rightarrow> cam \<Rightarrow> 'x av \<Rightarrow> (int \<times> enc \<times> cam \<times> 'x av) option" where
  "capture_end E e c w =
     (case close_enc E (e, w) of
        None \<Rightarrow> None
      | Some (e, w) \<Rightarrow>
          (case cleanupCamera E (c, w) of (c, w) \<Rightarrow>
             map_option (\<lambda>(e, w). (0, e, c, w)) (close_enc E (e, w))))"

definition live_begin :: "'x av_env \<Rightarrow> cam \<Rightarrow> 'x av \<Rightarrow>
    (bool \<times> enc \<times> fragments \<times> cam \<times> 'x av) option" where
  "live_begin E c w =
     (case open_stream E capture_params (empty_enc, new_queue, w) of
        None \<Rightarrow> None
      | Some (ok, e, q, w) \<Rightarrow>
          if \<not> ok then map_option (\<lambda>(e, q, w). (False, e, q, c, w)) (close_stream E (e, q, w))
          else case initializeCamera E (c, w) of (ok, c, w) \<Rightarrow>
            if \<not> ok then map_option (\<lambda>(e, q, w). (False, e, q, c, w)) (close_stream E (e, q, w))
            else Some (True, e, q, c, w))"

subsection \<open>The threads of videoCaptureAndEncoding\<close>

datatype 'f reader_at = RTest | RGet | RPush 'f | RDone
datatype 'f writer_at = WTest | WPop | WWrite 'f | WDone

record 'f pipe =
  m_recording :: bool
  frameQueue :: "'f tsq"
  key_done :: bool
  reader :: "'f reader_at"
  writer :: "'f writer_at"
  pushed_frames :: "'f list"
  written_frames :: "'f list"

definition start_pipe :: "'f pipe" where
  "start_pipe = \<lparr>m_recording = True, frameQueue = new_queue, key_done = False, reader = RTest,
     writer = WTest, pushed_frames = [], written_frames = []\<rparr>"

text \<open>The encoder thread is thread 1 of the queue; the reader never waits on it.\<close>

inductive pipe_step :: "'f pipe \<Rightarrow> 'f pipe \<Rightarrow> bool" where
  key_stop: "\<not> key_done s \<Longrightarrow> m_recording s \<Longrightarrow> pipe_step s (s\<lparr>m_recording := False, key_done := True\<rparr>)"
| key_exit: "\<not> key_done s \<Longrightarrow> \<not> m_recording s \<Longrightarrow> pipe_step s (s\<lparr>key_done := True\<rparr>)"
| gui_stop: "m_recording s \<Longrightarrow> pipe_step s (s\<lparr>m_recording := False\<rparr>)"
| reader_go: "reader s = RTest \<Longrightarrow> m_recording s \<Longrightarrow> pipe_step s (s\<lparr>reader := RGet\<rparr>)"
| reader_end: "reader s = RTest \<Longrightarrow> \<not> m_recording s \<Longrightarrow> pipe_step s (s\<lparr>reader := RDone\<rparr>)"
| reader_frame: "reader s = RGet \<Longrightarrow> pipe_step s (s\<lparr>reader := RPush f\<rparr>)"
| reader_none: "reader s = RGet \<Longrightarrow> pipe_step s (s\<lparr>reader := RTest\<rparr>)"
| reader_push: "reader s = RPush f \<Longrightarrow> tsq_step (frameQueue s) (EPush f) q \<Longrightarrow>
     pipe_step s (s\<lparr>reader := RTest, frameQueue := q, pushed_frames := pushed_frames s @ [f]\<rparr>)"
| writer_go: "writer s = WTest \<Longrightarrow> m_recording s \<or> \<not> is_empty (frameQueue s) \<Longrightarrow>
     pipe_step s (s\<lparr>writer := WPop\<rparr>)"
| writer_end: "writer s = WTest \<Longrightarrow> \<not> m_recording s \<Longrightarrow> is_empty (frameQueue s) \<Longrightarrow>
     pipe_step s (s\<lparr>writer := WDone\<rparr>)"
| writer_pop: "writer s = WPop \<Longrightarrow> tsq_step (frameQueue s) (EPop 1 f) q \<Longrightarrow>
     pipe_step s (s\<lparr>writer := WWrite f, frameQueue := q\<rparr>)"
| writer_wait: "writer s = WPop \<Longrightarrow> tsq_step (frameQueue s) (EWait 1) q \<Longrightarrow>
     pipe_step s (s\<lparr>frameQueue := q\<rparr>)"
| writer_wake: "writer s = WPop \<Longrightarrow> tsq_step (frameQueue s) (EWake 1) q \<Longrightarrow>
     pipe_step s (s\<lparr>frameQueue := q\<rparr>)"
| writer_write: "writer s = WWrite f \<Longrightarrow>
     pipe_step s (s\<lparr>writer := WTest, written_frames := written_frames s @ [f]\<rparr>)"

inductive_cases pipe_stepE: "pipe_step s s'"

inductive pipe_run :: "'f pipe \<Rightarrow> 'f pipe \<Rightarrow> bool" where
  pipe_start: "pipe_run s s"
| pipe_more: "pipe_run s s' \<Longrightarrow> pipe_step s' s'' \<Longrightarrow> pipe_run s s''"

lemma pipe_run_trans: "pipe_run s' s'' \<Longrightarrow> pipe_run s s' \<Longrightarrow> pipe_run s s''"
  by (induction rule: pipe_run.induct) (auto intro: pipe_run.intros)

lemma pipe_run_inv:
  assumes "pipe_run s s'" and "P s" and "\<And>s s'. P s \<Longrightarrow> pipe_step s s' \<Longrightarrow> P s'"
  shows "P s'"
  using assms(1,2) by (induction rule: pipe_run.induct) (auto intro: assms(3))

subsection \<open>The data sender\<close>

text \<open>
  What \<open>dataSender\<close> hands to \<open>send_video_data\<close> for the packets it takes from the encoder, and the
  value of \<open>m_initialization_sent\<close> afterwards.  A read outside a packet has no value.
\<close>

fun send_packets :: "(nat \<Rightarrow> bool) \<Rightarrow> bool \<Rightarrow> byte list list \<Rightarrow> (unit, bool \<times> byte list list) outcome" where
  "send_packets can_alloc sent [] = Ret (sent, [])"
| "send_packets can_alloc sent (p # ps) =
     (if \<not> sent
      then (case send_packets can_alloc True ps of
              Ret (sent', out) \<Rightarrow> Ret (sent', p # out) | Throw e \<Rightarrow> Throw e | OutOfBounds \<Rightarrow> OutOfBounds)
      else case filterAtoms can_alloc p of
             Ret p' \<Rightarrow> (case send_packets can_alloc True ps of
                Ret (sent', out) \<Rightarrow> Ret (sent', p' # out) | Throw e \<Rightarrow> Throw e | OutOfBounds \<Rightarrow> OutOfBounds)
           | _ \<Rightarrow> OutOfBounds)"

lemma send_packets_filtered:
  assumes "\<forall>bs \<in> set bss. \<forall>b \<in> set bs. wf_box b \<and> can_alloc (length (box_data b))"
  shows "send_packets can_alloc True (map (\<lambda>bs. concat (map write_box bs)) bss) =
     Ret (True, map (\<lambda>bs. concat (map write_box (filter (\<lambda>b. kept_type (box_type b)) bs))) bss)"
  using assms
proof (induction bss)
  case (Cons bs bss)
  then show ?case using filter_boxes_tail [of bs can_alloc "[]"] by simp
qed simp

subsection \<open>Starting a capture\<close>

text \<open>The camera makes no call to a muxer.\<close>

lemma camera_mux:
  "mux_is b (calls (snd s)) \<Longrightarrow> mux_is b (calls (snd (snd (initializeCamera E s))))"
  unfolding initializeCamera_def
proof (rule run_stages_inv)
  fix f and s :: "cam \<times> 'a av"
  assume f: "f \<in> set (camera_stages E)" and m: "mux_is b (calls (snd s))"
  have a: "mux_is b (calls (snd (snd (av E k w))))" if "mux_is b (calls w)" "mux_step b k = Some b"
    for k w
    using that by (simp add: av_def invoke_calls mux_is_append)
  have c: "mux_is b (calls (snd (close_camera_input E t)))" if "mux_is b (calls (snd t))" for t
    using that by (cases t) (simp add: close_camera_input_def ledger mux_is_append mux_step_def)
  have fd: "mux_is b (calls (snd (free_decoder E t)))" if "mux_is b (calls (snd t))" for t
    using that by (cases t) (simp add: free_decoder_def ledger mux_is_append mux_step_def)
  show "mux_is b (calls (snd (snd (f s))))"
    using f m
    by (auto simp: camera_stages_def cam_open_input_def cam_stream_info_def cam_find_decoder_def
        cam_alloc_decoder_def cam_decoder_call_def mux_step_def split_def a c fd Let_def
        split: option.splits)
qed

lemma initialize_run:
  assumes "open_input_zero E" and "holds (mux_is True) base fs (e, w)"
    and "m_formatContext c = None" and "m_decoderContext c = None"
    and r: "initializeCamera E (c, w) = (ok, c', w')"
  shows "faults w' = fs \<and> (if ok then (\<exists>f d. m_formatContext c' = Some f \<and> m_decoderContext c' = Some d \<and>
       live w' = base @ owned e @ [(f, KFormat), (d, KCodec)])
     else m_formatContext c' = None \<and> m_decoderContext c' = None \<and> holds (mux_is True) base fs (e, w'))"
proof -
  have "cam_at 0 (live w) fs (c, w)" using assms(2-4) by (simp add: cam_simps holds_def)
  note T = tripleD [OF camera_stages_triple [OF assms(1)] this r [unfolded initializeCamera_def]]
  have "mux_is True (calls w')" using camera_mux [of True "(c, w)" E] r assms(2) by (simp add: holds_def)
  then show ?thesis
    using T assms(2) by (cases ok) (auto simp: cam_simps holds_def)
qed

subsection \<open>Properties\<close>

text \<open>
  The start of \<open>videoCaptureAndEncoding\<close> is all or nothing over both its parts: when the encoder
  or the camera cannot be opened it returns -1 with everything released (the encoder's by its
  destructor) and the camera's pointers null; otherwise the encoder is open and holds its five
  resources, and the camera its two.
\<close>

theorem capture_begin_all_or_nothing:
  assumes "codec_finite E m" and "avio_open_zero E" and "open_input_zero E" and "ordered w"
    and "mux (calls w) = Some False" and "m_formatContext c = None" and "m_decoderContext c = None"
  shows "\<exists>r e c' w'. capture_begin E name c w = Some (r, e, c', w') \<and> faults w' = faults w \<and>
     (if r = None
      then is_open e \<and> (\<exists>f d. m_formatContext c' = Some f \<and> m_decoderContext c' = Some d \<and>
          live w' = live w @ owned e @ [(f, KFormat), (d, KCodec)])
      else r = Some (-1) \<and> e = empty_enc \<and> m_formatContext c' = None \<and> m_decoderContext c' = None \<and>
          live w' = live w)"
proof -
  let ?B = "live w" and ?F = "faults w"
  have "enc_ok ?B ?F (empty_enc, w)"
    using assms(4,5) by (simp add: enc_ok_empty holds_def mux_is_def)
  from open_enc_ok [OF assms(1,2) this, of name capture_params] obtain b e w1 where
    o: "open_enc E name capture_params (empty_enc, w) = Some (b, e, w1)" "is_open e = b"
      "enc_ok ?B ?F (e, w1)" by auto
  have cl: "\<exists>w2. close_enc E (e, v) = Some (empty_enc, w2) \<and> live w2 = ?B \<and> faults w2 = ?F"
    if "enc_ok ?B ?F (e, v)" for v
    using close_enc_ok [OF assms(1) that] by (auto simp: holds_def)
  obtain ok c' w3 where i: "initializeCamera E (c, w1) = (ok, c', w3)" by (metis prod_cases3)
  show ?thesis
  proof (cases b)
    case False
    then show ?thesis using o cl [OF o(3)] assms(6,7) by (auto simp: capture_begin_def)
  next
    case True
    then have h: "holds (mux_is True) ?B ?F (e, w1)" "reached 5 e"
      using o by (simp_all add: enc_ok_def)
    note I = initialize_run [OF assms(3) h(1) assms(6,7) i]
    show ?thesis
    proof (cases ok)
      case True
      then show ?thesis using o i I \<open>b\<close> by (auto simp: capture_begin_def)
    next
      case False
      then have "enc_ok ?B ?F (e, w3)" using I h(2) o(2) \<open>b\<close> by (simp add: enc_ok_def)
      from cl [OF this] show ?thesis using o i I False \<open>b\<close> by (auto simp: capture_begin_def)
    qed
  qed
qed

theorem capture_begin_all_or_nothing_witness:
  "\<exists>r e c' w'. capture_begin (counting_env (\<lambda>c. c = Alloc_format)) (Some ''a.mp4'') new_camera
       (start_world 0) = Some (r, e, c', w') \<and> faults w' = faults (start_world 0 :: nat av) \<and>
     (if r = None
      then is_open e \<and> (\<exists>f d. m_formatContext c' = Some f \<and> m_decoderContext c' = Some d \<and>
          live w' = live (start_world 0 :: nat av) @ owned e @ [(f, KFormat), (d, KCodec)])
      else r = Some (-1) \<and> e = empty_enc \<and> m_formatContext c' = None \<and> m_decoderContext c' = None \<and>
          live w' = live (start_world 0 :: nat av))"
  by (rule capture_begin_all_or_nothing [OF counting_finite counting_zero counting_open_input ordered_start])
    (simp_all add: new_camera_def start_world_def mux_def)


definition example_file :: "box list" where
  "example_file = [\<lparr>box_size = 9, box_type = ''ftyp'', box_data = [1]\<rparr>,
     \<lparr>box_size = 9, box_type = ''moof'', box_data = [2]\<rparr>]"


text \<open>
  C20.  Frames cross the queue in order: in every state that the threads can reach, the frames pushed
  so far are those written, then the one the encoder thread holds, then those in the queue.  No
  frame is lost, duplicated or overtaken on the way.
\<close>

theorem pipe_frames_in_order:
  assumes "pipe_run start_pipe s"
  shows "pushed_frames s = written_frames s @ (case writer s of WWrite f \<Rightarrow> [f] | _ \<Rightarrow> []) @ queue (frameQueue s)"
proof (rule pipe_run_inv [OF assms])
  show "pushed_frames start_pipe = written_frames start_pipe @
      (case writer start_pipe of WWrite f \<Rightarrow> [f] | _ \<Rightarrow> []) @ queue (frameQueue (start_pipe :: 'a pipe))"
    by (simp add: start_pipe_def new_queue_def)
next
  fix s s' :: "'a pipe"
  assume "pushed_frames s = written_frames s @ (case writer s of WWrite f \<Rightarrow> [f] | _ \<Rightarrow> []) @ queue (frameQueue s)"
    and "pipe_step s s'"
  then show "pushed_frames s' = written_frames s' @ (case writer s' of WWrite f \<Rightarrow> [f] | _ \<Rightarrow> []) @ queue (frameQueue s')"
    by (elim pipe_stepE) (auto dest!: tsq_step_contents)
qed

theorem pipe_frames_in_order_witness:
  "\<exists>s. pipe_run (start_pipe :: nat pipe) s \<and> writer s = WTest \<and> reader s = RPush 7 \<and>
     pushed_frames s = written_frames s @ queue (frameQueue s)"
proof -
  let ?s1 = "start_pipe\<lparr>reader := RGet\<rparr> :: nat pipe"
  let ?s2 = "?s1\<lparr>reader := RPush 7\<rparr>"
  have "pipe_step start_pipe ?s1" by (rule reader_go) (simp_all add: start_pipe_def)
  moreover have "pipe_step ?s1 ?s2" by (rule reader_frame) simp
  ultimately have r: "pipe_run start_pipe ?s2" by (blast intro: pipe_run.intros)
  from pipe_frames_in_order [OF r] r show ?thesis
    by (intro exI [of _ ?s2]) (simp add: start_pipe_def)
qed

definition stuck :: "'f pipe \<Rightarrow> bool" where
  "stuck s \<longleftrightarrow> \<not> m_recording s \<and> reader s = RDone \<and> writer s = WPop \<and> queue (frameQueue s) = []"

lemma stuck_step: "stuck s \<Longrightarrow> pipe_step s s' \<Longrightarrow> stuck s'"
  unfolding stuck_def by (elim pipe_stepE) (auto dest!: tsq_step_contents)

lemma stuck_run: "pipe_run s s' \<Longrightarrow> stuck s \<Longrightarrow> stuck s'"
  by (erule pipe_run_inv) (auto intro: stuck_step)

lemma stuck_reached: "\<exists>s. pipe_run (start_pipe :: 'f pipe) s \<and> stuck s"
proof -
  let ?s1 = "start_pipe\<lparr>writer := WPop\<rparr> :: 'f pipe"
  let ?s2 = "?s1\<lparr>m_recording := False, key_done := True\<rparr>"
  let ?s3 = "?s2\<lparr>reader := RDone\<rparr>"
  have "pipe_step start_pipe ?s1" by (rule writer_go) (simp_all add: start_pipe_def)
  moreover have "pipe_step ?s1 ?s2" by (rule key_stop) (simp_all add: start_pipe_def)
  moreover have "pipe_step ?s2 ?s3" by (rule reader_end) (simp_all add: start_pipe_def)
  ultimately have "pipe_run start_pipe ?s3" by (blast intro: pipe_run.intros)
  moreover have "stuck ?s3" by (simp add: stuck_def start_pipe_def new_queue_def)
  ultimately show ?thesis by blast
qed

text \<open>
  C33.  Stopping can hang.  \<open>pop\<close> waits for a frame and never returns false, so when the recording is
  stopped after the encoder thread has tested the flag and the queue is empty, the thread waits
  for ever: such a state is reachable, and whatever happens then, the encoder thread does not end,
  so \<open>videoCaptureAndEncoding\<close> never gets past joining it and the file is never closed.
\<close>

theorem pipe_stop_hangs:
  "\<exists>s. pipe_run (start_pipe :: 'f pipe) s \<and> \<not> m_recording s \<and> reader s = RDone \<and>
     (\<forall>s'. pipe_run s s' \<longrightarrow> writer s' = WPop)"
  using stuck_reached stuck_run unfolding stuck_def by blast

theorem pipe_stop_hangs_witness:
  "\<exists>s. pipe_run (start_pipe :: nat pipe) s \<and> writer s = WPop \<and> \<not> m_recording s"
  using pipe_stop_hangs pipe_start by blast

end
