(* ===== verification/Gui.thy ===== *)
theory Gui
  imports Complex_Main Pipeline "HOL-Library.Signed_Division"
begin

text \<open>
  The window of the application (src/CVideoCaptureGUI.cpp, inc/CVideoCaptureGUI.hpp): what
  \<open>WindowProc\<close> does with a message, the start in \<open>WinMain\<close>, the geometry of \<open>RenderFrame\<close> and the
  ledger of \<open>DecodeAndRenderFrame\<close>.  Windows itself is not modelled; what the handler asks of it
  and of the other parts is the list \<open>actions\<close>.
\<close>

subsection \<open>State\<close>

datatype video_thread = NotJoinable | Running | Ended

datatype action =
    Play_video "string option"
  | Remux_video string "string option"
  | Message_box string
  | Server_start
  | Server_delete
  | Post_quit
  | Def_window_proc

record gui =
  gui_this :: bool
  m_videoStreamPtr :: bool
  recording_flag :: bool
  m_videoThread :: video_thread
  button_text :: string
  wide_strings :: nat
  actions :: "action list"

datatype crash = Null_environment | Null_video_stream

datatype win_msg = Wm_nccreate | Wm_destroy | Wm_command nat | Wm_other

text \<open>The environment of a message: the two variables, the files' times, the answer of \<open>remuxVideo\<close>.\<close>

record gui_env =
  file_path :: "string option"
  muxed_path :: "string option"
  file_time :: "string \<Rightarrow> int option"
  remux_works :: bool
  thread_starts :: bool

definition log :: "action \<Rightarrow> gui \<Rightarrow> gui" where
  "log a g = g\<lparr>actions := actions g @ [a]\<rparr>"

subsection \<open>The buttons\<close>

text \<open>
  The joined thread has to end for \<open>join\<close> to return: \<open>ends\<close> says whether it does, and \<open>None\<close> that
  the handler hangs.
\<close>

definition start_stop :: "gui_env \<Rightarrow> bool \<Rightarrow> gui \<Rightarrow> (crash, gui) outcome option" where
  "start_stop v ends g =
     (if \<not> m_videoStreamPtr g then Some (Throw Null_video_stream)
      else if recording_flag g
      then
        let g = g\<lparr>recording_flag := False\<rparr> in
        if m_videoThread g = NotJoinable then Some (Ret (g\<lparr>button_text := ''Start''\<rparr>))
        else if m_videoThread g = Ended \<or> ends
        then Some (Ret (g\<lparr>m_videoThread := NotJoinable, button_text := ''Start''\<rparr>))
        else None
      else
        let g = g\<lparr>recording_flag := True\<rparr>;
            g = (if m_videoThread g = NotJoinable \<and> thread_starts v then g\<lparr>m_videoThread := Running\<rparr> else g)
        in Some (Ret (g\<lparr>button_text := ''Stop''\<rparr>)))"

definition play_file :: "string option \<Rightarrow> gui \<Rightarrow> (crash, gui) outcome option" where
  "play_file name g =
     (if \<not> m_videoStreamPtr g then Some (Throw Null_video_stream) else Some (Ret (log (Play_video name) g)))"

definition play_button :: "gui_env \<Rightarrow> string \<Rightarrow> string \<Rightarrow> gui \<Rightarrow> (crash, gui) outcome option" where
  "play_button v wide_env_filepath wide_env_muxed_filepath g =
     (case (file_time v wide_env_filepath, file_time v wide_env_muxed_filepath) of
        (Some t1, Some t2) \<Rightarrow> if t1 > t2 then play_file (file_path v) g else play_file (muxed_path v) g
      | (Some _, None) \<Rightarrow> play_file (file_path v) g
      | (None, Some _) \<Rightarrow> play_file (muxed_path v) g
      | (None, None) \<Rightarrow> Some (Ret (log (Message_box ''No video files found.'') g)))"

definition remux_button :: "gui_env \<Rightarrow> string \<Rightarrow> gui \<Rightarrow> (crash, gui) outcome option" where
  "remux_button v name g =
     (if \<not> m_videoStreamPtr g then Some (Throw Null_video_stream)
      else Some (Ret (log (Message_box (if remux_works v then ''Remuxing completed successfully!''
                                        else ''Remuxing failed.''))
                       (log (Remux_video name (muxed_path v)) g))))"

text \<open>The server is owned by a pointer local to the block: it is deleted while its thread runs.\<close>

definition websocket_button :: "gui \<Rightarrow> gui" where
  "websocket_button g = log Server_delete (log Server_start g)"

definition window_command :: "gui_env \<Rightarrow> bool \<Rightarrow> string \<Rightarrow> nat \<Rightarrow> gui \<Rightarrow> (crash, gui) outcome option" where
  "window_command v ends name w g =
     (if w mod 65536 = 1 then start_stop v ends g
      else if w mod 65536 = 2 then play_button v name name g
      else if w mod 65536 = 3 then remux_button v name g
      else if w mod 65536 = 4 then Some (Ret (websocket_button g))
      else Some (Ret g))"

definition window_proc :: "gui_env \<Rightarrow> bool \<Rightarrow> win_msg \<Rightarrow> gui \<Rightarrow> (crash, gui) outcome option" where
  "window_proc v ends msg g =
     (let g = (if msg = Wm_nccreate then g\<lparr>gui_this := True\<rparr> else g) in
      case file_path v of
        None \<Rightarrow> Some (Throw Null_environment)
      | Some name \<Rightarrow>
          let g = g\<lparr>wide_strings := wide_strings g + 2\<rparr> in
          if gui_this g \<and> msg = Wm_destroy then Some (Ret (log Post_quit g))
          else case (gui_this g, msg) of
            (True, Wm_command w) \<Rightarrow> window_command v ends name w g
          | _ \<Rightarrow> Some (Ret (log Def_window_proc (g\<lparr>wide_strings := wide_strings g - 2\<rparr>))))"

text \<open>What \<open>WinMain\<close> has made when \<open>Show\<close> starts to dispatch messages.\<close>

definition win_main :: gui where
  "win_main = \<lparr>gui_this = True, m_videoStreamPtr = False, recording_flag = False,
     m_videoThread = NotJoinable, button_text = ''Start'', wide_strings = 0, actions = []\<rparr>"

definition setVideoStreamingObject :: "gui \<Rightarrow> gui" where
  "setVideoStreamingObject g = g\<lparr>m_videoStreamPtr := True\<rparr>"

text \<open>The loop of \<open>Show\<close>: each message is dispatched; a crash ends it.\<close>

fun show_loop :: "gui_env \<Rightarrow> bool \<Rightarrow> win_msg list \<Rightarrow> gui \<Rightarrow> (crash, gui) outcome option" where
  "show_loop v ends [] g = Some (Ret g)"
| "show_loop v ends (m # ms) g =
     (case window_proc v ends m g of Some (Ret g') \<Rightarrow> show_loop v ends ms g' | r \<Rightarrow> r)"

subsection \<open>RenderFrame\<close>

text \<open>Single precision arithmetic is a parameter: conversion, quotient, product, comparison, truncation.\<close>

record 'f float_ops =
  f_of_int :: "int \<Rightarrow> 'f"
  f_div :: "'f \<Rightarrow> 'f \<Rightarrow> 'f"
  f_mul :: "'f \<Rightarrow> 'f \<Rightarrow> 'f"
  f_greater :: "'f \<Rightarrow> 'f \<Rightarrow> bool"
  f_trunc :: "'f \<Rightarrow> int"

text \<open>Offset and size of the picture in a client area of \<open>rw\<close> by \<open>rh\<close>.\<close>

definition render_rect :: "'f float_ops \<Rightarrow> int \<Rightarrow> int \<Rightarrow> int \<Rightarrow> int \<Rightarrow> int \<times> int \<times> int \<times> int" where
  "render_rect F wd ht rw rh =
     (let aspectRatio = f_div F (f_of_int F wd) (f_of_int F ht);
          (destWidth, destHeight) =
            (if f_greater F (f_of_int F rw) (f_mul F (f_of_int F rh) aspectRatio)
             then (f_trunc F (f_mul F (f_of_int F rh) aspectRatio), rh)
             else (rw, f_trunc F (f_div F (f_of_int F rw) aspectRatio)))
      in ((rw - destWidth) sdiv 2, (rh - destHeight) sdiv 2, destWidth, destHeight))"

subsection \<open>DecodeAndRenderFrame\<close>

definition decode_render :: "'x av_env \<Rightarrow> byte list \<Rightarrow> int \<Rightarrow> int \<Rightarrow> 'x av \<Rightarrow> 'x av" where
  "decode_render E encodedData wd ht w =
     (let w = av_do E (Find_decoder AV_CODEC_ID_H264) w in
      case av E Alloc_context3 w of (_, dec, w) \<Rightarrow>
      case av E (Open_codec dec zero_fields) w of (ro, _, w) \<Rightarrow>
      if a_rc ro < 0 then w
      else case av E Frame_alloc w of (_, fr, w) \<Rightarrow>
      case av E Frame_alloc w of (_, rgb, w) \<Rightarrow>
      case av E (Image_get_buffer_size wd ht) w of (rs, _, w) \<Rightarrow>
      case av E (Av_malloc (a_rc rs)) w of (_, buf, w) \<Rightarrow>
      case av E (Sws_getContext wd ht (a_w ro) wd ht AV_PIX_FMT_RGB24 SWS_BILINEAR)
             (av_do E (Image_fill_arrays rgb buf) w) of (_, sws, w) \<Rightarrow>
      case av E (Send_packet dec (zero_packet\<lparr>pk_data := encodedData, pos := -1\<rparr>)) w of (r1, _, w) \<Rightarrow>
      let w = (if a_rc r1 = 0
               then (case av E (Receive_frame dec fr) w of (r2, _, w) \<Rightarrow>
                       if a_rc r2 = 0
                       then av_do E (Notify buf wd ht) (av_do E (Sws_scale sws fr rgb 0 ht) w)
                       else w)
               else w);
          w = av_do E (Av_free buf) w;
          w = av_do E (Frame_free rgb) w;
          w = av_do E (Frame_free fr) w;
          w = av_do E (Codec_free dec) w
      in av_do E (Sws_free sws) w)"

subsection \<open>Properties\<close>

lemmas command_defs = window_command_def start_stop_def play_button_def play_file_def remux_button_def
  websocket_button_def log_def Let_def

lemma window_proc_keeps:
  assumes "window_proc v ends m g = Some (Ret g')"
  shows "m_videoStreamPtr g' = m_videoStreamPtr g" and "gui_this g \<Longrightarrow> gui_this g'"
  using assms
  by (auto simp: window_proc_def command_defs split: option.splits if_splits win_msg.splits bool.splits)

lemma show_loop_keeps:
  assumes "show_loop v ends ms g = Some (Ret g')"
  shows "m_videoStreamPtr g' = m_videoStreamPtr g \<and> (gui_this g \<longrightarrow> gui_this g')"
  using assms
proof (induction ms arbitrary: g)
  case (Cons m ms)
  then obtain g1 where "window_proc v ends m g = Some (Ret g1)" "show_loop v ends ms g1 = Some (Ret g')"
    by (auto split: option.splits outcome.splits)
  with Cons.IH [of g1] window_proc_keeps [of v ends m g g1] show ?case by auto
qed simp

text \<open>
  The program as \<open>WinMain\<close> starts it cannot record, play or remux.  \<open>WinMain\<close> makes a video stream
  and gives it an observer but never gives it to the window, and no message does: after any
  messages, the first click on Start (1) or Remux (3) uses the null pointer, as does Play (2) when
  a file is there.
\<close>

theorem gui_buttons_crash:
  assumes "file_path v = Some name" and "show_loop v ends ms win_main = Some (Ret g)"
  shows "window_proc v ends (Wm_command 1) g = Some (Throw Null_video_stream) \<and>
     window_proc v ends (Wm_command 3) g = Some (Throw Null_video_stream) \<and>
     (if file_time v name = None then True
      else window_proc v ends (Wm_command 2) g = Some (Throw Null_video_stream))"
proof -
  have "\<not> m_videoStreamPtr g" "gui_this g"
    using show_loop_keeps [OF assms(2)] by (simp_all add: win_main_def)
  then show ?thesis
    using assms(1) by (auto simp: window_proc_def command_defs)
qed

definition example_env :: gui_env where
  "example_env = \<lparr>file_path = Some ''a.mp4'', muxed_path = Some ''b.mp4'',
     file_time = (\<lambda>f. if f = ''a.mp4'' then Some 5 else if f = ''b.mp4'' then Some 3 else None), remux_works = True,
     thread_starts = True\<rparr>"

theorem gui_buttons_crash_witness:
  "\<exists>g. show_loop example_env True [Wm_other, Wm_command 4] win_main = Some (Ret g) \<and>
     window_proc example_env True (Wm_command 1) g = Some (Throw Null_video_stream)"
proof -
  obtain g where g: "show_loop example_env True [Wm_other, Wm_command 4] win_main = Some (Ret g)"
    by (simp add: window_proc_def command_defs win_main_def example_env_def)
  have "file_path example_env = Some ''a.mp4''" by (simp add: example_env_def)
  from gui_buttons_crash [OF this g] g show ?thesis by blast
qed

text \<open>The Start button of a window that has its video stream.  When the capture thread has ended by
  itself (a key press, or an encoder or camera that could not be opened) it is still joinable, and
  a click then says Stop and sets the flag with no thread running; the next click joins it, and only
  the third starts a capture again.
\<close>

theorem gui_restart:
  assumes "file_path v \<noteq> None" and "gui_this g" and "m_videoStreamPtr g" and "\<not> recording_flag g"
    and "m_videoThread g = Ended" and "thread_starts v"
  shows "\<exists>g1 g2 g3. window_proc v ends (Wm_command 1) g = Some (Ret g1) \<and>
       recording_flag g1 \<and> m_videoThread g1 \<noteq> Running \<and> button_text g1 = ''Stop'' \<and>
     window_proc v ends (Wm_command 1) g1 = Some (Ret g2) \<and> \<not> recording_flag g2 \<and>
       m_videoThread g2 = NotJoinable \<and> button_text g2 = ''Start'' \<and>
     window_proc v ends (Wm_command 1) g2 = Some (Ret g3) \<and> recording_flag g3 \<and>
       m_videoThread g3 = Running \<and> button_text g3 = ''Stop''"
  using assms by (auto simp: window_proc_def command_defs)

theorem gui_restart_witness:
  "\<exists>g1. window_proc example_env False (Wm_command 1)
       (setVideoStreamingObject (win_main\<lparr>m_videoThread := Ended\<rparr>)) = Some (Ret g1) \<and>
     recording_flag g1 \<and> m_videoThread g1 \<noteq> Running"
  using gui_restart [of example_env "setVideoStreamingObject (win_main\<lparr>m_videoThread := Ended\<rparr>)" False]
  by (auto simp: example_env_def win_main_def setVideoStreamingObject_def)

text \<open>The Play button never compares the two files.  The wide name of the muxed file is made from the
  name of the recording, so whenever the recording exists the muxed file is played, newer or older,
  there or not, and the recording itself never.
\<close>

theorem gui_play_choice:
  assumes "file_path v = Some name" and "gui_this g" and "m_videoStreamPtr g"
  shows "window_proc v ends (Wm_command 2) g =
     Some (Ret (log (if file_time v name = None then Message_box ''No video files found.''
                     else Play_video (muxed_path v)) (g\<lparr>wide_strings := wide_strings g + 2\<rparr>)))"
  using assms by (auto simp: window_proc_def command_defs split: option.splits)

theorem gui_play_choice_witness:
  "window_proc example_env True (Wm_command 2) (setVideoStreamingObject win_main) =
     Some (Ret (log (Play_video (Some ''b.mp4'')) ((setVideoStreamingObject win_main)\<lparr>wide_strings := 2\<rparr>)))"
  using gui_play_choice [of example_env "''a.mp4''" "setVideoStreamingObject win_main" True]
  by (simp add: example_env_def win_main_def setVideoStreamingObject_def numeral_2_eq_2)

text \<open>
  The float laws that the geometry needs, at the sizes at hand: truncation does not step over the
  bound that the comparison has just established.
\<close>

definition float_fits :: "'f float_ops \<Rightarrow> int \<Rightarrow> int \<Rightarrow> int \<Rightarrow> int \<Rightarrow> bool" where
  "float_fits F wd ht rw rh =
     (let a = f_div F (f_of_int F wd) (f_of_int F ht); x = f_mul F (f_of_int F rh) a;
          y = f_div F (f_of_int F rw) a
      in (f_greater F (f_of_int F rw) x \<longrightarrow> 0 \<le> f_trunc F x \<and> f_trunc F x \<le> rw) \<and>
         (\<not> f_greater F (f_of_int F rw) x \<longrightarrow> 0 \<le> f_trunc F y \<and> f_trunc F y \<le> rh))"

lemma sdiv_two: "(0::int) \<le> n \<Longrightarrow> n sdiv 2 = n div 2"
  by (cases "n = 0") (simp_all add: signed_divide_int_def)


definition rational_ops :: "rat float_ops" where
  "rational_ops = \<lparr>f_of_int = of_int, f_div = (/), f_mul = (*), f_greater = (>), f_trunc = floor\<rparr>"


end
