(* ===== verification/WsFrame.thy ===== *)
theory WsFrame
  imports Prelude
begin

text \<open>
  The wire format of WebSocket frames in the library that \<open>VideoStreamSocket\<close> is built on
  (websocketpp/websocket/frame.hpp), for the 64 bit little endian machine that the program is
  built for.  A four byte masking key is the list of its bytes in memory; a \<open>size_t\<close> of eight bytes
  is read from memory by \<open>le_word\<close> and written back by \<open>le_bytes\<close>.
\<close>

unbundle bit_operations_syntax

subsection \<open>Opcodes and limits\<close>

type_synonym opcode = byte

definition op_continuation :: opcode where "op_continuation = 0x0"
definition op_text :: opcode where "op_text = 0x1"
definition op_binary :: opcode where "op_binary = 0x2"
definition op_close :: opcode where "op_close = 0x8"
definition op_ping :: opcode where "op_ping = 0x9"
definition op_pong :: opcode where "op_pong = 0xA"

definition op_reserved :: "opcode \<Rightarrow> bool" where
  "op_reserved v \<longleftrightarrow> (v \<ge> 0x3 \<and> v \<le> 0x7) \<or> (v \<ge> 0xB \<and> v \<le> 0xF)"

text \<open>An enumerator is not negative here, so only the upper bound is left of the test.\<close>

definition op_invalid :: "opcode \<Rightarrow> bool" where
  "op_invalid v \<longleftrightarrow> v > 0xF"

definition op_is_control :: "opcode \<Rightarrow> bool" where
  "op_is_control v \<longleftrightarrow> v \<ge> 0x8"

definition payload_size_basic :: nat where "payload_size_basic = 125"
definition payload_size_extended :: nat where "payload_size_extended = 0xFFFF"
definition payload_size_jumbo :: nat where "payload_size_jumbo = 0x7FFFFFFFFFFFFFFF"
definition close_reason_size :: nat where "close_reason_size = 123"

definition BHB0_OPCODE :: byte where "BHB0_OPCODE = 0x0F"
definition BHB0_RSV3 :: byte where "BHB0_RSV3 = 0x10"
definition BHB0_RSV2 :: byte where "BHB0_RSV2 = 0x20"
definition BHB0_RSV1 :: byte where "BHB0_RSV1 = 0x40"
definition BHB0_FIN :: byte where "BHB0_FIN = 0x80"
definition BHB1_PAYLOAD :: byte where "BHB1_PAYLOAD = 0x7F"
definition BHB1_MASK :: byte where "BHB1_MASK = 0x80"

lemmas header_masks = BHB0_OPCODE_def BHB0_RSV3_def BHB0_RSV2_def BHB0_RSV1_def BHB0_FIN_def
  BHB1_PAYLOAD_def BHB1_MASK_def

subsection \<open>Words in memory\<close>

definition le_bytes :: "u64 \<Rightarrow> byte list" where
  "le_bytes w = rev (be_bytes 8 (unat w))"

definition le_word :: "byte list \<Rightarrow> u64" where
  "le_word bs = word_of_nat (be_val (rev bs))"

text \<open>On a little endian machine \<open>_htonll\<close> swaps the bytes of the union pairwise from both ends.\<close>

definition swap_bytes :: "byte list \<Rightarrow> byte list" where
  "swap_bytes c = [c ! 7, c ! 6, c ! 5, c ! 4, c ! 3, c ! 2, c ! 1, c ! 0]"

definition htonll :: "u64 \<Rightarrow> u64" where
  "htonll src = le_word (swap_bytes (le_bytes src))"

definition ntohll :: "u64 \<Rightarrow> u64" where
  "ntohll src = htonll src"

lemma length_le_bytes [simp]: "length (le_bytes w) = 8"
  by (simp add: le_bytes_def del: be_bytes_numeral)

lemma unat_u64 [simp]: "unat (w :: u64) < 256 ^ 8"
  using unsigned_less [of w] by simp

lemma le_word_le_bytes [simp]: "le_word (le_bytes w) = w"
  using unat_u64 [of w] by (simp add: le_word_def le_bytes_def del: be_bytes_numeral unat_u64)

lemma le_bytes_le_word [simp]:
  assumes "length bs = 8"
  shows "le_bytes (le_word bs) = bs"
proof -
  have "be_val (rev bs) < 256 ^ 8" using be_val_bound [of "rev bs"] assms by simp
  then have "unat (le_word bs) = be_val (rev bs)"
    by (simp add: le_word_def unsigned_of_nat take_bit_nat_eq_self)
  moreover have "be_bytes 8 (be_val (rev bs)) = rev bs"
    using be_bytes_be_val [of "rev bs"] assms by (simp del: be_bytes_numeral)
  ultimately show ?thesis by (simp add: le_bytes_def del: be_bytes_numeral)
qed

lemma swap_is_rev: "length c = 8 \<Longrightarrow> swap_bytes c = rev c"
  by (rule nth_equalityI) (auto simp: swap_bytes_def rev_nth less_Suc_eq numeral_eq_Suc)

lemma le_bytes_htonll [simp]: "le_bytes (htonll w) = be_bytes 8 (unat w)"
  by (simp add: htonll_def swap_is_rev del: be_bytes_numeral)
    (simp add: le_bytes_def del: be_bytes_numeral)

lemma ntohll_le_word:
  "length bs = 8 \<Longrightarrow> ntohll (le_word bs) = word_of_nat (be_val bs)"
proof -
  assume l: "length bs = 8"
  have "ntohll (le_word bs) = le_word (rev bs)"
    using l by (simp add: ntohll_def htonll_def swap_is_rev)
  then show ?thesis by (simp add: le_word_def)
qed

lemma nth_be_bytes: "i < k \<Longrightarrow> be_bytes k v ! i = word_of_nat (v div 256 ^ (k - Suc i))"
  by (induction k arbitrary: i) (auto simp: nth_Cons split: nat.split)

lemma bit_le_bytes:
  assumes "i < 8"
  shows "bit (le_bytes w ! i) j \<longleftrightarrow> j < 8 \<and> bit w (8 * i + j)"
proof -
  have "le_bytes w ! i = word_of_nat (unat w div 256 ^ i)"
    using assms by (simp add: le_bytes_def rev_nth nth_be_bytes del: be_bytes_numeral)
  also have "unat w div 256 ^ i = drop_bit (8 * i) (unat w)"
    by (simp add: drop_bit_eq_div power_mult)
  finally show ?thesis
    by (auto simp: bit_simps bit_of_nat_iff bit_unsigned_iff ac_simps)
qed

subsection \<open>The header\<close>

record basic_header =
  b0 :: byte
  b1 :: byte

definition size_code :: "u64 \<Rightarrow> byte" where
  "size_code sz =
     (if sz \<le> word_of_nat payload_size_basic then ucast sz
      else if sz \<le> word_of_nat payload_size_extended then 0x7E
      else 0x7F)"

definition make_header :: "opcode \<Rightarrow> u64 \<Rightarrow> bool \<Rightarrow> bool \<Rightarrow> bool \<Rightarrow> bool \<Rightarrow> bool \<Rightarrow> basic_header" where
  "make_header opc sz fin msk rsv1 rsv2 rsv3 =
     (let b = (if fin then 0 OR BHB0_FIN else 0);
          b = (if rsv1 then b OR BHB0_RSV1 else b);
          b = (if rsv2 then b OR BHB0_RSV2 else b);
          b = (if rsv3 then b OR BHB0_RSV3 else b);
          b = b OR (opc AND BHB0_OPCODE);
          c = (if msk then 0 OR BHB1_MASK else 0)
      in \<lparr>b0 = b, b1 = c OR size_code sz\<rparr>)"

definition get_fin :: "basic_header \<Rightarrow> bool" where
  "get_fin h \<longleftrightarrow> (b0 h AND BHB0_FIN) = BHB0_FIN"

definition get_rsv1 :: "basic_header \<Rightarrow> bool" where
  "get_rsv1 h \<longleftrightarrow> (b0 h AND BHB0_RSV1) = BHB0_RSV1"

definition get_rsv2 :: "basic_header \<Rightarrow> bool" where
  "get_rsv2 h \<longleftrightarrow> (b0 h AND BHB0_RSV2) = BHB0_RSV2"

definition get_rsv3 :: "basic_header \<Rightarrow> bool" where
  "get_rsv3 h \<longleftrightarrow> (b0 h AND BHB0_RSV3) = BHB0_RSV3"

definition get_masked :: "basic_header \<Rightarrow> bool" where
  "get_masked h \<longleftrightarrow> (b1 h AND BHB1_MASK) = BHB1_MASK"

definition set_fin :: "basic_header \<Rightarrow> bool \<Rightarrow> basic_header" where
  "set_fin h v = h\<lparr>b0 := (if v then b0 h OR BHB0_FIN else b0 h AND NOT BHB0_FIN)\<rparr>"

definition set_rsv1 :: "basic_header \<Rightarrow> bool \<Rightarrow> basic_header" where
  "set_rsv1 h v = h\<lparr>b0 := (if v then b0 h OR BHB0_RSV1 else b0 h AND NOT BHB0_RSV1)\<rparr>"

definition set_rsv2 :: "basic_header \<Rightarrow> bool \<Rightarrow> basic_header" where
  "set_rsv2 h v = h\<lparr>b0 := (if v then b0 h OR BHB0_RSV2 else b0 h AND NOT BHB0_RSV2)\<rparr>"

definition set_rsv3 :: "basic_header \<Rightarrow> bool \<Rightarrow> basic_header" where
  "set_rsv3 h v = h\<lparr>b0 := (if v then b0 h OR BHB0_RSV3 else b0 h AND NOT BHB0_RSV3)\<rparr>"

definition set_masked :: "basic_header \<Rightarrow> bool \<Rightarrow> basic_header" where
  "set_masked h v = h\<lparr>b1 := (if v then b1 h OR BHB1_MASK else b1 h AND NOT BHB1_MASK)\<rparr>"

definition get_opcode :: "basic_header \<Rightarrow> opcode" where
  "get_opcode h = b0 h AND BHB0_OPCODE"

definition get_basic_size :: "basic_header \<Rightarrow> byte" where
  "get_basic_size h = b1 h AND BHB1_PAYLOAD"

definition get_masking_key_offset :: "basic_header \<Rightarrow> nat" where
  "get_masking_key_offset h =
     (if get_basic_size h = 0x7E then 2 else if get_basic_size h = 0x7F then 8 else 0)"

definition get_header_len :: "basic_header \<Rightarrow> nat" where
  "get_header_len h = 2 + get_masking_key_offset h + (if get_masked h then 4 else 0)"

text \<open>The extended header is an array of twelve bytes; \<open>copy_at\<close> is \<open>std::copy\<close> into it.\<close>

definition copy_at :: "nat \<Rightarrow> byte list \<Rightarrow> byte list \<Rightarrow> byte list" where
  "copy_at off src dst = take off dst @ src @ drop (off + length src) dst"

definition empty_extended :: "byte list" where
  "empty_extended = replicate 12 0"

definition payload_offset :: "u64 \<Rightarrow> nat" where
  "payload_offset sz =
     (if sz \<le> word_of_nat payload_size_basic then 8
      else if sz \<le> word_of_nat payload_size_extended then 6 else 0)"

definition extended_size :: "u64 \<Rightarrow> byte list" where
  "extended_size sz = copy_at 0 (drop (payload_offset sz) (le_bytes (htonll sz))) empty_extended"

definition extended_size_key :: "u64 \<Rightarrow> byte list \<Rightarrow> byte list" where
  "extended_size_key sz key = copy_at (8 - payload_offset sz) key (extended_size sz)"

definition prepare_header :: "basic_header \<Rightarrow> byte list \<Rightarrow> byte list" where
  "prepare_header h e = b0 h # b1 h # take (get_header_len h - 2) e"

definition get_masking_key :: "basic_header \<Rightarrow> byte list \<Rightarrow> byte list" where
  "get_masking_key h e =
     (if \<not> get_masked h then [0, 0, 0, 0] else take 4 (drop (get_masking_key_offset h) e))"

definition get_extended_size :: "byte list \<Rightarrow> u16" where
  "get_extended_size e = word_of_nat (be_val (take 2 e))"

definition get_jumbo_size :: "byte list \<Rightarrow> u64" where
  "get_jumbo_size e = ntohll (le_word (take 8 e))"

definition get_payload_size :: "basic_header \<Rightarrow> byte list \<Rightarrow> u64" where
  "get_payload_size h e =
     (if get_basic_size h \<le> word_of_nat payload_size_basic then ucast (get_basic_size h)
      else if get_basic_size h = 0x7E then ucast (get_extended_size e)
      else get_jumbo_size e)"

subsection \<open>Reading back a header\<close>

text \<open>The flags of the first byte do not depend on each other; 256 and 16 cases.\<close>

lemma flag_or [simp]:
  "((x OR y) AND z :: byte) = (x AND z) OR (y AND z)"
  by (rule bit_word_eqI) (auto simp: bit_simps)

lemma low_nibble:
  "((opc AND 0x0F) AND 0x80 :: byte) = 0" "((opc AND 0x0F) AND 0x40 :: byte) = 0"
  "((opc AND 0x0F) AND 0x20 :: byte) = 0" "((opc AND 0x0F) AND 0x10 :: byte) = 0"
  "((opc AND 0x0F) AND 0x0F :: byte) = opc AND 0x0F"
  by (simp_all add: and.assoc)

lemma make_header_flags [simp]:
  "get_fin (make_header opc sz fin msk r1 r2 r3) = fin"
  "get_rsv1 (make_header opc sz fin msk r1 r2 r3) = r1"
  "get_rsv2 (make_header opc sz fin msk r1 r2 r3) = r2"
  "get_rsv3 (make_header opc sz fin msk r1 r2 r3) = r3"
  "get_opcode (make_header opc sz fin msk r1 r2 r3) = opc AND 0x0F"
  by (simp_all add: make_header_def get_fin_def get_rsv1_def get_rsv2_def get_rsv3_def
      get_opcode_def header_masks Let_def low_nibble)

lemma size_code_less: "size_code sz < 0x80"
proof -
  have "unat (size_code sz) < 128"
  proof (cases "sz \<le> 125")
    case True
    then have "unat sz \<le> 125" by (simp add: word_le_nat_alt)
    then have "unat (ucast sz :: byte) \<le> 125" by (simp add: unsigned_ucast_eq take_bit_nat_less_eq_self [THEN order_trans])
    with True show ?thesis by (simp add: size_code_def payload_size_basic_def)
  qed (simp add: size_code_def payload_size_basic_def)
  then show ?thesis by (simp add: word_less_nat_alt)
qed

lemma low_seven: "x < 0x80 \<Longrightarrow> x AND 0x7F = (x :: byte)" "x < 0x80 \<Longrightarrow> x AND 0x80 = (0 :: byte)"
proof -
  assume "x < 0x80"
  then have "unat x < 2 ^ 7" by (simp add: word_less_nat_alt)
  then have x: "take_bit 7 x = x"
    by (metis take_bit_nat_eq_self_iff unsigned_take_bit_eq unsigned_word_eqI)
  have m: "(0x7F :: byte) = mask 7" by (simp add: mask_eq_exp_minus_1)
  show "x AND 0x7F = x" using x unfolding m by (simp add: take_bit_eq_mask)
  then have "x AND 0x80 = (x AND 0x7F) AND 0x80" by simp
  also have "\<dots> = 0" by (simp add: and.assoc)
  finally show "x AND 0x80 = 0" .
qed

lemma make_header_second [simp]:
  "get_masked (make_header opc sz fin msk r1 r2 r3) = msk"
  "get_basic_size (make_header opc sz fin msk r1 r2 r3) = size_code sz"
  using low_seven [OF size_code_less [of sz]]
  by (simp_all add: make_header_def get_masked_def get_basic_size_def header_masks Let_def)

subsection \<open>Masking\<close>

text \<open>The key as an integer is its four bytes read by the machine; the prepared key repeats it.\<close>

definition key_word :: "byte list \<Rightarrow> u64" where
  "key_word key = le_word (key @ [0, 0, 0, 0])"

definition prepare_masking_key :: "byte list \<Rightarrow> u64" where
  "prepare_masking_key key =
     (let low_bits = key_word key; high_bits = key_word key in push_bit 32 high_bits OR low_bits)"

definition circshift_prepared_key :: "u64 \<Rightarrow> nat \<Rightarrow> u64" where
  "circshift_prepared_key prepared_key offset =
     (if offset = 0 then prepared_key
      else (let temp = push_bit ((8 - offset) * 8) prepared_key
            in drop_bit (offset * 8) prepared_key OR temp))"

fun byte_mask_loop :: "byte list \<Rightarrow> nat \<Rightarrow> byte list \<Rightarrow> byte list" where
  "byte_mask_loop key key_index [] = []"
| "byte_mask_loop key key_index (x # xs) =
     (x XOR key ! key_index) # byte_mask_loop key (Suc key_index mod 4) xs"

definition byte_mask :: "byte list \<Rightarrow> byte list \<Rightarrow> nat \<Rightarrow> byte list" where
  "byte_mask data key key_offset = byte_mask_loop key (key_offset mod 4) data"

text \<open>The loop over whole words writes word \<open>i\<close> of the output from word \<open>i\<close> of the input.\<close>

fun mask_words :: "nat \<Rightarrow> byte list \<Rightarrow> u64 \<Rightarrow> byte list" where
  "mask_words 0 input prepared_key = []"
| "mask_words (Suc n) input prepared_key =
     le_bytes (le_word (take 8 input) XOR prepared_key) @ mask_words n (drop 8 input) prepared_key"

definition word_mask_exact :: "byte list \<Rightarrow> byte list \<Rightarrow> byte list" where
  "word_mask_exact input key =
     (let prepared_key = prepare_masking_key key; n = length input div 8
      in mask_words n input prepared_key @
         map (\<lambda>i. input ! i XOR key ! (i mod 4)) [n * 8..<length input])"

definition word_mask_circ :: "byte list \<Rightarrow> u64 \<Rightarrow> byte list \<times> u64" where
  "word_mask_circ input prepared_key =
     (let n = length input div 8; l = length input - n * 8; start = length input - l
      in (mask_words n input prepared_key @
          map (\<lambda>i. input ! (start + i) XOR le_bytes prepared_key ! i) [0..<l],
          circshift_prepared_key prepared_key l))"

definition byte_mask_circ :: "byte list \<Rightarrow> u64 \<Rightarrow> byte list \<times> u64" where
  "byte_mask_circ input prepared_key =
     (let key = take 4 (le_bytes prepared_key)
      in (map (\<lambda>i. input ! i XOR key ! (i mod 4)) [0..<length input],
          circshift_prepared_key prepared_key (length input mod 4)))"

subsection \<open>Masking word by word is masking byte by byte\<close>

lemma byte_mask_length [simp]: "length (byte_mask data key off) = length data"
proof -
  have "length (byte_mask_loop key k data) = length data" for k
    by (induction data arbitrary: k) auto
  then show ?thesis by (simp add: byte_mask_def)
qed

lemma byte_mask_nth [simp]:
  assumes "i < length data"
  shows "byte_mask data key off ! i = data ! i XOR key ! ((off + i) mod 4)"
proof -
  have "k < 4 \<Longrightarrow> byte_mask_loop key k data ! i = data ! i XOR key ! ((k + i) mod 4)" for k
    using assms by (induction data arbitrary: i k) (auto simp: nth_Cons mod_simps split: nat.split)
  from this [of "off mod 4"] show ?thesis by (simp add: byte_mask_def mod_simps)
qed

lemma byte_mask_append:
  "byte_mask (xs @ ys) key off = byte_mask xs key off @ byte_mask ys key (off + length xs)"
  by (rule nth_equalityI) (auto simp: nth_append ac_simps)

lemma byte_mask_twice [simp]: "byte_mask (byte_mask data key off) key off = data"
  by (rule nth_equalityI) (auto simp: xor.assoc)

lemma le_bytes_xor_nth:
  assumes "i < 8" "length xs = 8"
  shows "le_bytes (le_word xs XOR k) ! i = xs ! i XOR le_bytes k ! i"
proof -
  have "bit (xs ! i) j \<longleftrightarrow> j < 8 \<and> bit (le_word xs) (8 * i + j)" for j
    using bit_le_bytes [OF assms(1), of "le_word xs"] assms(2) by simp
  then show ?thesis
    by (intro bit_word_eqI) (auto simp: bit_le_bytes assms(1) bit_simps)
qed

lemma le_bytes_circshift:
  assumes "i < 8" "off < 8"
  shows "le_bytes (circshift_prepared_key k off) ! i = le_bytes k ! ((off + i) mod 8)"
proof (cases "off = 0")
  case False
  have wrap: "(off + i) mod 8 = (if off + i < 8 then off + i else off + i - 8)"
    using assms by (auto simp: mod_if)
  show ?thesis
  proof (rule bit_word_eqI)
    fix j assume j: "j < LENGTH(8)"
    consider "off + i < 8" | "8 \<le> off + i" by linarith
    then show "bit (le_bytes (circshift_prepared_key k off) ! i) j =
      bit (le_bytes k ! ((off + i) mod 8)) j"
    proof cases
      case 1
      then have "\<not> (8 - off) * 8 \<le> 8 * i + j" using j by simp
      then show ?thesis
        using False assms 1 j
        by (simp add: bit_le_bytes circshift_prepared_key_def bit_simps wrap algebra_simps)
    next
      case 2
      then have "(8 - off) * 8 \<le> 8 * i + j" "8 * i + j - (8 - off) * 8 = 8 * (off + i - 8) + j"
        using assms by auto
      moreover have "\<not> bit k (off * 8 + (8 * i + j))"
        using 2 by (intro notI) (auto dest!: bit_imp_le_length)
      ultimately show ?thesis
        using False assms 2 j
        by (simp add: bit_le_bytes circshift_prepared_key_def bit_simps wrap)
    qed
  qed
qed (simp add: circshift_prepared_key_def assms)

text \<open>The state of a masking stream: the bytes of the prepared key are the key from offset \<open>r\<close> on.\<close>

definition key_from :: "byte list \<Rightarrow> nat \<Rightarrow> u64 \<Rightarrow> bool" where
  "key_from key r w \<longleftrightarrow> (\<forall>i<8. le_bytes w ! i = key ! ((r + i) mod 4))"

lemma key_fromD: "key_from key r w \<Longrightarrow> i < 8 \<Longrightarrow> le_bytes w ! i = key ! ((r + i) mod 4)"
  by (simp add: key_from_def)

lemma bit_key_word:
  assumes "length key = 4" "i < 8" "j < 8"
  shows "bit (key_word key) (8 * i + j) \<longleftrightarrow> i < 4 \<and> bit (key ! i) j"
proof -
  have "bit (key_word key) (8 * i + j) \<longleftrightarrow> bit (le_bytes (key_word key) ! i) j"
    using assms by (simp add: bit_le_bytes)
  also have "le_bytes (key_word key) = key @ [0, 0, 0, 0]"
    using assms by (simp add: key_word_def)
  finally show ?thesis
    using assms by (cases "i < 4") (auto simp: nth_append nth_Cons split: nat.split)
qed

lemma prepared_key_from: "length key = 4 \<Longrightarrow> key_from key 0 (prepare_masking_key key)"
  unfolding key_from_def
proof (intro allI impI bit_word_eqI)
  fix i j :: nat assume l: "length key = 4" and i: "i < 8" and j: "j < LENGTH(8)"
  show "bit (le_bytes (prepare_masking_key key) ! i) j = bit (key ! ((0 + i) mod 4)) j"
  proof (cases "i < 4")
    case True
    then have "\<not> 32 \<le> 8 * i + j" using j by simp
    then show ?thesis
      using True i j l by (simp add: bit_le_bytes prepare_masking_key_def Let_def bit_simps bit_key_word)
  next
    case False
    then have e: "32 \<le> 8 * i + j" "8 * i + j - 32 = 8 * (i - 4) + j" "i mod 4 = i - 4"
      using i by (auto simp: mod_if)
    then have "bit (prepare_masking_key key) (8 * i + j) \<longleftrightarrow> bit (key_word key) (8 * (i - 4) + j)"
      using False i j l
      by (simp add: prepare_masking_key_def Let_def bit_simps bit_key_word)
    then show ?thesis
      using i j l e by (auto simp: bit_le_bytes bit_key_word)
  qed
qed

lemma mask_words_length [simp]: "8 * n \<le> length xs \<Longrightarrow> length (mask_words n xs k) = 8 * n"
  by (induction n arbitrary: xs) auto

lemma mask_words_nth:
  assumes "8 * n \<le> length xs" "i < 8 * n"
  shows "mask_words n xs k ! i = xs ! i XOR le_bytes k ! (i mod 8)"
  using assms
proof (induction n arbitrary: xs i)
  case (Suc n)
  then show ?case
    by (cases "i < 8") (auto simp: nth_append le_bytes_xor_nth mod_if [of i])
qed simp

lemma mod_shift: "(r + i mod 8) mod 4 = (r + i) mod (4 :: nat)"
proof -
  have "i mod 8 mod 4 = i mod 4" by (rule mod_mod_cancel) simp
  then show ?thesis by (metis mod_add_right_eq)
qed

lemma key_from_shift:
  assumes "key_from key r w"
  shows "key_from key (r + n) (circshift_prepared_key w (n mod 8))"
    and "key_from key (r + n) (circshift_prepared_key w (n mod 4))"
proof -
  have m: "(r + (a mod 4 + i) mod 8) mod 4 = (r + a + i) mod 4"
    "(r + (a mod 8 + i) mod 8) mod 4 = (r + a + i) mod 4" for a i :: nat
    using mod_shift [of "i + r" a] mod_add_right_eq [of "i + r" a 4]
    by (simp_all add: mod_shift ac_simps)
  show "key_from key (r + n) (circshift_prepared_key w (n mod 8))"
    "key_from key (r + n) (circshift_prepared_key w (n mod 4))"
    using assms by (auto simp: key_from_def le_bytes_circshift m less_trans [of _ 4 8])
qed

lemma word_mask_circ_eq:
  "word_mask_circ xs w =
     (mask_words (length xs div 8) xs w @
      map (\<lambda>i. xs ! (8 * (length xs div 8) + i) XOR le_bytes w ! i) [0..<length xs mod 8],
      circshift_prepared_key w (length xs mod 8))"
proof -
  have "length xs - length xs div 8 * 8 = length xs mod 8"
    "length xs - length xs mod 8 = 8 * (length xs div 8)"
    by (simp_all add: minus_div_mult_eq_mod minus_mod_eq_mult_div)
  then show ?thesis by (simp only: word_mask_circ_def Let_def)
qed

lemma word_mask_circ_spec:
  assumes "key_from key r w"
  shows "fst (word_mask_circ xs w) = byte_mask xs key r"
    and "key_from key (r + length xs) (snd (word_mask_circ xs w))"
proof -
  define n where "n = length xs div 8"
  have n: "8 * n \<le> length xs" and l: "8 * n + length xs mod 8 = length xs"
    by (simp_all add: n_def)
  have m: "(r + (i - 8 * n)) mod 4 = (r + i) mod 4" if "8 * n \<le> i" for i
  proof -
    have "r + i = (r + (i - 8 * n)) + 4 * (2 * n)" using that by simp
    then show ?thesis by (metis mod_mult_self2)
  qed
  show "fst (word_mask_circ xs w) = byte_mask xs key r"
  proof (rule nth_equalityI)
    fix i assume "i < length (fst (word_mask_circ xs w))"
    then have i: "i < length xs" using n l by (simp add: word_mask_circ_eq flip: n_def)
    show "fst (word_mask_circ xs w) ! i = byte_mask xs key r ! i"
    proof (cases "i < 8 * n")
      case True
      then show ?thesis
        using n i assms
        by (simp add: word_mask_circ_eq nth_append mask_words_nth key_from_def mod_shift flip: n_def)
    next
      case False
      then have "i - 8 * n < length xs mod 8" using i l by linarith
      moreover have "i - 8 * n < 8" using calculation by (rule less_trans) simp
      ultimately show ?thesis
        using False n i m [of i] assms
        by (simp add: word_mask_circ_eq nth_append key_from_def flip: n_def)
    qed
  qed (use n l in \<open>simp add: word_mask_circ_eq flip: n_def\<close>)
  show "key_from key (r + length xs) (snd (word_mask_circ xs w))"
    using key_from_shift(1) [OF assms, of "length xs"] by (simp add: word_mask_circ_eq)
qed

lemma byte_mask_circ_spec:
  assumes "key_from key r w"
  shows "fst (byte_mask_circ xs w) = byte_mask xs key r"
    and "key_from key (r + length xs) (snd (byte_mask_circ xs w))"
proof -
  show "fst (byte_mask_circ xs w) = byte_mask xs key r"
    using assms
    by (intro nth_equalityI) (auto simp: byte_mask_circ_def Let_def key_from_def mod_add_right_eq)
  show "key_from key (r + length xs) (snd (byte_mask_circ xs w))"
    using key_from_shift(2) [OF assms, of "length xs"] by (simp add: byte_mask_circ_def Let_def)
qed

lemma word_mask_exact_spec: "length key = 4 \<Longrightarrow> word_mask_exact xs key = byte_mask xs key 0"
proof -
  assume key: "length key = 4"
  define n where "n = length xs div 8"
  have n: "8 * n \<le> length xs" by (simp add: n_def)
  note k = key_fromD [OF prepared_key_from [OF key]]
  show ?thesis
  proof (rule nth_equalityI)
    fix i assume "i < length (word_mask_exact xs key)"
    then have i: "i < length xs" using n by (simp add: word_mask_exact_def Let_def flip: n_def)
    show "word_mask_exact xs key ! i = byte_mask xs key 0 ! i"
    proof (cases "i < 8 * n")
      case True
      then show ?thesis
        using n i k [of "i mod 8"] mod_shift [of 0 i]
        by (simp add: word_mask_exact_def Let_def nth_append mask_words_nth flip: n_def)
    next
      case False
      then show ?thesis
        using n i by (simp add: word_mask_exact_def Let_def nth_append mult.commute flip: n_def)
    qed
  qed (use n in \<open>simp add: word_mask_exact_def Let_def flip: n_def\<close>)
qed

subsection \<open>The extended header\<close>

lemma drop_be_bytes: "drop j (be_bytes k v) = be_bytes (k - j) v"
  by (induction k arbitrary: j) (auto simp: drop_Cons split: nat.split)

lemma payload_offset_le: "payload_offset sz \<le> 8"
  by (simp add: payload_offset_def)

lemma extended_size_eq:
  "extended_size sz = be_bytes (8 - payload_offset sz) (unat sz) @ replicate (4 + payload_offset sz) 0"
proof -
  have "12 - (8 - payload_offset sz) = 4 + payload_offset sz" using payload_offset_le [of sz] by simp
  then show ?thesis
    by (simp add: extended_size_def copy_at_def drop_be_bytes empty_extended_def del: be_bytes_numeral)
qed

lemma extended_size_key_eq:
  "length key = 4 \<Longrightarrow> extended_size_key sz key =
     be_bytes (8 - payload_offset sz) (unat sz) @ key @ replicate (payload_offset sz) 0"
  by (simp add: extended_size_key_def copy_at_def extended_size_eq del: be_bytes_numeral)

lemma size_code_cases:
  obtains (basic) "unat sz \<le> 125" "size_code sz = ucast sz" "payload_offset sz = 8"
  | (ext) "125 < unat sz" "unat sz \<le> 65535" "size_code sz = 0x7E" "payload_offset sz = 6"
  | (jumbo) "65535 < unat sz" "size_code sz = 0x7F" "payload_offset sz = 0"
proof -
  have le: "sz \<le> 125 \<longleftrightarrow> unat sz \<le> 125" "sz \<le> 65535 \<longleftrightarrow> unat sz \<le> 65535"
    by (simp_all add: word_le_nat_alt)
  show thesis
    using that
    by (cases "unat sz \<le> 125"; cases "unat sz \<le> 65535")
      (simp_all add: size_code_def payload_offset_def payload_size_basic_def payload_size_extended_def le)
qed

lemma unat_ucast_small: "unat (sz :: u64) \<le> 125 \<Longrightarrow> unat (ucast sz :: byte) = unat sz"
  by (simp add: unsigned_ucast_eq take_bit_nat_eq_self)

lemma small_code:
  assumes "unat (sz :: u64) \<le> 125"
  shows "(ucast sz :: byte) \<noteq> 0x7E" "(ucast sz :: byte) \<noteq> 0x7F"
    "(ucast sz :: byte) \<le> word_of_nat payload_size_basic" "ucast (ucast sz :: byte) = sz"
proof -
  note u = unat_ucast_small [OF assms]
  show "(ucast sz :: byte) \<noteq> 0x7E" "(ucast sz :: byte) \<noteq> 0x7F"
    "(ucast sz :: byte) \<le> word_of_nat payload_size_basic"
    using u assms by (auto simp: word_le_nat_alt payload_size_basic_def)
  have "unat (take_bit 8 sz) = unat sz"
    using assms by (subst unsigned_take_bit_eq) (simp add: take_bit_nat_eq_self)
  then have "unat (ucast (ucast sz :: byte) :: u64) = unat sz"
    by (simp add: unsigned_ucast_eq)
  then show "ucast (ucast sz :: byte) = sz" by (simp only: word_unat_eq_iff)
qed

lemma masking_key_offset [simp]:
  "get_masking_key_offset (make_header opc sz fin msk r1 r2 r3) = 8 - payload_offset sz"
  by (cases sz rule: size_code_cases) (simp_all add: get_masking_key_offset_def small_code)

lemma header_len [simp]:
  "get_header_len (make_header opc sz fin msk r1 r2 r3) =
     10 - payload_offset sz + (if msk then 4 else 0)"
  using payload_offset_le [of sz] by (simp add: get_header_len_def)

text \<open>What the extended header says of the payload depends on its first bytes only.\<close>

lemma read_payload_size:
  assumes "take (8 - payload_offset sz) e = be_bytes (8 - payload_offset sz) (unat sz)"
  shows "get_payload_size (make_header opc sz fin msk r1 r2 r3) e = sz"
proof (cases sz rule: size_code_cases)
  case basic
  then show ?thesis by (simp add: get_payload_size_def small_code)
next
  case ext
  then have "get_extended_size e = word_of_nat (unat sz)"
    using assms by (simp add: get_extended_size_def del: be_bytes_numeral)
  moreover have "\<not> (0x7E :: byte) \<le> word_of_nat payload_size_basic"
    by (simp add: payload_size_basic_def word_le_nat_alt)
  moreover have "ucast (word_of_nat (unat sz) :: u16) = sz"
    using ext by (intro word_unat_eq_iff [THEN iffD2])
      (simp only: unsigned_ucast_eq unsigned_of_nat, simp add: take_bit_nat_eq_self)
  ultimately show ?thesis using ext by (simp add: get_payload_size_def)
next
  case jumbo
  then have "take 8 e = be_bytes 8 (unat sz)" using assms by simp
  moreover have "unat sz < 256 ^ 8" by (rule unat_u64)
  ultimately have "get_jumbo_size e = sz"
    by (simp add: get_jumbo_size_def ntohll_le_word del: be_bytes_numeral unat_u64)
  moreover have "\<not> (0x7F :: byte) \<le> word_of_nat payload_size_basic"
    by (simp add: payload_size_basic_def word_le_nat_alt)
  ultimately show ?thesis using jumbo by (simp add: get_payload_size_def)
qed

subsection \<open>Masking a payload that arrives in pieces\<close>

text \<open>A payload in pieces, each masked in place by the word-wise or the byte-wise routine.\<close>

fun mask_pieces :: "(bool \<times> byte list) list \<Rightarrow> u64 \<Rightarrow> byte list \<times> u64" where
  "mask_pieces [] w = ([], w)"
| "mask_pieces ((words, xs) # ps) w =
     (let (ys, w) = (if words then word_mask_circ xs w else byte_mask_circ xs w);
          (zs, w) = mask_pieces ps w
      in (ys @ zs, w))"

lemma mask_pieces_spec:
  "key_from key r w \<Longrightarrow>
     fst (mask_pieces ps w) = byte_mask (concat (map snd ps)) key r \<and>
     key_from key (r + length (concat (map snd ps))) (snd (mask_pieces ps w))"
proof (induction ps arbitrary: r w)
  case Nil
  then show ?case by (simp add: byte_mask_def)
next
  case (Cons p ps)
  obtain words xs where p: "p = (words, xs)" by (cases p)
  define u where "u = (if words then word_mask_circ xs w else byte_mask_circ xs w)"
  have u: "fst u = byte_mask xs key r" "key_from key (r + length xs) (snd u)"
    using word_mask_circ_spec [OF Cons.prems] byte_mask_circ_spec [OF Cons.prems]
    by (simp_all add: u_def)
  then show ?case
    using Cons.IH [OF u(2)]
    by (auto simp: p byte_mask_append add.assoc split: prod.split simp flip: u_def)
qed

text \<open>C11. A payload masked in pieces, each piece by the word-wise or by the byte-wise circular
  routine with the prepared key that the piece before handed on, is the payload masked byte by byte
  with the four byte key; so is a payload masked at once by \<open>word_mask_exact\<close>; and masking twice with
  the same key gives the payload back. Endpoints that mask and unmask in different ways agree.\<close>

theorem masking_in_pieces:
  assumes "length key = 4"
  shows "fst (mask_pieces ps (prepare_masking_key key)) = byte_mask (concat (map snd ps)) key 0 \<and>
    word_mask_exact data key = byte_mask data key 0 \<and>
    byte_mask (byte_mask data key off) key off = data"
  using mask_pieces_spec [OF prepared_key_from [OF assms], of ps] word_mask_exact_spec [OF assms]
  by simp

theorem masking_in_pieces_witness:
  "fst (mask_pieces [(True, [1, 2, 3]), (False, [4, 5])] (prepare_masking_key [7, 0, 255, 1])) =
   [6, 2, 252, 5, 2]"
  using masking_in_pieces [of "[7, 0, 255, 1]" "[(True, [1, 2, 3]), (False, [4, 5])]"]
  by (simp add: byte_mask_def)

end
