(* ===== verification/WsUtf8.thy ===== *)
theory WsUtf8
  imports Prelude
begin

text \<open>
  The streaming UTF-8 validator of the WebSocket library (websocketpp/websocket/utf8_validator.hpp):
  its table driven automaton, the validator object, and the proof that it accepts exactly the
  encodings of sequences of Unicode scalar values (RFC 3629).
\<close>

unbundle bit_operations_syntax

subsection \<open>The automaton\<close>

definition utf8_accept :: u32 where "utf8_accept = 0"
definition utf8_reject :: u32 where "utf8_reject = 1"

definition utf8d :: "byte list" where
  "utf8d = [
  0,0,0,0,0,0,0,0,0,0,0,0,0,0,0,0,0,0,0,0,0,0,0,0,0,0,0,0,0,0,0,0,
  0,0,0,0,0,0,0,0,0,0,0,0,0,0,0,0,0,0,0,0,0,0,0,0,0,0,0,0,0,0,0,0,
  0,0,0,0,0,0,0,0,0,0,0,0,0,0,0,0,0,0,0,0,0,0,0,0,0,0,0,0,0,0,0,0,
  0,0,0,0,0,0,0,0,0,0,0,0,0,0,0,0,0,0,0,0,0,0,0,0,0,0,0,0,0,0,0,0,
  1,1,1,1,1,1,1,1,1,1,1,1,1,1,1,1,9,9,9,9,9,9,9,9,9,9,9,9,9,9,9,9,
  7,7,7,7,7,7,7,7,7,7,7,7,7,7,7,7,7,7,7,7,7,7,7,7,7,7,7,7,7,7,7,7,
  8,8,2,2,2,2,2,2,2,2,2,2,2,2,2,2,2,2,2,2,2,2,2,2,2,2,2,2,2,2,2,2,
  0xa,0x3,0x3,0x3,0x3,0x3,0x3,0x3,0x3,0x3,0x3,0x3,0x3,0x4,0x3,0x3,
  0xb,0x6,0x6,0x6,0x5,0x8,0x8,0x8,0x8,0x8,0x8,0x8,0x8,0x8,0x8,0x8,
  0x0,0x1,0x2,0x3,0x5,0x8,0x7,0x1,0x1,0x1,0x4,0x6,0x1,0x1,0x1,0x1,
  1,1,1,1,1,1,1,1,1,1,1,1,1,1,1,1,1,0,1,1,1,1,1,0,1,0,1,1,1,1,1,1,
  1,2,1,1,1,1,1,2,1,2,1,1,1,1,1,1,1,1,1,1,1,1,1,2,1,1,1,1,1,1,1,1,
  1,2,1,1,1,1,1,1,1,2,1,1,1,1,1,1,1,1,1,1,1,1,1,3,1,3,1,1,1,1,1,1,
  1,3,1,1,1,1,1,3,1,3,1,1,1,1,1,1,1,3,1,1,1,1,1,1,1,1,1,1,1,1,1,1]"

fun decode :: "u32 \<Rightarrow> u32 \<Rightarrow> byte \<Rightarrow> u32 \<times> u32" where
  "decode state codep b =
     (let type = utf8d ! unat b;
          codep = (if state \<noteq> utf8_accept then (ucast b AND 0x3f) OR push_bit 6 codep
                   else drop_bit (unat type) 0xff AND ucast b);
          state = ucast (utf8d ! (256 + unat state * 16 + unat type))
      in (state, codep))"

record validator =
  v_state :: u32
  v_codepoint :: u32

definition new_validator :: validator where
  "new_validator = \<lparr>v_state = utf8_accept, v_codepoint = 0\<rparr>"

definition validator_consume :: "byte \<Rightarrow> validator \<Rightarrow> bool \<times> validator" where
  "validator_consume b v =
     (let (state, codep) = decode (v_state v) (v_codepoint v) b
      in (state \<noteq> utf8_reject, \<lparr>v_state = state, v_codepoint = codep\<rparr>))"

fun validator_decode :: "byte list \<Rightarrow> validator \<Rightarrow> bool \<times> validator" where
  "validator_decode [] v = (True, v)"
| "validator_decode (b # bs) v =
     (let (state, codep) = decode (v_state v) (v_codepoint v) b;
          v = \<lparr>v_state = state, v_codepoint = codep\<rparr>
      in if state = utf8_reject then (False, v) else validator_decode bs v)"

definition complete :: "validator \<Rightarrow> bool" where
  "complete v \<longleftrightarrow> v_state v = utf8_accept"

definition reset_validator :: "validator \<Rightarrow> validator" where
  "reset_validator v = v\<lparr>v_state := utf8_accept, v_codepoint := 0\<rparr>"

definition validate :: "byte list \<Rightarrow> bool" where
  "validate s = (let (ok, v) = validator_decode s new_validator in if \<not> ok then False else complete v)"

subsection \<open>The table\<close>

text \<open>The class of a byte, and the state that follows a byte, as ranges.\<close>

definition byte_type :: "nat \<Rightarrow> nat" where
  "byte_type n =
     (if n < 0x80 then 0 else if n < 0x90 then 1 else if n < 0xA0 then 9 else if n < 0xC0 then 7
      else if n < 0xC2 then 8 else if n < 0xE0 then 2 else if n = 0xE0 then 10
      else if n = 0xED then 4 else if n < 0xF0 then 3 else if n = 0xF0 then 11
      else if n < 0xF4 then 6 else if n = 0xF4 then 5 else 8)"

definition next_state :: "nat \<Rightarrow> nat \<Rightarrow> nat" where
  "next_state s n =
     (if s = 0 then
        if n < 0x80 then 0 else if n < 0xC2 then 1 else if n < 0xE0 then 2 else if n = 0xE0 then 4
        else if n = 0xED then 5 else if n < 0xF0 then 3 else if n = 0xF0 then 6
        else if n < 0xF4 then 7 else if n = 0xF4 then 8 else 1
      else if s = 2 then if 0x80 \<le> n \<and> n < 0xC0 then 0 else 1
      else if s = 3 then if 0x80 \<le> n \<and> n < 0xC0 then 2 else 1
      else if s = 4 then if 0xA0 \<le> n \<and> n < 0xC0 then 2 else 1
      else if s = 5 then if 0x80 \<le> n \<and> n < 0xA0 then 2 else 1
      else if s = 6 then if 0x90 \<le> n \<and> n < 0xC0 then 3 else 1
      else if s = 7 then if 0x80 \<le> n \<and> n < 0xC0 then 3 else 1
      else if s = 8 then if 0x80 \<le> n \<and> n < 0x90 then 3 else 1
      else 1)"

definition state_rows :: "byte list" where
  "state_rows = drop 256 utf8d"

lemma utf8d_eq:
  "utf8d = replicate 128 0 @ replicate 16 1 @ replicate 16 9 @ replicate 32 7 @ replicate 2 8 @
     replicate 30 2 @ [10] @ replicate 12 3 @ [4] @ replicate 2 3 @ [11] @ replicate 3 6 @ [5] @
     replicate 11 8 @ state_rows"
  by (simp add: utf8d_def state_rows_def numeral_eq_Suc)

lemma utf8d_type: "n < 256 \<Longrightarrow> utf8d ! n = word_of_nat (byte_type n)"
  unfolding utf8d_eq by (auto simp: nth_append byte_type_def nth_Cons')

lemma utf8d_state:
  assumes "s < 9" "t < 12"
  shows "utf8d ! (256 + s * 16 + t) = state_rows ! (s * 16 + t)"
  by (simp add: state_rows_def utf8d_def add.assoc)

lemma state_rows_eq [unfolded utf8d_def, simplified]: "state_rows = drop 256 utf8d"
  by (rule state_rows_def)

lemma below_nine: "s < 9 \<Longrightarrow> s \<in> {0, 1, 2, 3, 4, 5, 6, 7, 8 :: nat}"
  by auto

lemma byte_type_cases:
  "n < 256 \<Longrightarrow> (byte_type n, n) \<in>
     {0} \<times> {..<0x80} \<union> {1} \<times> {0x80..<0x90} \<union> {9} \<times> {0x90..<0xA0} \<union> {7} \<times> {0xA0..<0xC0} \<union>
     {8} \<times> {0xC0..<0xC2} \<union> {2} \<times> {0xC2..<0xE0} \<union> {(10, 0xE0)} \<union> {4} \<times> {0xED} \<union>
     {3} \<times> ({0xE1..<0xF0} - {0xED}) \<union> {(11, 0xF0)} \<union> {6} \<times> {0xF1..<0xF4} \<union> {(5, 0xF4)} \<union>
     {8} \<times> {0xF5..<256}"
  by (auto simp: byte_type_def)

lemma transition:
  assumes "s < 9" "n < 256"
  shows "utf8d ! (256 + s * 16 + byte_type n) = word_of_nat (next_state s n)"
proof -
  have t: "byte_type n < 12" by (simp add: byte_type_def)
  show ?thesis
    unfolding utf8d_state [OF assms(1) t]
    using below_nine [OF assms(1)] byte_type_cases [OF assms(2)]
    by (elim insertE emptyE UnE) (auto simp: state_rows_eq next_state_def)
qed

subsection \<open>The language of the automaton\<close>

fun accepts :: "nat \<Rightarrow> byte list \<Rightarrow> bool" where
  "accepts s [] \<longleftrightarrow> s = 0"
| "accepts s (b # bs) \<longleftrightarrow> next_state s (unat b) \<noteq> 1 \<and> accepts (next_state s (unat b)) bs"

lemma next_state_less: "next_state s n < 9"
  by (simp add: next_state_def)

lemma small_word: "s < 9 \<Longrightarrow> unat (word_of_nat s :: u32) = s" "t < 12 \<Longrightarrow> unat (word_of_nat t :: byte) = t"
  "s < 9 \<Longrightarrow> (ucast (word_of_nat s :: byte) :: u32) = word_of_nat s"
proof -
  show "s < 9 \<Longrightarrow> unat (word_of_nat s :: u32) = s" "t < 12 \<Longrightarrow> unat (word_of_nat t :: byte) = t"
    by (simp_all add: unsigned_of_nat take_bit_nat_eq_self)
  assume "s < 9"
  then have "s \<in> {0, 1, 2, 3, 4, 5, 6, 7, 8}" by (rule below_nine)
  then show "(ucast (word_of_nat s :: byte) :: u32) = word_of_nat s" by auto
qed

lemma decode_step:
  assumes "s < 9"
  shows "fst (decode (word_of_nat s) cp b) = word_of_nat (next_state s (unat b))"
proof -
  have t: "byte_type (unat b) < 12" by (simp add: byte_type_def)
  have "unat b < 256" by simp
  then show ?thesis
    using transition [OF assms, of "unat b"] assms t next_state_less [of s "unat b"]
    by (simp add: Let_def utf8d_type small_word)
qed

lemma decode_accepts:
  "s < 9 \<Longrightarrow> v_state v = word_of_nat s \<Longrightarrow>
     fst (validator_decode bs v) \<and> complete (snd (validator_decode bs v)) \<longleftrightarrow> accepts s bs"
proof (induction bs arbitrary: s v)
  case Nil
  have "word_of_nat s = (0 :: u32) \<longleftrightarrow> s = 0" using small_word(1) [OF Nil(1)] by (cases "s = 0") auto
  then show ?case using Nil by (simp add: complete_def utf8_accept_def)
next
  case (Cons b bs)
  define t where "t = next_state s (unat b)"
  have t: "t < 9" unfolding t_def by (rule next_state_less)
  obtain cp where d: "decode (v_state v) (v_codepoint v) b = (word_of_nat t, cp)"
    using decode_step [OF Cons.prems(1), of "v_codepoint v" b] Cons.prems(2)
    by (metis prod.collapse t_def)
  have "(word_of_nat t :: u32) = utf8_reject \<longleftrightarrow> t = 1"
    using small_word(1) [OF t] by (cases "t = 1") (auto simp: utf8_reject_def)
  then show ?case
    using Cons.IH [OF t, of "\<lparr>v_state = word_of_nat t, v_codepoint = cp\<rparr>"] d
    by (simp add: Let_def del: decode.simps flip: t_def)
qed

lemma validate_accepts: "validate bs \<longleftrightarrow> accepts 0 bs"
  using decode_accepts [of 0 new_validator bs]
  by (auto simp: validate_def new_validator_def utf8_accept_def split: prod.splits)

subsection \<open>UTF-8 as an encoding of scalar values\<close>

definition scalar :: "nat \<Rightarrow> bool" where
  "scalar cp \<longleftrightarrow> cp < 0xD800 \<or> 0xE000 \<le> cp \<and> cp < 0x110000"

definition utf8_units :: "nat \<Rightarrow> nat list" where
  "utf8_units cp =
     (if cp < 0x80 then [cp]
      else if cp < 0x800 then [0xC0 + cp div 64, 0x80 + cp mod 64]
      else if cp < 0x10000 then [0xE0 + cp div 4096, 0x80 + cp div 64 mod 64, 0x80 + cp mod 64]
      else [0xF0 + cp div 262144, 0x80 + cp div 4096 mod 64, 0x80 + cp div 64 mod 64, 0x80 + cp mod 64])"

definition utf8_encode :: "nat \<Rightarrow> byte list" where
  "utf8_encode cp = map word_of_nat (utf8_units cp)"

lemma continuation_next: "0x80 \<le> n \<Longrightarrow> n < 0xC0 \<Longrightarrow> s \<in> {2, 3, 7} \<Longrightarrow>
    next_state s n = (if s = 2 then 0 else if s = 3 then 2 else 3)"
  by (auto simp: next_state_def)

lemma unit_byte: "n < 256 \<Longrightarrow> unat (word_of_nat n :: byte) = n"
  by (simp add: unsigned_of_nat take_bit_nat_eq_self)

lemma accepts_units: "n < 256 \<Longrightarrow>
    accepts s (map word_of_nat (n # ns) @ bs) \<longleftrightarrow>
      next_state s n \<noteq> 1 \<and> accepts (next_state s n) (map word_of_nat ns @ bs)"
  by (simp add: unit_byte)

lemma base_64:
  "(y :: nat) < 64 \<Longrightarrow> (x * 64 + y) div 64 = x" "y < 64 \<Longrightarrow> (x * 64 + y) mod 64 = y"
  by simp_all

lemma div_digits: "cp div 4096 = cp div 64 div (64 :: nat)" "cp div 262144 = cp div 4096 div (64 :: nat)"
  by (simp_all flip: div_mult2_eq)

lemma digits_64:
  fixes cp :: nat
  shows "cp = cp div 4096 * 4096 + cp div 64 mod 64 * 64 + cp mod 64"
    and "cp = cp div 262144 * 262144 + cp div 4096 mod 64 * 4096 + cp div 64 mod 64 * 64 + cp mod 64"
proof -
  have m: "cp = cp div 64 * 64 + cp mod 64" "cp div 64 = cp div 64 div 64 * 64 + cp div 64 mod 64"
    "cp div 4096 = cp div 4096 div 64 * 64 + cp div 4096 mod 64"
    by simp_all
  show "cp = cp div 4096 * 4096 + cp div 64 mod 64 * 64 + cp mod 64"
    using m(1,2) unfolding div_digits(1) by linarith
  then show "cp = cp div 262144 * 262144 + cp div 4096 mod 64 * 4096 + cp div 64 mod 64 * 64 + cp mod 64"
    using m(3) unfolding div_digits(2) by linarith
qed

lemma accepts_encode:
  assumes "scalar cp"
  shows "accepts 0 (utf8_encode cp @ bs) \<longleftrightarrow> accepts 0 bs"
proof -
  define r q p where "r = cp mod 64" and "q = cp div 64 mod 64" and "p = cp div 4096 mod 64"
  have r: "r < 64" and q: "q < 64" and p: "p < 64" by (simp_all add: r_def q_def p_def)
  note [simp] = accepts_units next_state_def and [simp del] = list.map(2) accepts.simps
  consider "cp < 0x80" | "0x80 \<le> cp" "cp < 0x800" | "0x800 \<le> cp" "cp < 0x10000" | "0x10000 \<le> cp"
    by linarith
  then show ?thesis
  proof cases
    case 1
    then show ?thesis by (simp add: utf8_encode_def utf8_units_def)
  next
    case 2
    define h where "h = cp div 64"
    have h: "2 \<le> h" "h < 32" using 2 unfolding h_def by simp_all
    have e: "utf8_encode cp = map word_of_nat [0xC0 + h, 0x80 + r]"
      using 2 by (simp add: utf8_encode_def utf8_units_def h_def r_def)
    show ?thesis unfolding e using h r by simp
  next
    case 3
    define h where "h = cp div 4096"
    have h: "cp = h * 4096 + q * 64 + r" using digits_64(1) [of cp] by (simp only: h_def q_def r_def)
    then have h': "h < 16" using 3 by linarith
    have e: "utf8_encode cp = map word_of_nat [0xE0 + h, 0x80 + q, 0x80 + r]"
      using 3 by (simp add: utf8_encode_def utf8_units_def h_def q_def r_def)
    have "h = 0 \<Longrightarrow> 32 \<le> q" "h = 13 \<Longrightarrow> q < 32" using 3 h q r assms by (auto simp: scalar_def)
    then show ?thesis
      unfolding e using h' q r by (cases "h = 0"; cases "h = 13") simp_all
  next
    case 4
    define h where "h = cp div 262144"
    have h: "cp = h * 262144 + p * 4096 + q * 64 + r"
      using digits_64(2) [of cp] by (simp only: h_def p_def q_def r_def)
    then have h': "h < 5" using assms unfolding scalar_def by linarith
    have e: "utf8_encode cp = map word_of_nat [0xF0 + h, 0x80 + p, 0x80 + q, 0x80 + r]"
      using 4 by (simp add: utf8_encode_def utf8_units_def h_def p_def q_def r_def)
    have "h = 0 \<Longrightarrow> 16 \<le> p" "h = 4 \<Longrightarrow> p < 16" using 4 h p q r assms by (auto simp: scalar_def)
    then show ?thesis
      unfolding e using h' p q r by (cases "h = 0"; cases "h = 4") simp_all
  qed
qed

text \<open>What the first byte of an accepted sequence announces follows.\<close>

lemma accepts_tail:
  "accepts s bs \<Longrightarrow> s \<noteq> 0 \<Longrightarrow>
     \<exists>c cs. bs = c # cs \<and> next_state s (unat c) \<noteq> 1 \<and> accepts (next_state s (unat c)) cs"
  by (cases bs) auto

lemma next_ranges:
  "next_state 2 n \<noteq> 1 \<longleftrightarrow> 0x80 \<le> n \<and> n < 0xC0" "next_state 3 n \<noteq> 1 \<longleftrightarrow> 0x80 \<le> n \<and> n < 0xC0"
  "next_state 4 n \<noteq> 1 \<longleftrightarrow> 0xA0 \<le> n \<and> n < 0xC0" "next_state 5 n \<noteq> 1 \<longleftrightarrow> 0x80 \<le> n \<and> n < 0xA0"
  "next_state 6 n \<noteq> 1 \<longleftrightarrow> 0x90 \<le> n \<and> n < 0xC0" "next_state 7 n \<noteq> 1 \<longleftrightarrow> 0x80 \<le> n \<and> n < 0xC0"
  "next_state 8 n \<noteq> 1 \<longleftrightarrow> 0x80 \<le> n \<and> n < 0x90"
  by (simp_all add: next_state_def)

lemma next_after:
  "next_state 3 n \<noteq> 1 \<Longrightarrow> next_state 3 n = 2" "next_state 4 n \<noteq> 1 \<Longrightarrow> next_state 4 n = 2"
  "next_state 5 n \<noteq> 1 \<Longrightarrow> next_state 5 n = 2" "next_state 6 n \<noteq> 1 \<Longrightarrow> next_state 6 n = 3"
  "next_state 7 n \<noteq> 1 \<Longrightarrow> next_state 7 n = 3" "next_state 8 n \<noteq> 1 \<Longrightarrow> next_state 8 n = 3"
  by (simp_all add: next_state_def split: if_splits)

lemma accepts_two: "accepts 2 bs \<Longrightarrow> \<exists>c cs. bs = c # cs \<and> 0x80 \<le> unat c \<and> unat c < 0xC0"
  using accepts_tail [of 2 bs] by (auto simp: next_ranges [unfolded One_nat_def])

lemma accepts_three:
  assumes "accepts s bs" "s \<in> {3, 4, 5}"
  shows "\<exists>c d cs. bs = c # d # cs \<and> 0x80 \<le> unat c \<and> unat c < 0xC0 \<and> 0x80 \<le> unat d \<and> unat d < 0xC0 \<and>
    (s = 4 \<longrightarrow> 0xA0 \<le> unat c) \<and> (s = 5 \<longrightarrow> unat c < 0xA0)"
proof -
  obtain c bs' where c: "bs = c # bs'" "next_state s (unat c) \<noteq> 1" "accepts (next_state s (unat c)) bs'"
    using accepts_tail [OF assms(1)] assms(2) by (metis empty_iff insertE zero_neq_numeral)
  then have "accepts 2 bs'" using assms(2) next_after by (metis empty_iff insertE)
  then show ?thesis
    using accepts_two [of bs'] c(1,2) assms(2) by (auto simp: next_ranges [unfolded One_nat_def])
qed

lemma accepts_four:
  assumes "accepts s bs" "s \<in> {6, 7, 8}"
  shows "\<exists>c d e cs. bs = c # d # e # cs \<and> 0x80 \<le> unat c \<and> unat c < 0xC0 \<and> 0x80 \<le> unat d \<and> unat d < 0xC0 \<and>
    0x80 \<le> unat e \<and> unat e < 0xC0 \<and> (s = 6 \<longrightarrow> 0x90 \<le> unat c) \<and> (s = 8 \<longrightarrow> unat c < 0x90)"
proof -
  obtain c bs' where c: "bs = c # bs'" "next_state s (unat c) \<noteq> 1" "accepts (next_state s (unat c)) bs'"
    using accepts_tail [OF assms(1)] assms(2) by (metis empty_iff insertE zero_neq_numeral)
  then have "accepts 3 bs'" using assms(2) next_after by (metis empty_iff insertE)
  then show ?thesis
    using accepts_three [of 3 bs'] c(1,2) assms(2) by (auto simp: next_ranges [unfolded One_nat_def])
qed

lemma byte_units: "ns = map unat bs \<Longrightarrow> utf8_units cp = ns \<Longrightarrow> utf8_encode cp = bs"
  by (simp add: utf8_encode_def comp_def map_idI)

lemma units_two: "0xC2 \<le> n \<Longrightarrow> n < 0xE0 \<Longrightarrow> 0x80 \<le> m \<Longrightarrow> m < 0xC0 \<Longrightarrow>
    \<exists>cp. scalar cp \<and> utf8_units cp = [n, m]"
proof -
  assume "0xC2 \<le> n" "n < 0xE0" "0x80 \<le> m" "m < 0xC0"
  moreover define x y where "x = n - 0xC0" and "y = m - 0x80"
  ultimately have "n = 0xC0 + x" "m = 0x80 + y" "2 \<le> x" "x < 32" "y < 64" by linarith+
  then have "scalar (x * 64 + y) \<and> utf8_units (x * 64 + y) = [n, m]"
    by (simp add: scalar_def utf8_units_def)
  then show ?thesis by (rule exI)
qed

lemma units_three:
  assumes "0xE0 \<le> n" "n < 0xF0" "0x80 \<le> m" "m < 0xC0" "0x80 \<le> k" "k < 0xC0"
    and "n = 0xE0 \<longrightarrow> 0xA0 \<le> m" "n = 0xED \<longrightarrow> m < 0xA0"
  shows "\<exists>cp. scalar cp \<and> utf8_units cp = [n, m, k]"
proof -
  obtain x y z where x: "n = 0xE0 + x" "m = 0x80 + y" "k = 0x80 + z"
    using assms by (meson le_Suc_ex)
  define cp where "cp = (x * 64 + y) * 64 + z"
  have b: "x < 16" "y < 64" "z < 64" using assms x by auto
  have d: "cp div 64 = x * 64 + y" "cp mod 64 = z" using b by (simp_all only: cp_def base_64)
  then have "cp div 4096 = x" "cp div 64 mod 64 = y"
    unfolding div_digits d(1) using b by (simp_all only: base_64)
  moreover have "x \<le> 12 \<or> x = 13 \<or> 14 \<le> x" by linarith
  then have "scalar cp" "\<not> cp < 0x800" "cp < 0x10000"
    using assms b x by (auto simp: cp_def scalar_def)
  ultimately show ?thesis using d x by (intro exI [of _ cp]) (simp add: utf8_units_def)
qed

lemma units_four:
  assumes "0xF0 \<le> n" "n < 0xF5" "0x80 \<le> m" "m < 0xC0" "0x80 \<le> k" "k < 0xC0" "0x80 \<le> l" "l < 0xC0"
    and "n = 0xF0 \<longrightarrow> 0x90 \<le> m" "n = 0xF4 \<longrightarrow> m < 0x90"
  shows "\<exists>cp. scalar cp \<and> utf8_units cp = [n, m, k, l]"
proof -
  obtain x y z w where x: "n = 0xF0 + x" "m = 0x80 + y" "k = 0x80 + z" "l = 0x80 + w"
    using assms by (meson le_Suc_ex)
  define cp where "cp = ((x * 64 + y) * 64 + z) * 64 + w"
  have b: "x < 5" "y < 64" "z < 64" "w < 64" using assms x by auto
  have d: "cp div 64 = (x * 64 + y) * 64 + z" "cp mod 64 = w" using b by (simp_all only: cp_def base_64)
  then have e: "cp div 4096 = x * 64 + y" "cp div 64 mod 64 = z"
    unfolding div_digits(1) d(1) using b by (simp_all only: base_64)
  then have "cp div 262144 = x" "cp div 4096 mod 64 = y"
    unfolding div_digits(2) e(1) using b by (simp_all only: base_64)
  moreover have "scalar cp" "\<not> cp < 0x10000"
    using assms b x by (auto simp: cp_def scalar_def)
  ultimately show ?thesis using d e x by (intro exI [of _ cp]) (simp add: utf8_units_def)
qed

lemma accepts_prefix:
  assumes "accepts 0 (b # bs)"
  shows "\<exists>cp cs. scalar cp \<and> b # bs = utf8_encode cp @ cs"
proof -
  define n where "n = unat b"
  have a: "next_state 0 n \<noteq> 1" "accepts (next_state 0 n) bs" using assms by (simp_all add: n_def)
  then consider "n < 0x80" | "0xC2 \<le> n" "n < 0xE0" "next_state 0 n = 2"
    | "0xE0 \<le> n" "n < 0xF0" "next_state 0 n = (if n = 0xE0 then 4 else if n = 0xED then 5 else 3)"
    | "0xF0 \<le> n" "n < 0xF5" "next_state 0 n = (if n = 0xF0 then 6 else if n = 0xF4 then 8 else 7)"
    by (fastforce simp: next_state_def split: if_splits)
  then show ?thesis
  proof cases
    case 1
    then have "utf8_encode n = [b]" by (simp add: utf8_encode_def utf8_units_def n_def)
    with 1 show ?thesis by (intro exI [of _ n] exI [of _ bs]) (simp add: scalar_def)
  next
    case 2
    then obtain c cs where c: "bs = c # cs" "0x80 \<le> unat c" "unat c < 0xC0"
      using a accepts_two [of bs] by auto
    obtain cp where "scalar cp" "utf8_units cp = [n, unat c]" using units_two [OF 2(1,2) c(2,3)] by blast
    then show ?thesis
      using c byte_units [of _ "[b, c]" cp] by (intro exI [of _ cp] exI [of _ cs]) (simp add: n_def)
  next
    case 3
    then obtain c d cs where c: "bs = c # d # cs" "0x80 \<le> unat c" "unat c < 0xC0" "0x80 \<le> unat d"
      "unat d < 0xC0" "n = 0xE0 \<longrightarrow> 0xA0 \<le> unat c" "n = 0xED \<longrightarrow> unat c < 0xA0"
      using a accepts_three [of "next_state 0 n" bs] by (auto split: if_splits)
    obtain cp where "scalar cp" "utf8_units cp = [n, unat c, unat d]"
      using units_three [OF 3(1,2) c(2-7)] by blast
    then show ?thesis
      using c byte_units [of _ "[b, c, d]" cp] by (intro exI [of _ cp] exI [of _ cs]) (simp add: n_def)
  next
    case 4
    then obtain c d e cs where c: "bs = c # d # e # cs" "0x80 \<le> unat c" "unat c < 0xC0" "0x80 \<le> unat d"
      "unat d < 0xC0" "0x80 \<le> unat e" "unat e < 0xC0" "n = 0xF0 \<longrightarrow> 0x90 \<le> unat c" "n = 0xF4 \<longrightarrow> unat c < 0x90"
      using a accepts_four [of "next_state 0 n" bs] by (auto split: if_splits)
    obtain cp where "scalar cp" "utf8_units cp = [n, unat c, unat d, unat e]"
      using units_four [OF 4(1,2) c(2-9)] by blast
    then show ?thesis
      using c byte_units [of _ "[b, c, d, e]" cp] by (intro exI [of _ cp] exI [of _ cs]) (simp add: n_def)
  qed
qed

definition well_formed_utf8 :: "byte list \<Rightarrow> bool" where
  "well_formed_utf8 bs \<longleftrightarrow> (\<exists>cps. (\<forall>cp \<in> set cps. scalar cp) \<and> bs = concat (map utf8_encode cps))"

lemma accepts_well_formed: "accepts 0 bs \<longleftrightarrow> well_formed_utf8 bs"
proof
  assume "accepts 0 bs"
  then show "well_formed_utf8 bs"
  proof (induction bs rule: length_induct)
    case (1 bs)
    show ?case
    proof (cases bs)
      case Nil
      then show ?thesis by (auto simp: well_formed_utf8_def intro: exI [of _ "[]"])
    next
      case (Cons b bs')
      then obtain cp cs where cp: "scalar cp" "bs = utf8_encode cp @ cs" using accepts_prefix 1 by blast
      moreover have "utf8_encode cp \<noteq> []" by (simp add: utf8_encode_def utf8_units_def)
      ultimately have "well_formed_utf8 cs" using 1 accepts_encode by simp
      with cp show ?thesis
        unfolding well_formed_utf8_def by (metis concat.simps(2) list.simps(9) set_ConsD)
    qed
  qed
next
  have "(\<forall>cp \<in> set cps. scalar cp) \<Longrightarrow> accepts 0 (concat (map utf8_encode cps))" for cps
    by (induction cps) (simp_all add: accepts_encode)
  then show "well_formed_utf8 bs \<Longrightarrow> accepts 0 bs" by (auto simp: well_formed_utf8_def)
qed

lemma validator_decode_append:
  "validator_decode (xs @ ys) v =
     (let (ok, v) = validator_decode xs v in if ok then validator_decode ys v else (False, v))"
  by (induction xs arbitrary: v) (simp_all add: Let_def split: prod.splits)

text \<open>C16. The validator accepts a byte sequence exactly when it is the UTF-8 encoding of a sequence of
  Unicode scalar values, so overlong forms, surrogates, values above 10FFFF, stray continuation bytes
  and truncated sequences are rejected; and it can be fed in pieces of any size.\<close>

theorem utf8_validator_correct:
  "(validate bs \<longleftrightarrow> well_formed_utf8 bs) \<and>
   (validate (xs @ ys) \<longleftrightarrow>
      (let (ok, v) = validator_decode xs new_validator; (ok', v) = validator_decode ys v
       in ok \<and> ok' \<and> complete v))"
  by (simp add: validate_accepts accepts_well_formed)
    (auto simp: validator_decode_append validate_def Let_def simp flip: accepts_well_formed validate_accepts
      split: prod.splits)

end
