(* ===== verification/WsClose.thy ===== *)
theory WsClose
  imports WsFrame WsUtf8
begin

text \<open>
  Error codes and close codes of the WebSocket library: the error categories with their messages
  (websocketpp/websocket/error.hpp, processors/base.hpp, transport/base/connection.hpp,
  transport/asio/base.hpp, transport/asio/security/base.hpp and extensions/extension.hpp), the close codes of close.hpp with the tests on them, and the coding of
  a close frame's payload. An empty \<open>lib::error_code\<close> is \<open>None\<close>.
\<close>

subsection \<open>Error codes\<close>

datatype processor_error =
    P_general | P_bad_request | P_protocol_violation | P_message_too_big | P_invalid_payload
  | P_invalid_arguments | P_invalid_opcode | P_control_too_big | P_invalid_rsv_bit
  | P_fragmented_control | P_invalid_continuation | P_masking_required | P_masking_forbidden
  | P_non_minimal_encoding | P_requires_64bit | P_invalid_utf8 | P_not_implemented
  | P_invalid_http_method | P_invalid_http_version | P_invalid_http_status
  | P_missing_required_header | P_sha1_library | P_no_protocol_support | P_reserved_close_code
  | P_invalid_close_code | P_reason_requires_code | P_subprotocol_parse_error
  | P_extension_parse_error | P_extensions_disabled | P_short_key3

datatype ws_error =
    W_general | W_send_queue_full | W_payload_violation | W_endpoint_not_secure
  | W_endpoint_unavailable | W_invalid_uri | W_no_outgoing_buffers | W_no_incoming_buffers
  | W_invalid_state | W_bad_close_code | W_reserved_close_code | W_invalid_close_code
  | W_invalid_utf8 | W_invalid_subprotocol | W_bad_connection | W_test | W_con_creation_failed
  | W_unrequested_subprotocol | W_client_only | W_server_only | W_http_connection_ended
  | W_open_handshake_timeout | W_close_handshake_timeout | W_invalid_port
  | W_async_accept_not_listening | W_operation_canceled | W_rejected | W_upgrade_required
  | W_invalid_version | W_unsupported_version | W_http_parse_error | W_extension_neg_failed

datatype transport_error =
    T_general | T_pass_through | T_invalid_num_bytes | T_double_read | T_operation_aborted
  | T_operation_not_supported | T_eof | T_tls_short_read | T_timeout | T_action_after_shutdown
  | T_tls_error

datatype extension_error = E_general | E_disabled

datatype asio_error =
    A_general | A_invalid_num_bytes | A_pass_through | A_proxy_failed | A_proxy_invalid | A_invalid_host_service

datatype socket_error =
    S_security | S_socket | S_invalid_state | S_invalid_tls_context | S_tls_handshake_timeout | S_pass_through
  | S_missing_tls_init_handler | S_tls_handshake_failed | S_tls_failed_sni_hostname

text \<open>An error code carries its category.\<close>

datatype error_code =
    Processor processor_error | Library ws_error | Transport transport_error
  | Extension extension_error | Asio asio_error | Socket socket_error

primrec processor_message :: "processor_error \<Rightarrow> string" where
  "processor_message P_general = ''Generic processor error''"
| "processor_message P_bad_request = ''invalid user input''"
| "processor_message P_protocol_violation = ''Generic protocol violation''"
| "processor_message P_message_too_big = ''A message was too large''"
| "processor_message P_invalid_payload = ''A payload contained invalid data''"
| "processor_message P_invalid_arguments = ''invalid function arguments''"
| "processor_message P_invalid_opcode = ''invalid opcode''"
| "processor_message P_control_too_big = ''Control messages are limited to fewer than 125 characters''"
| "processor_message P_invalid_rsv_bit = ''Invalid use of reserved bits''"
| "processor_message P_fragmented_control = ''Control messages cannot be fragmented''"
| "processor_message P_invalid_continuation = ''Invalid message continuation''"
| "processor_message P_masking_required = ''Clients may not send unmasked frames''"
| "processor_message P_masking_forbidden = ''Servers may not send masked frames''"
| "processor_message P_non_minimal_encoding = ''Payload length was not minimally encoded''"
| "processor_message P_requires_64bit = ''64 bit frames are not supported on 32 bit systems''"
| "processor_message P_invalid_utf8 = ''Invalid UTF8 encoding''"
| "processor_message P_not_implemented = ''Operation required not implemented functionality''"
| "processor_message P_invalid_http_method = ''Invalid HTTP method.''"
| "processor_message P_invalid_http_version = ''Invalid HTTP version.''"
| "processor_message P_invalid_http_status = ''Invalid HTTP status.''"
| "processor_message P_missing_required_header = ''A required HTTP header is missing''"
| "processor_message P_sha1_library = ''SHA-1 library error''"
| "processor_message P_no_protocol_support = ''The WebSocket protocol version in use does not support this feature''"
| "processor_message P_reserved_close_code = ''Reserved close code used''"
| "processor_message P_invalid_close_code = ''Invalid close code used''"
| "processor_message P_reason_requires_code = ''Using a close reason requires a valid close code''"
| "processor_message P_subprotocol_parse_error = ''Error parsing subprotocol header''"
| "processor_message P_extension_parse_error = ''Error parsing extension header''"
| "processor_message P_extensions_disabled = ''Extensions are disabled''"
| "processor_message P_short_key3 = ''Short Hybi00 Key 3 read''"

primrec library_message :: "ws_error \<Rightarrow> string" where
  "library_message W_general = ''Generic error''"
| "library_message W_send_queue_full = ''send queue full''"
| "library_message W_payload_violation = ''payload violation''"
| "library_message W_endpoint_not_secure = ''endpoint not secure''"
| "library_message W_endpoint_unavailable = ''endpoint not available''"
| "library_message W_invalid_uri = ''invalid uri''"
| "library_message W_no_outgoing_buffers = ''no outgoing message buffers''"
| "library_message W_no_incoming_buffers = ''no incoming message buffers''"
| "library_message W_invalid_state = ''invalid state''"
| "library_message W_bad_close_code = ''Unable to extract close code''"
| "library_message W_invalid_close_code = ''Extracted close code is in an invalid range''"
| "library_message W_reserved_close_code = ''Extracted close code is in a reserved range''"
| "library_message W_invalid_utf8 = ''Invalid UTF-8''"
| "library_message W_invalid_subprotocol = ''Invalid subprotocol''"
| "library_message W_bad_connection = ''Bad Connection''"
| "library_message W_test = ''Test Error''"
| "library_message W_con_creation_failed = ''Connection creation attempt failed''"
| "library_message W_unrequested_subprotocol = ''Selected subprotocol was not requested by the client''"
| "library_message W_client_only = ''Feature not available on server endpoints''"
| "library_message W_server_only = ''Feature not available on client endpoints''"
| "library_message W_http_connection_ended = ''HTTP connection ended''"
| "library_message W_open_handshake_timeout = ''The opening handshake timed out''"
| "library_message W_close_handshake_timeout = ''The closing handshake timed out''"
| "library_message W_invalid_port = ''Invalid URI port''"
| "library_message W_async_accept_not_listening = ''Async Accept not listening''"
| "library_message W_operation_canceled = ''Operation canceled''"
| "library_message W_rejected = ''Connection rejected''"
| "library_message W_upgrade_required = ''Upgrade required''"
| "library_message W_invalid_version = ''Invalid version''"
| "library_message W_unsupported_version = ''Unsupported version''"
| "library_message W_http_parse_error = ''HTTP parse error''"
| "library_message W_extension_neg_failed = ''Extension negotiation failed''"

primrec transport_message :: "transport_error \<Rightarrow> string" where
  "transport_message T_general = ''Generic transport policy error''"
| "transport_message T_pass_through = ''Underlying Transport Error''"
| "transport_message T_invalid_num_bytes = ''async_read_at_least call requested more bytes than buffer can store''"
| "transport_message T_double_read = ''Unknown''"
| "transport_message T_operation_aborted = ''The operation was aborted''"
| "transport_message T_operation_not_supported = ''The operation is not supported by this transport''"
| "transport_message T_eof = ''End of File''"
| "transport_message T_tls_short_read = ''TLS Short Read''"
| "transport_message T_timeout = ''Timer Expired''"
| "transport_message T_action_after_shutdown = ''A transport action was requested after shutdown''"
| "transport_message T_tls_error = ''Generic TLS related error''"

primrec extension_message :: "extension_error \<Rightarrow> string" where
  "extension_message E_general = ''Generic extension error''"
| "extension_message E_disabled = ''Use of methods from disabled extension''"

primrec asio_message :: "asio_error \<Rightarrow> string" where
  "asio_message A_general = ''Generic asio transport policy error''"
| "asio_message A_invalid_num_bytes = ''async_read_at_least call requested more bytes than buffer can store''"
| "asio_message A_pass_through = ''Underlying Transport Error''"
| "asio_message A_proxy_failed = ''Proxy connection failed''"
| "asio_message A_proxy_invalid = ''Invalid proxy URI''"
| "asio_message A_invalid_host_service = ''Invalid host or service''"

primrec socket_message :: "socket_error \<Rightarrow> string" where
  "socket_message S_security = ''Security policy error''"
| "socket_message S_socket = ''Socket component error''"
| "socket_message S_invalid_state = ''Invalid state''"
| "socket_message S_invalid_tls_context = ''Invalid or empty TLS context supplied''"
| "socket_message S_tls_handshake_timeout = ''TLS handshake timed out''"
| "socket_message S_pass_through = ''Pass through from socket policy''"
| "socket_message S_missing_tls_init_handler = ''Required tls_init handler not present.''"
| "socket_message S_tls_handshake_failed = ''TLS handshake failed''"
| "socket_message S_tls_failed_sni_hostname = ''Failed to set TLS SNI hostname''"

text \<open>The message of an error code, as the bytes of a \<open>std::string\<close>.\<close>

definition error_message :: "error_code \<Rightarrow> byte list" where
  "error_message ec =
     bytes_of (case ec of
       Processor e \<Rightarrow> processor_message e
     | Library e \<Rightarrow> library_message e
     | Transport e \<Rightarrow> transport_message e
     | Extension e \<Rightarrow> extension_message e
     | Asio e \<Rightarrow> asio_message e
     | Socket e \<Rightarrow> socket_message e)"

subsection \<open>Close codes\<close>

type_synonym close_code = u16

definition cs_blank :: close_code where "cs_blank = 0"
definition cs_omit_handshake :: close_code where "cs_omit_handshake = 1"
definition cs_force_tcp_drop :: close_code where "cs_force_tcp_drop = 2"
definition cs_normal :: close_code where "cs_normal = 1000"
definition cs_going_away :: close_code where "cs_going_away = 1001"
definition cs_protocol_error :: close_code where "cs_protocol_error = 1002"
definition cs_unsupported_data :: close_code where "cs_unsupported_data = 1003"
definition cs_no_status :: close_code where "cs_no_status = 1005"
definition cs_abnormal_close :: close_code where "cs_abnormal_close = 1006"
definition cs_invalid_payload :: close_code where "cs_invalid_payload = 1007"
definition cs_policy_violation :: close_code where "cs_policy_violation = 1008"
definition cs_message_too_big :: close_code where "cs_message_too_big = 1009"
definition cs_extension_required :: close_code where "cs_extension_required = 1010"
definition cs_internal_endpoint_error :: close_code where "cs_internal_endpoint_error = 1011"
definition cs_service_restart :: close_code where "cs_service_restart = 1012"
definition cs_try_again_later :: close_code where "cs_try_again_later = 1013"
definition cs_bad_gateway :: close_code where "cs_bad_gateway = 1014"
definition cs_tls_handshake :: close_code where "cs_tls_handshake = 1015"
definition cs_subprotocol_error :: close_code where "cs_subprotocol_error = 3000"
definition cs_invalid_subprotocol_data :: close_code where "cs_invalid_subprotocol_data = 3001"
definition cs_rsv_start :: close_code where "cs_rsv_start = 1016"
definition cs_rsv_end :: close_code where "cs_rsv_end = 2999"
definition cs_invalid_low :: close_code where "cs_invalid_low = 999"
definition cs_invalid_high :: close_code where "cs_invalid_high = 5000"

lemmas close_codes = cs_blank_def cs_omit_handshake_def cs_force_tcp_drop_def cs_normal_def cs_going_away_def
  cs_protocol_error_def cs_unsupported_data_def cs_no_status_def cs_abnormal_close_def
  cs_invalid_payload_def cs_policy_violation_def cs_message_too_big_def
  cs_extension_required_def cs_internal_endpoint_error_def cs_service_restart_def
  cs_try_again_later_def cs_bad_gateway_def cs_tls_handshake_def cs_subprotocol_error_def
  cs_invalid_subprotocol_data_def cs_rsv_start_def cs_rsv_end_def cs_invalid_low_def
  cs_invalid_high_def

definition reserved :: "close_code \<Rightarrow> bool" where
  "reserved code \<longleftrightarrow> (code \<ge> cs_rsv_start \<and> code \<le> cs_rsv_end) \<or> code = 1004"

definition invalid :: "close_code \<Rightarrow> bool" where
  "invalid code \<longleftrightarrow> code \<le> cs_invalid_low \<or> code \<ge> cs_invalid_high \<or> code = cs_no_status \<or>
     code = cs_abnormal_close \<or> code = cs_tls_handshake"

definition terminal :: "close_code \<Rightarrow> bool" where
  "terminal code \<longleftrightarrow> code = cs_protocol_error \<or> code = cs_invalid_payload \<or> code = cs_policy_violation \<or>
     code = cs_message_too_big \<or> code = cs_internal_endpoint_error"

definition get_string :: "close_code \<Rightarrow> string" where
  "get_string code =
     (if code = cs_normal then ''Normal close''
      else if code = cs_going_away then ''Going away''
      else if code = cs_protocol_error then ''Protocol error''
      else if code = cs_unsupported_data then ''Unsupported data''
      else if code = cs_no_status then ''No status set''
      else if code = cs_abnormal_close then ''Abnormal close''
      else if code = cs_invalid_payload then ''Invalid payload''
      else if code = cs_policy_violation then ''Policy violoation''
      else if code = cs_message_too_big then ''Message too big''
      else if code = cs_extension_required then ''Extension required''
      else if code = cs_internal_endpoint_error then ''Internal endpoint error''
      else if code = cs_service_restart then ''Service restart''
      else if code = cs_try_again_later then ''Try again later''
      else if code = cs_bad_gateway then ''Bad gateway''
      else if code = cs_tls_handshake then ''TLS handshake failure''
      else if code = cs_subprotocol_error then ''Generic subprotocol error''
      else if code = cs_invalid_subprotocol_data then ''Invalid subprotocol data''
      else ''Unknown'')"

text \<open>\<open>to_ws\<close> picks the close code for an error of the processor.\<close>

definition to_ws :: "error_code \<Rightarrow> close_code" where
  "to_ws ec =
     (case ec of
        Processor e \<Rightarrow>
          if e \<in> {P_protocol_violation, P_control_too_big, P_invalid_opcode, P_invalid_rsv_bit,
                   P_fragmented_control, P_invalid_continuation, P_masking_required,
                   P_masking_forbidden, P_reserved_close_code, P_invalid_close_code}
          then cs_protocol_error
          else if e \<in> {P_invalid_payload, P_invalid_utf8} then cs_invalid_payload
          else if e = P_message_too_big then cs_message_too_big
          else cs_internal_endpoint_error
      | _ \<Rightarrow> cs_blank)"

subsection \<open>The payload of a close frame\<close>

text \<open>The first two bytes are the code in network byte order, the rest is the reason.\<close>

definition extract_code :: "byte list \<Rightarrow> close_code \<times> error_code option" where
  "extract_code payload =
     (if length payload = 0 then (cs_no_status, None)
      else if length payload = 1 then (cs_protocol_error, Some (Library W_bad_close_code))
      else (let code = word_of_nat (be_val (take 2 payload));
                ec = (if invalid code then Some (Library W_invalid_close_code) else None);
                ec = (if reserved code then Some (Library W_reserved_close_code) else ec)
            in (code, ec)))"

definition extract_reason :: "byte list \<Rightarrow> byte list \<times> error_code option" where
  "extract_reason payload =
     (let reason = (if 2 < length payload then drop 2 payload else [])
      in (reason, if \<not> validate reason then Some (Library W_invalid_utf8) else None))"

lemma extract_reason_prefix [simp]: "length c = 2 \<Longrightarrow> fst (extract_reason (c @ r)) = r"
  by (cases r) (simp_all add: extract_reason_def Let_def)

lemma extract_code_be_bytes [simp]:
  "extract_code (be_bytes 2 (unat code) @ reason) =
     (code, if reserved code then Some (Library W_reserved_close_code)
            else if invalid code then Some (Library W_invalid_close_code) else None)"
proof -
  have "unat code < 256 ^ 2" using unsigned_less [of code] by simp
  then have "be_val (be_bytes 2 (unat code)) = unat code" by (rule be_val_be_bytes)
  moreover have "take 2 (be_bytes 2 (unat code) @ reason) = be_bytes 2 (unat code)"
    by (simp del: be_bytes_numeral)
  ultimately show ?thesis
    by (simp add: extract_code_def Let_def del: be_bytes_numeral)
qed

end
