(* ===== verification/WsHybi.thy ===== *)
theory WsHybi
  imports WsClose
begin

text \<open>
  The protocol processor for RFC 6455 (websocketpp/websocket/processors/hybi13.hpp) in the
  configuration that \<open>VideoStreamSocket\<close> compiles (config/core.hpp): messages are allocated per request
  (message_buffer/message.hpp, alloc.hpp) and permessage-deflate is the disabled stub. A \<open>size_t\<close> is a
  natural number; where the code adds two of them, the wrap-around is written out. The random
  masking key of a frame is an argument.
\<close>

subsection \<open>Messages\<close>

record message =
  m_opcode :: opcode
  m_header :: "byte list"
  m_payload :: "byte list"
  m_prepared :: bool
  m_fin :: bool
  m_terminal :: bool
  m_compressed :: bool

definition new_message :: "opcode \<Rightarrow> message" where
  "new_message op =
     \<lparr>m_opcode = op, m_header = [], m_payload = [], m_prepared = False, m_fin = True,
      m_terminal = False, m_compressed = False\<rparr>"

definition append_payload :: "byte list \<Rightarrow> message \<Rightarrow> message" where
  "append_payload payload m = m\<lparr>m_payload := m_payload m @ payload\<rparr>"

text \<open>The stub of the compression extension: never enabled, and its operations fail.\<close>

definition deflate_is_enabled :: bool where
  "deflate_is_enabled = False"

definition deflate_disabled :: error_code where
  "deflate_disabled = Extension E_disabled"

definition deflate_decompress :: "byte list \<Rightarrow> byte list \<Rightarrow> byte list \<times> error_code option" where
  "deflate_decompress buf out = (out, Some deflate_disabled)"

subsection \<open>The processor\<close>

datatype proc_state = HEADER_BASIC | HEADER_EXTENDED | EXTENSION | APPLICATION | READY | FATAL_ERROR

record msg_metadata =
  msg_ptr :: "message option"
  prepared_key :: u64
  msg_validator :: validator

definition no_msg :: msg_metadata where
  "no_msg = \<lparr>msg_ptr = None, prepared_key = 0, msg_validator = new_validator\<rparr>"

definition new_metadata :: "message \<Rightarrow> byte list \<Rightarrow> msg_metadata" where
  "new_metadata m key =
     \<lparr>msg_ptr = Some m, prepared_key = prepare_masking_key key, msg_validator = new_validator\<rparr>"

text \<open>The current message is a pointer to one of the two metadata fields of the processor.\<close>

datatype current = Data_msg | Control_msg

record hybi13 =
  m_server :: bool
  m_max_message_size :: nat
  m_basic_header :: basic_header
  m_extended_header :: "byte list"
  m_bytes_needed :: nat
  m_cursor :: nat
  m_data_msg :: msg_metadata
  m_control_msg :: msg_metadata
  m_current_msg :: current
  m_state :: proc_state

definition reset_headers :: "hybi13 \<Rightarrow> hybi13" where
  "reset_headers s =
     s\<lparr>m_state := HEADER_BASIC, m_bytes_needed := 2, m_basic_header := \<lparr>b0 = 0, b1 = 0\<rparr>,
       m_extended_header := replicate 12 0\<rparr>"

definition max_message_size :: nat where "max_message_size = 32000000"

definition new_hybi13 :: "bool \<Rightarrow> hybi13" where
  "new_hybi13 server =
     reset_headers
       \<lparr>m_server = server, m_max_message_size = max_message_size, m_basic_header = \<lparr>b0 = 0, b1 = 0\<rparr>,
        m_extended_header = replicate 12 0, m_bytes_needed = 0, m_cursor = 0, m_data_msg = no_msg,
        m_control_msg = no_msg, m_current_msg = Data_msg, m_state = HEADER_BASIC\<rparr>"

definition current_msg :: "hybi13 \<Rightarrow> msg_metadata" where
  "current_msg s = (case m_current_msg s of Data_msg \<Rightarrow> m_data_msg s | Control_msg \<Rightarrow> m_control_msg s)"

definition set_current_msg :: "msg_metadata \<Rightarrow> hybi13 \<Rightarrow> hybi13" where
  "set_current_msg m s =
     (case m_current_msg s of Data_msg \<Rightarrow> s\<lparr>m_data_msg := m\<rparr> | Control_msg \<Rightarrow> s\<lparr>m_control_msg := m\<rparr>)"

definition ready :: "hybi13 \<Rightarrow> bool" where
  "ready s \<longleftrightarrow> m_state s = READY"

definition get_error :: "hybi13 \<Rightarrow> bool" where
  "get_error s \<longleftrightarrow> m_state s = FATAL_ERROR"

text \<open>\<open>None\<close> is a call through a null message pointer.\<close>

definition get_message :: "hybi13 \<Rightarrow> (message option \<times> hybi13) option" where
  "get_message s =
     (if \<not> ready s then Some (None, s)
      else (case msg_ptr (current_msg s) of
              None \<Rightarrow> None
            | Some ret \<Rightarrow>
                let s = set_current_msg ((current_msg s)\<lparr>msg_ptr := None\<rparr>) s;
                    s = (if op_is_control (m_opcode ret)
                         then s\<lparr>m_control_msg := (m_control_msg s)\<lparr>msg_ptr := None\<rparr>\<rparr>
                         else s\<lparr>m_data_msg := (m_data_msg s)\<lparr>msg_ptr := None\<rparr>\<rparr>)
                in Some (Some ret, reset_headers s)))"

subsection \<open>Validation of headers\<close>

definition validate_incoming_basic_header :: "basic_header \<Rightarrow> bool \<Rightarrow> bool \<Rightarrow> error_code option" where
  "validate_incoming_basic_header h is_server new_msg =
     (let op = get_opcode h
      in if op_is_control op \<and> get_basic_size h > word_of_nat payload_size_basic
         then Some (Processor P_control_too_big)
         else if get_rsv1 h \<and> (\<not> deflate_is_enabled \<or> op_is_control op) then Some (Processor P_invalid_rsv_bit)
         else if get_rsv2 h \<or> get_rsv3 h then Some (Processor P_invalid_rsv_bit)
         else if op_reserved op then Some (Processor P_invalid_opcode)
         else if op_invalid op then Some (Processor P_invalid_opcode)
         else if op_is_control op \<and> \<not> get_fin h then Some (Processor P_fragmented_control)
         else if new_msg \<and> op = op_continuation then Some (Processor P_invalid_continuation)
         else if \<not> new_msg \<and> \<not> op_is_control op \<and> op \<noteq> op_continuation
         then Some (Processor P_invalid_continuation)
         else if is_server \<and> \<not> get_masked h then Some (Processor P_masking_required)
         else if \<not> is_server \<and> get_masked h then Some (Processor P_masking_forbidden)
         else None)"

text \<open>On a 64 bit machine the last test of the code never holds.\<close>

definition validate_incoming_extended_header :: "basic_header \<Rightarrow> byte list \<Rightarrow> error_code option" where
  "validate_incoming_extended_header h e =
     (let basic_size = get_basic_size h; payload_size = get_payload_size h e
      in if basic_size = 0x7E \<and> payload_size \<le> word_of_nat payload_size_basic
         then Some (Processor P_non_minimal_encoding)
         else if basic_size = 0x7F \<and> payload_size \<le> word_of_nat payload_size_extended
         then Some (Processor P_non_minimal_encoding)
         else None)"

subsection \<open>Reading\<close>

definition copy_basic_header_bytes :: "byte list \<Rightarrow> hybi13 \<Rightarrow> nat \<times> hybi13" where
  "copy_basic_header_bytes buf s =
     (if length buf = 0 \<or> m_bytes_needed s = 0 then (0, s)
      else if length buf > 1 then
        if m_bytes_needed s = 2
        then (2, s\<lparr>m_basic_header := \<lparr>b0 = buf ! 0, b1 = buf ! 1\<rparr>, m_bytes_needed := m_bytes_needed s - 2\<rparr>)
        else (1, s\<lparr>m_basic_header := (m_basic_header s)\<lparr>b1 := buf ! 0\<rparr>, m_bytes_needed := m_bytes_needed s - 1\<rparr>)
      else if m_bytes_needed s = 2
      then (1, s\<lparr>m_basic_header := (m_basic_header s)\<lparr>b0 := buf ! 0\<rparr>, m_bytes_needed := m_bytes_needed s - 1\<rparr>)
      else (1, s\<lparr>m_basic_header := (m_basic_header s)\<lparr>b1 := buf ! 0\<rparr>, m_bytes_needed := m_bytes_needed s - 1\<rparr>))"

definition copy_extended_header_bytes :: "byte list \<Rightarrow> hybi13 \<Rightarrow> nat \<times> hybi13" where
  "copy_extended_header_bytes buf s =
     (let bytes_to_read = min (m_bytes_needed s) (length buf)
      in (bytes_to_read,
          s\<lparr>m_extended_header := copy_at (m_cursor s) (take bytes_to_read buf) (m_extended_header s),
            m_cursor := m_cursor s + bytes_to_read,
            m_bytes_needed := m_bytes_needed s - bytes_to_read\<rparr>))"

text \<open>A step of the loop goes on, stops, or follows a null message pointer.\<close>

datatype step_result = Go hybi13 "byte list" | Stop hybi13 "byte list" error_code | Null_message

definition start_message :: "hybi13 \<Rightarrow> byte list \<Rightarrow> step_result" where
  "start_message s rest =
     (let h = m_basic_header s; e = m_extended_header s;
          s = s\<lparr>m_state := APPLICATION, m_bytes_needed := unat (get_payload_size h e)\<rparr>;
          op = get_opcode h; key = get_masking_key h e
      in if op_is_control op
         then Go (s\<lparr>m_control_msg := new_metadata (new_message op) key, m_current_msg := Control_msg\<rparr>) rest
         else (case msg_ptr (m_data_msg s) of
                 None \<Rightarrow>
                   if m_bytes_needed s > m_max_message_size s
                   then Stop s rest (Processor P_message_too_big)
                   else (let m = new_message op;
                             m = (if deflate_is_enabled then m\<lparr>m_compressed := get_rsv1 h\<rparr> else m)
                         in Go (s\<lparr>m_data_msg := new_metadata m key, m_current_msg := Data_msg\<rparr>) rest)
               | Some m \<Rightarrow>
                   if (length (m_payload m) + m_bytes_needed s) mod 2 ^ 64 > m_max_message_size s
                   then Stop s rest (Processor P_message_too_big)
                   else Go (s\<lparr>m_data_msg := (m_data_msg s)\<lparr>prepared_key := prepare_masking_key key\<rparr>,
                              m_current_msg := Data_msg\<rparr>) rest))"

text \<open>On an error nothing counts as processed, and the bytes stay appended.\<close>

definition process_payload_bytes :: "byte list \<Rightarrow> hybi13 \<Rightarrow> (hybi13 \<times> error_code option) option" where
  "process_payload_bytes buf s =
     (case msg_ptr (current_msg s) of
        None \<Rightarrow> None
      | Some m \<Rightarrow>
          let md = current_msg s;
              (buf, k) = (if get_masked (m_basic_header s) then byte_mask_circ buf (prepared_key md)
                          else (buf, prepared_key md));
              md = md\<lparr>prepared_key := k\<rparr>;
              offset = length (m_payload m);
              (out, ec) = (if deflate_is_enabled \<and> m_compressed m then deflate_decompress buf (m_payload m)
                           else (m_payload m @ buf, None));
              md = md\<lparr>msg_ptr := Some (m\<lparr>m_payload := out\<rparr>)\<rparr>
          in if ec \<noteq> None then Some (set_current_msg md s, ec)
             else (let (ok, v) = (if m_opcode m = op_text then validator_decode (drop offset out) (msg_validator md)
                                  else (True, msg_validator md));
                       s = set_current_msg (md\<lparr>msg_validator := v\<rparr>) s
                   in if \<not> ok then Some (s, Some (Processor P_invalid_utf8))
                      else Some (s\<lparr>m_bytes_needed := m_bytes_needed s - length buf\<rparr>, None)))"

definition finalize_message :: "hybi13 \<Rightarrow> (hybi13 \<times> error_code option) option" where
  "finalize_message s =
     (case msg_ptr (current_msg s) of
        None \<Rightarrow> None
      | Some m \<Rightarrow>
          let (out, ec) = (if deflate_is_enabled \<and> m_compressed m
                           then deflate_decompress [0x00, 0x00, 0xff, 0xff] (m_payload m)
                           else (m_payload m, None));
              s = set_current_msg ((current_msg s)\<lparr>msg_ptr := Some (m\<lparr>m_payload := out\<rparr>)\<rparr>) s
          in if ec \<noteq> None then Some (s, ec)
             else if get_opcode (m_basic_header s) = op_text \<and> \<not> complete (msg_validator (current_msg s))
             then Some (s, Some (Processor P_invalid_utf8))
             else Some (s\<lparr>m_state := READY\<rparr>, None))"

definition application_step :: "hybi13 \<Rightarrow> byte list \<Rightarrow> step_result" where
  "application_step s rest =
     (let bytes_to_process = min (m_bytes_needed s) (length rest)
      in case (if bytes_to_process > 0 then process_payload_bytes (take bytes_to_process rest) s
               else Some (s, None)) of
           None \<Rightarrow> Null_message
         | Some (s, Some ec) \<Rightarrow> Stop s rest ec
         | Some (s, None) \<Rightarrow>
             (let rest = drop bytes_to_process rest
              in if m_bytes_needed s > 0 then Go s rest
                 else if get_fin (m_basic_header s) then
                   (case finalize_message s of
                      None \<Rightarrow> Null_message
                    | Some (s, Some ec) \<Rightarrow> Stop s rest ec
                    | Some (s, None) \<Rightarrow> Go s rest)
                 else Go (reset_headers s) rest))"

definition consume_step :: "hybi13 \<Rightarrow> byte list \<Rightarrow> step_result" where
  "consume_step s rest =
     (case m_state s of
        HEADER_BASIC \<Rightarrow>
          (let (n, s) = copy_basic_header_bytes rest s; rest = drop n rest
           in if m_bytes_needed s > 0 then Go s rest
              else (case validate_incoming_basic_header (m_basic_header s) (m_server s)
                           (msg_ptr (m_data_msg s) = None) of
                      Some ec \<Rightarrow> Stop s rest ec
                    | None \<Rightarrow> Go (s\<lparr>m_state := HEADER_EXTENDED, m_cursor := 0,
                                   m_bytes_needed := get_header_len (m_basic_header s) - 2\<rparr>) rest))
      | HEADER_EXTENDED \<Rightarrow>
          (let (n, s) = copy_extended_header_bytes rest s; rest = drop n rest
           in if m_bytes_needed s > 0 then Go s rest
              else (case validate_incoming_extended_header (m_basic_header s) (m_extended_header s) of
                      Some ec \<Rightarrow> Stop s rest ec
                    | None \<Rightarrow> start_message s rest))
      | EXTENSION \<Rightarrow> Go (s\<lparr>m_state := APPLICATION\<rparr>) rest
      | APPLICATION \<Rightarrow> application_step s rest
      | _ \<Rightarrow> Stop s rest (Processor P_general))"

definition consuming :: "hybi13 \<Rightarrow> byte list \<Rightarrow> bool" where
  "consuming s rest \<longleftrightarrow>
     m_state s \<noteq> READY \<and> m_state s \<noteq> FATAL_ERROR \<and> (rest \<noteq> [] \<or> m_bytes_needed s = 0)"

subsection \<open>The loop ends\<close>

text \<open>Every turn reads a byte or moves to a later phase of the frame.\<close>

definition phase :: "hybi13 \<Rightarrow> nat" where
  "phase s =
     (case m_state s of
        HEADER_BASIC \<Rightarrow> if m_bytes_needed s = 0 then 5 else 1
      | HEADER_EXTENDED \<Rightarrow> 4 | EXTENSION \<Rightarrow> 3 | APPLICATION \<Rightarrow> 2 | _ \<Rightarrow> 0)"

lemma set_current_simps [simp]:
  "m_state (set_current_msg md s) = m_state s"
  "m_bytes_needed (set_current_msg md s) = m_bytes_needed s"
  "m_basic_header (set_current_msg md s) = m_basic_header s"
  "m_extended_header (set_current_msg md s) = m_extended_header s"
  "m_server (set_current_msg md s) = m_server s"
  "m_max_message_size (set_current_msg md s) = m_max_message_size s"
  "m_current_msg (set_current_msg md s) = m_current_msg s"
  "current_msg (set_current_msg md s) = md"
  by (cases "m_current_msg s"; simp add: set_current_msg_def current_msg_def)+

lemma reset_headers_simps [simp]:
  "m_state (reset_headers s) = HEADER_BASIC" "m_bytes_needed (reset_headers s) = 2"
  "m_server (reset_headers s) = m_server s" "m_max_message_size (reset_headers s) = m_max_message_size s"
  "m_data_msg (reset_headers s) = m_data_msg s" "m_control_msg (reset_headers s) = m_control_msg s"
  "m_current_msg (reset_headers s) = m_current_msg s"
  by (simp_all add: reset_headers_def)

lemma deflate_off [simp]: "\<not> deflate_is_enabled"
  by (simp add: deflate_is_enabled_def)

lemma process_payload_state:
  "process_payload_bytes buf s = Some (s', ec) \<Longrightarrow>
     m_state s' = m_state s \<and> (ec = None \<longrightarrow> m_bytes_needed s' = m_bytes_needed s - length buf)"
  by (auto simp: process_payload_bytes_def byte_mask_circ_def Let_def split: option.splits prod.splits if_splits)

lemma finalize_state: "finalize_message s = Some (s', None) \<Longrightarrow> m_state s' = READY"
  by (auto simp: finalize_message_def Let_def split: option.splits prod.splits if_splits)

lemma start_message_go: "start_message s rest = Go s' rest' \<Longrightarrow> rest' = rest \<and> m_state s' = APPLICATION"
  by (auto simp: start_message_def Let_def split: if_splits option.splits)

lemma application_decreases:
  assumes "application_step s rest = Go s' rest'" "rest \<noteq> [] \<or> m_bytes_needed s = 0" "m_state s = APPLICATION"
  shows "length rest' < length rest \<or> rest' = rest \<and> phase s' < phase s"
proof (cases "min (m_bytes_needed s) (length rest) > 0")
  case True
  then show ?thesis
    using assms by (auto simp: application_step_def Let_def split: option.splits prod.splits if_splits)
next
  case False
  then have n: "m_bytes_needed s = 0" using assms(2) by auto
  show ?thesis
    using assms(1,3) n
    by (auto simp: application_step_def Let_def phase_def dest: finalize_state
        split: option.splits prod.splits if_splits)
qed

lemma consume_step_decreases:
  assumes "consume_step s rest = Go s' rest'" "consuming s rest"
  shows "length rest' < length rest \<or> length rest' = length rest \<and> phase s' < phase s"
proof (cases "m_state s")
  case HEADER_BASIC
  obtain n t where nt: "copy_basic_header_bytes rest s = (n, t)" by fastforce
  have "m_state t = HEADER_BASIC" "n = 0 \<Longrightarrow> t = s \<and> m_bytes_needed s = 0"
    using nt HEADER_BASIC assms(2) by (auto simp: copy_basic_header_bytes_def consuming_def split: if_splits)
  moreover have "n \<le> length rest"
    using nt by (cases rest) (auto simp: copy_basic_header_bytes_def Suc_le_eq split: if_splits)
  ultimately have m: "m_state t = HEADER_BASIC" "n = 0 \<Longrightarrow> t = s \<and> m_bytes_needed s = 0" "n \<le> length rest"
    by simp_all
  show ?thesis
    using assms(1) nt HEADER_BASIC m
    by (cases "n = 0") (auto simp: consume_step_def Let_def phase_def split: if_splits option.splits)
next
  case HEADER_EXTENDED
  define k where "k = min (m_bytes_needed s) (length rest)"
  have k: "k = 0 \<Longrightarrow> m_bytes_needed s = 0" "k \<le> length rest"
    using assms(2) by (auto simp: k_def consuming_def min_def split: if_splits)
  show ?thesis
    using assms(1) HEADER_EXTENDED k
    by (cases "k = 0") (auto simp: consume_step_def copy_extended_header_bytes_def Let_def phase_def
        dest!: start_message_go split: if_splits option.splits simp flip: k_def)
next
  case APPLICATION
  then show ?thesis
    using application_decreases [of s rest s' rest'] assms by (auto simp: consume_step_def consuming_def)
qed (use assms in \<open>auto simp: consume_step_def consuming_def phase_def\<close>)

datatype consume_result = Consumed hybi13 nat "error_code option" | Crashed

function consume_from :: "hybi13 \<Rightarrow> byte list \<Rightarrow> nat \<Rightarrow> consume_result" where
  "consume_from s rest p =
     (if \<not> consuming s rest then Consumed s p None
      else (case consume_step s rest of
              Go s rest' \<Rightarrow> consume_from s rest' (p + (length rest - length rest'))
            | Stop s rest' ec \<Rightarrow> Consumed s (p + (length rest - length rest')) (Some ec)
            | Null_message \<Rightarrow> Crashed))"
  by pat_completeness auto
termination
  by (relation "inv_image (less_than <*lex*> less_than) (\<lambda>(s, rest, p). (length rest, phase s))")
    (auto dest: consume_step_decreases)

declare consume_from.simps [simp del]

definition consume :: "hybi13 \<Rightarrow> byte list \<Rightarrow> consume_result" where
  "consume s buf = consume_from s buf 0"

subsection \<open>Writing\<close>

definition deflate_compress :: "byte list \<Rightarrow> byte list \<Rightarrow> byte list \<times> error_code option" where
  "deflate_compress i out = (out, Some deflate_disabled)"

definition masked_copy :: "byte list \<Rightarrow> byte list \<Rightarrow> byte list" where
  "masked_copy i key = byte_mask i key 0"

definition frame_of :: "opcode \<Rightarrow> nat \<Rightarrow> bool \<Rightarrow> bool \<Rightarrow> bool \<Rightarrow> byte list \<Rightarrow> byte list" where
  "frame_of op sz fin masked compressed key =
     (let h = make_header op (word_of_nat sz) fin masked compressed False False
      in if masked then prepare_header h (extended_size_key (word_of_nat sz) key)
         else prepare_header h (extended_size (word_of_nat sz)))"

definition prepare_data_frame ::
  "hybi13 \<Rightarrow> byte list \<Rightarrow> message option \<Rightarrow> message option \<Rightarrow> error_code option \<times> message option" where
  "prepare_data_frame s rng inp outp =
     (case (inp, outp) of
        (Some i, Some out) \<Rightarrow>
          (let op = m_opcode i
           in if op_is_control op then (Some (Processor P_invalid_opcode), outp)
              else if op = op_text \<and> \<not> validate (m_payload i) then (Some (Processor P_invalid_payload), outp)
              else (let masked = (\<not> m_server s);
                        compressed = (deflate_is_enabled \<and> m_compressed i);
                        key = (if masked then rng else [0, 0, 0, 0]);
                        (ec, pl) = (if compressed then
                                      (let pl = fst (deflate_compress (m_payload i) (m_payload out))
                                       in if length pl < 4 then (Some (Processor P_general), pl)
                                          else (let pl = take (length pl - 4) pl
                                                in (None, if masked then masked_copy pl key else pl)))
                                    else (None, if masked then masked_copy (m_payload i) key else m_payload i));
                        out = out\<lparr>m_payload := pl\<rparr>
                    in if ec \<noteq> None then (ec, Some out)
                       else (None, Some (out\<lparr>m_header := frame_of op (length pl) (m_fin i) masked compressed key,
                                             m_prepared := True, m_opcode := op\<rparr>))))
      | _ \<Rightarrow> (Some (Processor P_invalid_arguments), outp))"

definition prepare_control ::
  "hybi13 \<Rightarrow> byte list \<Rightarrow> opcode \<Rightarrow> byte list \<Rightarrow> message option \<Rightarrow> error_code option \<times> message option" where
  "prepare_control s rng op payload outp =
     (case outp of
        None \<Rightarrow> (Some (Processor P_invalid_arguments), outp)
      | Some out \<Rightarrow>
          if \<not> op_is_control op then (Some (Processor P_invalid_opcode), outp)
          else if length payload > payload_size_basic then (Some (Processor P_control_too_big), outp)
          else (let masked = (\<not> m_server s);
                    out = (if masked
                           then out\<lparr>m_header := frame_of op (length payload) True masked False rng,
                                    m_payload := masked_copy payload rng\<rparr>
                           else out\<lparr>m_header := frame_of op (length payload) True masked False rng,
                                    m_payload := payload\<rparr>)
                in (None, Some (out\<lparr>m_opcode := op, m_prepared := True\<rparr>))))"

definition prepare_ping where "prepare_ping s rng payload outp = prepare_control s rng op_ping payload outp"

definition prepare_pong where "prepare_pong s rng payload outp = prepare_control s rng op_pong payload outp"

definition prepare_close ::
  "hybi13 \<Rightarrow> byte list \<Rightarrow> close_code \<Rightarrow> byte list \<Rightarrow> message option \<Rightarrow> error_code option \<times> message option" where
  "prepare_close s rng code reason outp =
     (if reserved code then (Some (Processor P_reserved_close_code), outp)
      else if invalid code \<and> code \<noteq> cs_no_status then (Some (Processor P_invalid_close_code), outp)
      else if code = cs_no_status \<and> length reason > 0 then (Some (Processor P_reason_requires_code), outp)
      else if length reason > payload_size_basic - 2 then (Some (Processor P_control_too_big), outp)
      else prepare_control s rng op_close
             (if code \<noteq> cs_no_status then be_bytes 2 (unat code) @ reason else []) outp)"

end
