(* ===== verification/WsHybiRead.thy ===== *)
theory WsHybiRead
  imports WsHybi
begin

text \<open>
  What the processor of \<open>WsHybi\<close> makes of a stream: the bytes of an acceptable frame, arriving in
  pieces of any size and followed by anything, take it from one frame boundary to the next and add
  exactly the unmasked payload to the message.
\<close>

subsection \<open>Frames on the wire\<close>

record in_frame =
  f_header :: basic_header
  f_ext :: "byte list"
  f_payload :: "byte list"

definition ext_len :: "in_frame \<Rightarrow> nat" where
  "ext_len f = get_header_len (f_header f) - 2"

definition ext_array :: "in_frame \<Rightarrow> byte list" where
  "ext_array f = f_ext f @ replicate (12 - ext_len f) 0"

definition f_key :: "in_frame \<Rightarrow> byte list" where
  "f_key f = get_masking_key (f_header f) (ext_array f)"

definition body :: "in_frame \<Rightarrow> byte list" where
  "body f = (if get_masked (f_header f) then byte_mask (f_payload f) (f_key f) 0 else f_payload f)"

definition wire :: "in_frame \<Rightarrow> byte list" where
  "wire f = [b0 (f_header f), b1 (f_header f)] @ f_ext f @ body f"

definition proper :: "in_frame \<Rightarrow> bool" where
  "proper f \<longleftrightarrow> length (f_ext f) = ext_len f \<and> unat (get_payload_size (f_header f) (ext_array f)) = length (f_payload f)"

lemma ext_len_le: "ext_len f \<le> 12"
  by (simp add: ext_len_def get_header_len_def get_masking_key_offset_def)

lemma header_len_ge: "2 \<le> get_header_len h"
  by (simp add: get_header_len_def)

lemma length_body [simp]: "length (body f) = length (f_payload f)"
  by (simp add: body_def)

lemma length_wire: "proper f \<Longrightarrow> length (wire f) = 2 + ext_len f + length (f_payload f)"
  by (simp add: wire_def proper_def)

text \<open>The metadata that a frame is read into, and what they hold after \<open>k\<close> bytes of its payload.\<close>

definition target :: "hybi13 \<Rightarrow> in_frame \<Rightarrow> msg_metadata" where
  "target s f =
     (let op = get_opcode (f_header f)
      in if op_is_control op \<or> msg_ptr (m_data_msg s) = None then new_metadata (new_message op) (f_key f)
         else (m_data_msg s)\<lparr>prepared_key := prepare_masking_key (f_key f)\<rparr>)"

definition filled :: "msg_metadata \<Rightarrow> in_frame \<Rightarrow> nat \<Rightarrow> msg_metadata \<Rightarrow> bool" where
  "filled md f k md' \<longleftrightarrow>
     (\<exists>m. msg_ptr md = Some m \<and> msg_ptr md' = Some (append_payload (take k (f_payload f)) m) \<and>
        (if m_opcode m = op_text
         then validator_decode (take k (f_payload f)) (msg_validator md) = (True, msg_validator md')
         else msg_validator md' = msg_validator md) \<and>
        (get_masked (f_header f) \<longrightarrow> key_from (f_key f) k (prepared_key md')))"

definition acceptable :: "hybi13 \<Rightarrow> in_frame \<Rightarrow> bool" where
  "acceptable s f \<longleftrightarrow>
     (let h = f_header f; op = get_opcode h; md = target s f; v = validator_decode (f_payload f) (msg_validator md)
      in validate_incoming_basic_header h (m_server s) (msg_ptr (m_data_msg s) = None) = None \<and>
         validate_incoming_extended_header h (ext_array f) = None \<and>
         (\<not> op_is_control op \<longrightarrow>
            (case msg_ptr (m_data_msg s) of
               None \<Rightarrow> length (f_payload f) \<le> m_max_message_size s
             | Some m \<Rightarrow> (length (m_payload m) + length (f_payload f)) mod 2 ^ 64 \<le> m_max_message_size s)) \<and>
         (map_option m_opcode (msg_ptr md) = Some op_text \<longrightarrow> fst v) \<and>
         (get_fin h \<and> op = op_text \<longrightarrow> complete (snd v)))"

definition idle :: "hybi13 \<Rightarrow> bool" where
  "idle s \<longleftrightarrow> m_state s = HEADER_BASIC \<and> m_bytes_needed s = 2 \<and> m_extended_header s = replicate 12 0"

definition same_config :: "hybi13 \<Rightarrow> hybi13 \<Rightarrow> bool" where
  "same_config s t \<longleftrightarrow> m_server t = m_server s \<and> m_max_message_size t = m_max_message_size s"

definition same_messages :: "hybi13 \<Rightarrow> hybi13 \<Rightarrow> bool" where
  "same_messages s t \<longleftrightarrow> m_data_msg t = m_data_msg s \<and> m_control_msg t = m_control_msg s"

text \<open>The processor is reading the payload, or has read it, into the right message.\<close>

definition reading_into :: "hybi13 \<Rightarrow> in_frame \<Rightarrow> nat \<Rightarrow> hybi13 \<Rightarrow> bool" where
  "reading_into s f k t \<longleftrightarrow>
     (if op_is_control (get_opcode (f_header f))
      then m_current_msg t = Control_msg \<and> m_data_msg t = m_data_msg s \<and> filled (target s f) f k (m_control_msg t)
      else m_current_msg t = Data_msg \<and> m_control_msg t = m_control_msg s \<and> filled (target s f) f k (m_data_msg t))"

text \<open>From the boundary state \<open>s\<close>, \<open>n\<close> bytes of frame \<open>f\<close> lead to \<open>t\<close>, before its last byte and after it.\<close>

definition within :: "hybi13 \<Rightarrow> in_frame \<Rightarrow> nat \<Rightarrow> hybi13 \<Rightarrow> bool" where
  "within s f n t \<longleftrightarrow> same_config s t \<and>
     (m_state t = HEADER_BASIC \<and> n < 2 \<and> m_bytes_needed t = 2 - n \<and> same_messages s t \<and>
        m_extended_header t = replicate 12 0 \<and> (n = 1 \<longrightarrow> b0 (m_basic_header t) = b0 (f_header f)) \<or>
      m_state t = HEADER_EXTENDED \<and> 2 \<le> n \<and> n \<le> 2 + ext_len f \<and> m_bytes_needed t = 2 + ext_len f - n \<and>
        same_messages s t \<and> m_basic_header t = f_header f \<and> m_cursor t = n - 2 \<and>
        m_extended_header t = take (n - 2) (f_ext f) @ replicate (12 - (n - 2)) 0 \<or>
      m_state t = APPLICATION \<and> 2 + ext_len f \<le> n \<and> m_basic_header t = f_header f \<and>
        n + m_bytes_needed t = length (wire f) \<and> reading_into s f (n - 2 - ext_len f) t)"

definition after :: "hybi13 \<Rightarrow> in_frame \<Rightarrow> hybi13 \<Rightarrow> bool" where
  "after s f t \<longleftrightarrow> same_config s t \<and> reading_into s f (length (f_payload f)) t \<and>
     (if get_fin (f_header f) then m_state t = READY else idle t)"

lemma within_start: "idle s \<Longrightarrow> within s f 0 s"
  by (simp add: within_def idle_def same_config_def same_messages_def)

subsection \<open>One turn of the loop\<close>

text \<open>\<open>ahead\<close> is what the buffer lacks of the frame, or \<open>tail\<close> is what it holds behind the frame.\<close>

definition turn :: "hybi13 \<Rightarrow> in_frame \<Rightarrow> nat \<Rightarrow> hybi13 \<Rightarrow> byte list \<Rightarrow> byte list \<Rightarrow> byte list \<Rightarrow> bool" where
  "turn s f n t rest ahead tail \<longleftrightarrow>
     (\<exists>t' n' rest'. consume_step t rest = Go t' rest' \<and> n \<le> n' \<and> length rest = length rest' + (n' - n) \<and>
        n' \<le> length (wire f) \<and> rest' @ ahead = drop n' (wire f) @ tail \<and>
        (within s f n' t' \<or> n' = length (wire f) \<and> after s f t'))"

lemma turnI:
  assumes "consume_step t rest = Go t' (drop k rest)" "k \<le> length rest" "n + k \<le> length (wire f)"
    and "rest @ ahead = drop n (wire f) @ tail"
    and "within s f (n + k) t' \<or> n + k = length (wire f) \<and> after s f t'"
  shows "turn s f n t rest ahead tail"
proof -
  have "drop k rest @ ahead = drop k (rest @ ahead)" using assms(2) by simp
  also have "\<dots> = drop (n + k) (wire f) @ tail" using assms(3,4) by (simp add: add.commute)
  finally show ?thesis
    unfolding turn_def using assms by (intro exI [of _ t'] exI [of _ "n + k"] exI [of _ "drop k rest"]) simp
qed

lemma wire_not_Nil [simp]: "wire f \<noteq> []"
  by (simp add: wire_def)

lemma wire_nth: "wire f ! 0 = b0 (f_header f)" "wire f ! 1 = b1 (f_header f)" "wire f ! Suc 0 = b1 (f_header f)"
  by (simp_all add: wire_def)

lemma rest_nth:
  assumes "rest @ ahead = drop n (wire f) @ tail" "i < length rest" "n + i < length (wire f)"
  shows "rest ! i = wire f ! (n + i)"
proof -
  have "rest ! i = (rest @ ahead) ! i" using assms(2) by (simp add: nth_append)
  also have "\<dots> = wire f ! (n + i)"
    using assms(3) less_diff_conv [of i "length (wire f)" n] by (simp add: assms(1) nth_append add.commute)
  finally show ?thesis .
qed

lemma turn_basic:
  assumes "within s f n t" "m_state t = HEADER_BASIC" "proper f" "acceptable s f"
    and "rest \<noteq> []" "rest @ ahead = drop n (wire f) @ tail"
  shows "turn s f n t rest ahead tail"
proof -
  have n: "n < 2" "m_bytes_needed t = 2 - n" "same_messages s t" "same_config s t"
    "m_extended_header t = replicate 12 0" "n = 1 \<Longrightarrow> b0 (m_basic_header t) = b0 (f_header f)"
    using assms(1,2) by (auto simp: within_def)
  have len: "2 \<le> length (wire f)" using assms(3) by (simp add: length_wire)
  have v: "validate_incoming_basic_header (f_header f) (m_server t) (msg_ptr (m_data_msg t) = None) = None"
    using assms(4) n(3,4) by (simp add: acceptable_def Let_def same_messages_def same_config_def)
  define ext where "ext u = u\<lparr>m_state := HEADER_EXTENDED, m_cursor := 0, m_bytes_needed := ext_len f\<rparr>" for u :: hybi13
  have w: "within s f 2 (ext u)"
    if "same_messages s u" "same_config s u" "m_extended_header u = replicate 12 0" "m_basic_header u = f_header f" for u
    using that by (simp add: ext_def within_def same_messages_def same_config_def)
  consider "n = 0" "1 < length rest" | "n = 0" "length rest = 1" | "n = 1"
    using n(1) assms(5) by (cases "length rest") fastforce+
  then show ?thesis
  proof cases
    case 1
    define u where "u = t\<lparr>m_basic_header := f_header f, m_bytes_needed := 0\<rparr>"
    have b: "rest ! 0 = b0 (f_header f)" "rest ! Suc 0 = b1 (f_header f)"
      using rest_nth [OF assms(6), of 0] rest_nth [OF assms(6), of 1] 1 len assms(5) by (simp_all add: wire_nth)
    have "copy_basic_header_bytes rest t = (2, u)"
      using 1 n b by (auto simp: copy_basic_header_bytes_def u_def)
    then have "consume_step t rest = Go (ext u) (drop 2 rest)"
      using assms(2) v by (simp add: consume_step_def u_def ext_def ext_len_def)
    moreover have "within s f 2 (ext u)" using n by (intro w) (simp_all add: u_def same_messages_def same_config_def)
    ultimately show ?thesis
      using 1 n len assms(6)
      by (intro turnI [where k = 2 and t' = "ext u"]) (simp_all add: numeral_2_eq_2)
  next
    case 2
    define u where "u = t\<lparr>m_basic_header := (m_basic_header t)\<lparr>b0 := b0 (f_header f)\<rparr>, m_bytes_needed := 1\<rparr>"
    have b: "rest ! 0 = b0 (f_header f)"
      using rest_nth [OF assms(6), of 0] 2 len assms(5) by (simp add: wire_nth)
    have "copy_basic_header_bytes rest t = (1, u)"
      using 2 n b by (auto simp: copy_basic_header_bytes_def u_def)
    then have "consume_step t rest = Go u (drop 1 rest)"
      using assms(2) by (simp add: consume_step_def u_def)
    then show ?thesis
      using 2 n len assms(2,6)
      by (intro turnI [where k = 1 and t' = u]) (simp_all add: u_def within_def same_messages_def same_config_def)
  next
    case 3
    define u where "u = t\<lparr>m_basic_header := f_header f, m_bytes_needed := 0\<rparr>"
    have b: "rest ! 0 = b1 (f_header f)"
      using rest_nth [OF assms(6), of 0] 3 len assms(5) by (simp add: wire_nth)
    have "(m_basic_header t)\<lparr>b1 := b1 (f_header f)\<rparr> = f_header f" using n(6) 3 by simp
    then have "copy_basic_header_bytes rest t = (1, u)"
      using 3 n b assms(5) by (auto simp: copy_basic_header_bytes_def u_def)
    then have "consume_step t rest = Go (ext u) (drop 1 rest)"
      using assms(2) v by (simp add: consume_step_def u_def ext_def ext_len_def)
    moreover have "within s f 2 (ext u)" using n by (intro w) (simp_all add: u_def same_messages_def same_config_def)
    ultimately show ?thesis
      using 3 n len assms(5,6)
      by (intro turnI [where k = 1 and t' = "ext u"]) (simp_all add: Suc_le_eq numeral_2_eq_2)
  qed
qed

lemma rest_take:
  assumes "rest @ ahead = drop n (wire f) @ tail" "k \<le> length rest" "n + k \<le> length (wire f)"
  shows "take k rest = take k (drop n (wire f))"
proof -
  have "take k rest = take k (rest @ ahead)" using assms(2) by simp
  also have "\<dots> = take k (drop n (wire f))" using assms(3) by (simp add: assms(1))
  finally show ?thesis .
qed

lemma f_key_length: "proper f \<Longrightarrow> get_masked (f_header f) \<Longrightarrow> length (f_key f) = 4"
  using ext_len_le [of f]
  by (auto simp: f_key_def get_masking_key_def get_masking_key_offset_def proper_def ext_array_def min_def)

lemma filled_target:
  assumes "proper f"
  shows "filled (target s f) f 0 (target s f)"
proof -
  have "\<exists>m. msg_ptr (target s f) = Some m" by (auto simp: target_def Let_def new_metadata_def)
  moreover have "prepared_key (target s f) = prepare_masking_key (f_key f)"
    by (simp add: target_def Let_def new_metadata_def)
  ultimately show ?thesis
    using prepared_key_from [OF f_key_length [OF assms]] by (auto simp: filled_def append_payload_def)
qed

lemma start_message_reads:
  assumes "proper f" "acceptable s f" "same_messages s t" "same_config s t"
    and "m_basic_header t = f_header f" "m_extended_header t = ext_array f"
  shows "\<exists>t'. start_message t rest = Go t' rest \<and> m_state t' = APPLICATION \<and> m_basic_header t' = f_header f \<and>
    m_bytes_needed t' = length (f_payload f) \<and> same_config s t' \<and> reading_into s f 0 t'"
proof -
  have needed: "unat (get_payload_size (f_header f) (ext_array f)) = length (f_payload f)"
    using assms(1) by (simp add: proper_def)
  have key: "get_masking_key (f_header f) (ext_array f) = f_key f" by (simp add: f_key_def)
  note [simp] = assms(5,6) needed key
  have sm [simp]: "m_data_msg t = m_data_msg s" "m_control_msg t = m_control_msg s" "m_server t = m_server s"
    "m_max_message_size t = m_max_message_size s"
    using assms(3,4) by (simp_all add: same_messages_def same_config_def)
  note filled = filled_target [OF assms(1), of s]
  show ?thesis
  proof (cases "op_is_control (get_opcode (f_header f))")
    case True
    then show ?thesis
      using filled by (simp add: start_message_def Let_def same_config_def reading_into_def target_def)
  next
    case False
    show ?thesis
    proof (cases "msg_ptr (m_data_msg s)")
      case None
      then show ?thesis
        using False filled assms(2)
        by (simp add: start_message_def Let_def same_config_def reading_into_def target_def acceptable_def)
    next
      case (Some m)
      then show ?thesis
        using False filled assms(2)
        by (simp add: start_message_def Let_def same_config_def reading_into_def target_def acceptable_def)
    qed
  qed
qed

lemma turn_extended:
  assumes "within s f n t" "m_state t = HEADER_EXTENDED" "proper f" "acceptable s f"
    and "rest \<noteq> [] \<or> m_bytes_needed t = 0" "rest @ ahead = drop n (wire f) @ tail"
  shows "turn s f n t rest ahead tail"
proof -
  have n: "2 \<le> n" "n \<le> 2 + ext_len f" "m_bytes_needed t = 2 + ext_len f - n" "same_messages s t"
    "same_config s t" "m_basic_header t = f_header f" "m_cursor t = n - 2"
    "m_extended_header t = take (n - 2) (f_ext f) @ replicate (12 - (n - 2)) 0"
    using assms(1,2) by (auto simp: within_def)
  have le: "length (f_ext f) = ext_len f" using assms(3) by (simp add: proper_def)
  define k where "k = min (m_bytes_needed t) (length rest)"
  have k: "k \<le> length rest" "n + k \<le> 2 + ext_len f" "n + k \<le> length (wire f)"
    using n(2,3) length_wire [OF assms(3)] by (auto simp: k_def)
  have part: "take k rest = take k (drop (n - 2) (f_ext f))"
    using rest_take [OF assms(6) k(1,3)] n(1,2) k(2) le by (simp add: wire_def drop_Cons' numeral_2_eq_2)
  define u where "u = t\<lparr>m_extended_header := copy_at (m_cursor t) (take k rest) (m_extended_header t),
    m_cursor := m_cursor t + k, m_bytes_needed := m_bytes_needed t - k\<rparr>"
  have "copy_extended_header_bytes rest t = (k, u)"
    by (simp add: copy_extended_header_bytes_def Let_def u_def flip: k_def)
  then have u: "copy_extended_header_bytes rest t = (k, u)" "m_bytes_needed u = 2 + ext_len f - (n + k)"
    "m_cursor u = n + k - 2" "m_basic_header u = f_header f" "m_state u = HEADER_EXTENDED"
    "same_messages s u" "same_config s u"
    using n assms(2)
    by (simp_all add: u_def same_messages_def same_config_def)
  have ext: "m_extended_header u = take (n + k - 2) (f_ext f) @ replicate (12 - (n + k - 2)) 0"
  proof -
    have "take (n + k - 2) (f_ext f) = take (n - 2) (f_ext f) @ take k rest"
      using n(1) by (simp add: part flip: take_add)
    moreover have "length (take (n - 2) (f_ext f)) = n - 2" "length (take k rest) = k"
      using n(2) le k(1) by simp_all
    ultimately show ?thesis
      using n(1) by (simp add: u_def copy_at_def n(7,8))
  qed
  show ?thesis
  proof (cases "n + k = 2 + ext_len f")
    case False
    then have "consume_step t rest = Go u (drop k rest)"
      using u assms(2) k(2) by (simp add: consume_step_def)
    moreover have "within s f (n + k) u"
      using u ext n(1) k(2) False by (simp add: within_def)
    ultimately show ?thesis using k assms(6) by (intro turnI [where k = k and t' = u]) simp_all
  next
    case True
    then have e: "m_extended_header u = ext_array f" using ext le by (simp add: ext_array_def)
    obtain t' where t': "start_message u (drop k rest) = Go t' (drop k rest)" "m_state t' = APPLICATION"
      "m_basic_header t' = f_header f" "m_bytes_needed t' = length (f_payload f)" "same_config s t'"
      "reading_into s f 0 t'"
      using start_message_reads [OF assms(3,4) u(6,7,4) e] by blast
    have "validate_incoming_extended_header (f_header f) (ext_array f) = None"
      using assms(4) by (simp add: acceptable_def Let_def)
    then have "consume_step t rest = Go t' (drop k rest)"
      using u e t'(1) assms(2) True by (simp add: consume_step_def)
    moreover have "within s f (n + k) t'"
      using t' True length_wire [OF assms(3)] by (simp add: within_def)
    ultimately show ?thesis using k assms(6) by (intro turnI [where k = k and t' = t']) simp_all
  qed
qed

subsection \<open>The payload\<close>

lemma take_byte_mask: "take k (byte_mask xs key off) = byte_mask (take k xs) key off"
  by (rule nth_equalityI) simp_all

lemma drop_byte_mask: "drop k (byte_mask xs key off) = byte_mask (drop k xs) key (off + k)"
  by (rule nth_equalityI) (simp_all add: add.assoc)

lemma validator_decode_prefix:
  "fst (validator_decode (xs @ ys) v) \<Longrightarrow> fst (validator_decode xs v)"
  by (auto simp: validator_decode_append Let_def split: prod.splits if_splits)

lemma current_msg_reading:
  "reading_into s f k t \<Longrightarrow> filled (target s f) f k (current_msg t)"
  by (auto simp: reading_into_def current_msg_def split: if_splits)

lemma reading_set:
  "reading_into s f k t \<Longrightarrow> filled (target s f) f k' md \<Longrightarrow> reading_into s f k' (set_current_msg md t)"
  by (auto simp: reading_into_def set_current_msg_def split: if_splits)

lemma reading_into_cong:
  "reading_into s f k t \<Longrightarrow> m_current_msg t' = m_current_msg t \<Longrightarrow> m_data_msg t' = m_data_msg t \<Longrightarrow>
     m_control_msg t' = m_control_msg t \<Longrightarrow> reading_into s f k t'"
  by (simp add: reading_into_def split: if_splits)

lemma same_validator:
  "md\<lparr>prepared_key := w, msg_ptr := x, msg_validator := msg_validator md\<rparr> = md\<lparr>prepared_key := w, msg_ptr := x\<rparr>"
  by (cases md) simp

lemma opcode_facts [simp]:
  "\<not> op_is_control op_text" "\<not> op_is_control op_continuation" "\<not> op_is_control op_binary"
  "op_text \<noteq> op_continuation" "op_continuation \<noteq> op_text" "op_binary \<noteq> op_continuation" "op_binary \<noteq> op_text"
  by (simp_all add: op_is_control_def op_text_def op_continuation_def op_binary_def word_le_nat_alt)

lemma process_payload_fills:
  assumes "reading_into s f j t" "m_basic_header t = f_header f" "acceptable s f"
    and "bytes = take k (drop j (body f))" "j + k \<le> length (f_payload f)"
  shows "\<exists>t'. process_payload_bytes bytes t = Some (t', None) \<and> reading_into s f (j + k) t' \<and>
    m_state t' = m_state t \<and> m_basic_header t' = m_basic_header t \<and>
    m_bytes_needed t' = m_bytes_needed t - k \<and> m_server t' = m_server t \<and>
    m_max_message_size t' = m_max_message_size t"
proof -
  define md where "md = current_msg t"
  define xs where "xs = take k (drop j (f_payload f))"
  have xs: "length xs = k" "take (j + k) (f_payload f) = take j (f_payload f) @ xs"
    using assms(5) by (simp_all add: xs_def take_add)
  obtain m where m: "msg_ptr (target s f) = Some m" "msg_ptr md = Some (append_payload (take j (f_payload f)) m)"
    "m_opcode m = op_text \<Longrightarrow>
       validator_decode (take j (f_payload f)) (msg_validator (target s f)) = (True, msg_validator md)"
    "m_opcode m \<noteq> op_text \<Longrightarrow> msg_validator md = msg_validator (target s f)"
    "get_masked (f_header f) \<Longrightarrow> key_from (f_key f) j (prepared_key md)"
    using current_msg_reading [OF assms(1)] by (auto simp: filled_def md_def split: if_splits)
  obtain buf w where bw: "(if get_masked (f_header f) then byte_mask_circ bytes (prepared_key md)
      else (bytes, prepared_key md)) = (buf, w)" by fastforce
  have buf: "buf = xs \<and> (get_masked (f_header f) \<longrightarrow> key_from (f_key f) (j + k) w)"
  proof (cases "get_masked (f_header f)")
    case True
    have "bytes = byte_mask xs (f_key f) j"
      using True by (simp add: assms(4) body_def xs_def take_byte_mask drop_byte_mask)
    then show ?thesis
      using byte_mask_circ_spec [OF m(5) [OF True], of bytes] bw True xs(1) by simp
  next
    case False
    then show ?thesis using bw by (simp add: assms(4) body_def xs_def)
  qed
  define out where "out = append_payload (take j (f_payload f)) m"
  have v: "fst (validator_decode xs (msg_validator md))" if "m_opcode m = op_text"
  proof -
    have "fst (validator_decode (f_payload f) (msg_validator (target s f)))"
      using assms(3) that m(1) by (simp add: acceptable_def Let_def)
    then have "fst (validator_decode (take (j + k) (f_payload f)) (msg_validator (target s f)))"
      using validator_decode_prefix [of "take (j + k) (f_payload f)" "drop (j + k) (f_payload f)"] by simp
    then show ?thesis using m(3) [OF that] by (simp add: xs(2) validator_decode_append)
  qed
  define v' where "v' = (if m_opcode m = op_text then snd (validator_decode xs (msg_validator md)) else msg_validator md)"
  define md' where "md' = md\<lparr>prepared_key := w, msg_ptr := Some (append_payload xs out), msg_validator := v'\<rparr>"
  have vd: "m_opcode m = op_text \<Longrightarrow> validator_decode xs (msg_validator md) = (True, v')"
    "m_opcode m \<noteq> op_text \<Longrightarrow> v' = msg_validator md"
    using v by (auto simp: v'_def prod_eq_iff)
  have "process_payload_bytes bytes t =
      Some ((set_current_msg md' t)\<lparr>m_bytes_needed := m_bytes_needed t - k\<rparr>, None)"
    using buf bw m(2) vd xs(1)
    by (cases "m_opcode m = op_text") (simp_all add: process_payload_bytes_def assms(2) Let_def md'_def
        out_def append_payload_def same_validator flip: md_def)
  moreover have "filled (target s f) f (j + k) md'"
  proof -
    have "m_opcode m = op_text \<Longrightarrow>
        validator_decode (take j (f_payload f) @ xs) (msg_validator (target s f)) = (True, v')"
      using m(3) vd(1) by (simp add: validator_decode_append)
    then show ?thesis
      using m(1,4) vd(2) buf unfolding filled_def by (simp add: md'_def out_def append_payload_def xs(2))
  qed
  then have "reading_into s f (j + k) (set_current_msg md' t)" by (rule reading_set [OF assms(1)])
  then have "reading_into s f (j + k) ((set_current_msg md' t)\<lparr>m_bytes_needed := m_bytes_needed t - k\<rparr>)"
    by (rule reading_into_cong) simp_all
  ultimately show ?thesis by simp
qed

lemma finalize_ready:
  assumes "reading_into s f (length (f_payload f)) t" "m_basic_header t = f_header f" "acceptable s f"
    and "get_fin (f_header f)"
  shows "\<exists>t'. finalize_message t = Some (t', None) \<and> reading_into s f (length (f_payload f)) t' \<and>
    m_state t' = READY \<and> m_server t' = m_server t \<and> m_max_message_size t' = m_max_message_size t"
proof -
  define md where "md = current_msg t"
  note fl = current_msg_reading [OF assms(1)]
  then obtain m where m: "msg_ptr md = Some m" by (auto simp: filled_def md_def)
  have "complete (msg_validator md)" if "get_opcode (f_header f) = op_text"
  proof -
    obtain m0 where m0: "msg_ptr (target s f) = Some m0"
      "m_opcode m0 = op_text \<Longrightarrow>
         validator_decode (f_payload f) (msg_validator (target s f)) = (True, msg_validator md)"
      using fl by (auto simp: filled_def md_def split: if_splits)
    have "m_opcode m0 = op_text"
    proof -
      have new: "msg_ptr (m_data_msg s) = None"
        using assms(3) that
        by (auto simp: acceptable_def Let_def validate_incoming_basic_header_def split: if_splits)
      then show ?thesis using m0(1) that by (auto simp: target_def new_metadata_def new_message_def)
    qed
    then show ?thesis using assms(3,4) that m0(2) by (simp add: acceptable_def Let_def)
  qed
  then have "finalize_message t = Some ((set_current_msg md t)\<lparr>m_state := READY\<rparr>, None)"
    using m by (cases md) (simp add: finalize_message_def assms(2) Let_def flip: md_def)
  moreover have "reading_into s f (length (f_payload f)) ((set_current_msg md t)\<lparr>m_state := READY\<rparr>)"
    using reading_set [OF assms(1) fl] by (rule reading_into_cong) (simp_all add: md_def)
  ultimately show ?thesis by simp
qed

lemma turn_application:
  assumes "within s f n t" "m_state t = APPLICATION" "proper f" "acceptable s f"
    and "rest \<noteq> [] \<or> m_bytes_needed t = 0" "rest @ ahead = drop n (wire f) @ tail"
  shows "turn s f n t rest ahead tail"
proof -
  define j where "j = n - 2 - ext_len f"
  have n: "n = 2 + ext_len f + j" "m_basic_header t = f_header f" "n + m_bytes_needed t = length (wire f)"
    "reading_into s f j t" "same_config s t"
    using assms(1,2) by (auto simp: within_def j_def)
  note lw = length_wire [OF assms(3)]
  define k where "k = min (m_bytes_needed t) (length rest)"
  have k: "k \<le> length rest" "n + k \<le> length (wire f)" "j + k \<le> length (f_payload f)"
    using n(1,3) lw by (auto simp: k_def)
  have "length (f_ext f) = ext_len f" using assms(3) by (simp add: proper_def)
  then have body: "drop n (wire f) = drop j (body f)" by (simp add: wire_def n(1))
  obtain u where u: "(if k > 0 then process_payload_bytes (take k rest) t else Some (t, None)) = Some (u, None)"
    "reading_into s f (j + k) u" "m_state u = APPLICATION" "m_basic_header u = f_header f"
    "m_bytes_needed u = m_bytes_needed t - k" "same_config s u"
  proof (cases "k > 0")
    case True
    have "take k rest = take k (drop j (body f))" using rest_take [OF assms(6) k(1,2)] by (simp add: body)
    from process_payload_fills [OF n(4,2) assms(4) this k(3)] show ?thesis
      using True n assms(2) that by (auto simp: same_config_def)
  qed (use n assms(2) that in auto)
  have step: "consume_step t rest = (if m_bytes_needed u > 0 then Go u (drop k rest)
      else if get_fin (f_header f) then
        (case finalize_message u of None \<Rightarrow> Null_message | Some (s, Some ec) \<Rightarrow> Stop s (drop k rest) ec
         | Some (s, None) \<Rightarrow> Go s (drop k rest))
      else Go (reset_headers u) (drop k rest))"
    using u(1,4) assms(2) by (simp add: consume_step_def application_step_def Let_def flip: k_def)
  show ?thesis
  proof (cases "m_bytes_needed u > 0")
    case True
    then have "within s f (n + k) u" using u n k by (simp add: within_def)
    then show ?thesis using step True k assms(6) by (intro turnI [where k = k and t' = u]) simp_all
  next
    case False
    then have e: "n + k = length (wire f)" "j + k = length (f_payload f)"
      using u(5) n(1,3) k lw by (simp_all add: k_def)
    show ?thesis
    proof (cases "get_fin (f_header f)")
      case True
      obtain t' where t': "finalize_message u = Some (t', None)" "reading_into s f (length (f_payload f)) t'"
        "m_state t' = READY" "m_server t' = m_server u" "m_max_message_size t' = m_max_message_size u"
        using finalize_ready [OF _ u(4) assms(4) True] u(2) e(2) by auto
      then have "after s f t'" using u(6) True by (simp add: after_def same_config_def)
      then show ?thesis
        using step False True t'(1) k e(1) assms(6) by (intro turnI [where k = k and t' = t']) simp_all
    next
      case no_fin: False
      have "reading_into s f (length (f_payload f)) (reset_headers u)"
        using u(2) e(2) by (auto intro: reading_into_cong)
      then have "after s f (reset_headers u)"
        using u(6) no_fin by (simp add: after_def same_config_def idle_def reset_headers_def)
      then show ?thesis
        using step False no_fin k e(1) assms(6) by (intro turnI [where k = k and t' = "reset_headers u"]) simp_all
    qed
  qed
qed

subsection \<open>A whole frame\<close>

lemma within_turn:
  assumes "within s f n t" "proper f" "acceptable s f" "consuming t rest"
    and "rest @ ahead = drop n (wire f) @ tail"
  shows "turn s f n t rest ahead tail"
proof -
  consider "m_state t = HEADER_BASIC" "rest \<noteq> []" | "m_state t = HEADER_EXTENDED" | "m_state t = APPLICATION"
    using assms(1,4) by (auto simp: within_def consuming_def)
  then show ?thesis
    using turn_basic turn_extended turn_application assms by (cases; simp add: consuming_def)
qed

lemma within_stops:
  assumes "within s f n t" "proper f" "\<not> consuming t rest"
  shows "rest = [] \<and> n < length (wire f) \<and> 0 < m_bytes_needed t"
  using assms by (auto simp: within_def consuming_def length_wire)

lemma frame_read:
  assumes "proper f" "acceptable s f"
  shows "within s f n t \<Longrightarrow> rest @ ahead = drop n (wire f) @ tail \<Longrightarrow> n \<le> length (wire f) \<Longrightarrow>
    (\<exists>t'. consume_from t rest p = Consumed t' (p + length rest) None \<and> n + length rest < length (wire f) \<and>
       within s f (n + length rest) t' \<and> 0 < m_bytes_needed t') \<or>
    (\<exists>t' rest'. consume_from t rest p = consume_from t' rest' (p + (length rest - length rest')) \<and>
       after s f t' \<and> rest' @ ahead = tail \<and> length rest = length rest' + (length (wire f) - n))"
proof (induction t rest p arbitrary: n rule: consume_from.induct)
  case (1 t rest p)
  show ?case
  proof (cases "consuming t rest")
    case False
    with within_stops [OF 1(2) assms(1) False] 1(2) show ?thesis
      by (intro disjI1 exI [of _ t]) (simp add: consume_from.simps)
  next
    case True
    obtain t' n' rest' where t': "consume_step t rest = Go t' rest'" "n \<le> n'" "n' \<le> length (wire f)"
      "rest' @ ahead = drop n' (wire f) @ tail" "within s f n' t' \<or> n' = length (wire f) \<and> after s f t'"
      "length rest = length rest' + (n' - n)"
      using within_turn [OF 1(2) assms True 1(3)] by (auto simp: turn_def)
    have run: "consume_from t rest p = consume_from t' rest' (p + (length rest - length rest'))"
      using True t'(1) by (simp add: consume_from.simps [of t])
    from t'(5) show ?thesis
    proof
      assume "within s f n' t'"
      note ih = 1(1) [OF _ t'(1) this t'(4,3), simplified True, simplified]
      have d: "p + (length rest - length rest') + length rest' = p + length rest" "n' + length rest' = n + length rest"
        using t'(2,6) by linarith+
      from ih show ?thesis
      proof (elim disjE exE conjE)
        fix u assume "consume_from t' rest' (p + (length rest - length rest')) =
            Consumed u (p + (length rest - length rest') + length rest') None"
          "n' + length rest' < length (wire f)" "within s f (n' + length rest') u" "0 < m_bytes_needed u"
        then show ?thesis unfolding d run by blast
      next
        fix u rest2 assume u: "consume_from t' rest' (p + (length rest - length rest')) =
            consume_from u rest2 (p + (length rest - length rest') + (length rest' - length rest2))"
          "after s f u" "rest2 @ ahead = tail" "length rest' = length rest2 + (length (wire f) - n')"
        have e: "p + (length rest - length rest') + (length rest' - length rest2) = p + (length rest - length rest2)"
          "length rest = length rest2 + (length (wire f) - n)"
          using u(4) t'(2,3,6) by linarith+
        from u(2,3) e(2) show ?thesis unfolding run u(1) e(1) by blast
      qed
    next
      assume "n' = length (wire f) \<and> after s f t'"
      with run t'(2,4,6) show ?thesis by (intro disjI2 exI [of _ t'] exI [of _ rest']) auto
    qed
  qed
qed

end
