(* ===== verification/WsStream.thy ===== *)
theory WsStream
  imports WsHybiRead
begin

text \<open>
  Two processors back to back: what one endpoint prepares (\<open>prepare_data_frame\<close>, \<open>prepare_control\<close>) is
  what the reading loop of the other endpoint's connection (impl/connection_impl.hpp,
  \<open>handle_read_frame\<close>) takes out of the byte stream again, however the stream is cut into reads.
\<close>

subsection \<open>The reading loop of a connection\<close>

text \<open>
  The loop of \<open>handle_read_frame\<close> over one buffer: the messages it hands out, and the error it stops
  with. \<open>None\<close> stands for a null message that is dereferenced and for a loop without progress.
\<close>

partial_function (option) receive :: "hybi13 \<Rightarrow> byte list \<Rightarrow> (hybi13 \<times> message list \<times> error_code option) option" where
  "receive s buf =
     (if buf = [] then Some (s, [], None)
      else (case consume s buf of
              Crashed \<Rightarrow> None
            | Consumed s n ec \<Rightarrow>
                (case ec of
                   Some e \<Rightarrow> Some (s, [], Some e)
                 | None \<Rightarrow>
                     if ready s then
                       (case get_message s of
                          None \<Rightarrow> None
                        | Some r \<Rightarrow>
                            Option.bind (receive (snd r) (drop n buf))
                              (\<lambda>(s, ms, ec). Some (s, (case fst r of None \<Rightarrow> ms | Some m \<Rightarrow> m # ms), ec)))
                     else receive s (drop n buf))))"

text \<open>Successive reads; an error ends the reading.\<close>

fun receive_all :: "hybi13 \<Rightarrow> byte list list \<Rightarrow> (hybi13 \<times> message list \<times> error_code option) option" where
  "receive_all s [] = Some (s, [], None)"
| "receive_all s (b # bs) =
     (case receive s b of
        None \<Rightarrow> None
      | Some (s, ms, Some e) \<Rightarrow> Some (s, ms, Some e)
      | Some (s, ms, None) \<Rightarrow>
          (case receive_all s bs of None \<Rightarrow> None | Some (s, ms', ec) \<Rightarrow> Some (s, ms @ ms', ec)))"

subsection \<open>Streams of complete messages\<close>

definition fresh :: "bool \<Rightarrow> nat \<Rightarrow> hybi13 \<Rightarrow> bool" where
  "fresh server limit s \<longleftrightarrow>
     idle s \<and> msg_ptr (m_data_msg s) = None \<and> m_server s = server \<and> m_max_message_size s = limit"

definition frame_message :: "in_frame \<Rightarrow> message" where
  "frame_message f = append_payload (f_payload f) (new_message (get_opcode (f_header f)))"

definition good :: "bool \<Rightarrow> nat \<Rightarrow> in_frame \<Rightarrow> bool" where
  "good server limit f \<longleftrightarrow>
     proper f \<and> get_fin (f_header f) \<and> (\<forall>s. fresh server limit s \<longrightarrow> acceptable s f)"

text \<open>The processor is inside the first frame of \<open>fs\<close>, whose unread bytes open the unread stream.\<close>

definition reading :: "bool \<Rightarrow> nat \<Rightarrow> in_frame list \<Rightarrow> byte list \<Rightarrow> hybi13 \<Rightarrow> bool" where
  "reading server limit fs unread t \<longleftrightarrow>
     (case fs of
        [] \<Rightarrow> unread = [] \<and> fresh server limit t
      | f # fs' \<Rightarrow> \<exists>s n. fresh server limit s \<and> within s f n t \<and> n < length (wire f) \<and>
          unread = drop n (wire f) @ concat (map wire fs'))"

lemma reading_start: "fresh server limit t \<Longrightarrow> reading server limit fs (concat (map wire fs)) t"
  using within_start by (cases fs) (auto simp: reading_def fresh_def intro!: exI [of _ t] exI [of _ 0])

lemma reading_end: "reading server limit fs [] t \<Longrightarrow> fs = [] \<and> fresh server limit t"
  by (cases fs) (auto simp: reading_def)

lemma after_message:
  assumes "after s f t" "fresh server limit s" "good server limit f"
  shows "ready t \<and> (\<exists>t'. get_message t = Some (Some (frame_message f), t') \<and> fresh server limit t')"
proof -
  have fin: "get_fin (f_header f)" using assms(3) by (simp add: good_def)
  have t: "m_state t = READY" "same_config s t" "reading_into s f (length (f_payload f)) t"
    using assms(1) fin by (auto simp: after_def)
  have new: "msg_ptr (m_data_msg s) = None" "m_server s = server" "m_max_message_size s = limit"
    using assms(2) by (simp_all add: fresh_def)
  have target: "target s f = new_metadata (new_message (get_opcode (f_header f))) (f_key f)"
    by (simp add: target_def new(1))
  have msg: "msg_ptr (current_msg t) = Some (frame_message f)"
    using current_msg_reading [OF t(3)] by (simp add: filled_def target new_metadata_def frame_message_def)
  have opc: "m_opcode (frame_message f) = get_opcode (f_header f)"
    by (simp add: frame_message_def append_payload_def new_message_def)
  have "m_current_msg t = (if op_is_control (get_opcode (f_header f)) then Control_msg else Data_msg)"
    "op_is_control (get_opcode (f_header f)) \<Longrightarrow> m_data_msg t = m_data_msg s"
    using t(3) by (auto simp: reading_into_def split: if_splits)
  then show ?thesis
    using t(1,2) msg opc new
    by (auto simp: ready_def get_message_def fresh_def idle_def reset_headers_def same_config_def set_current_msg_def
        split: if_splits)
qed

lemma within_not_ready: "within s f n t \<Longrightarrow> \<not> ready t"
  by (auto simp: within_def ready_def)

lemma receive_stream:
  "reading server limit fs (buf @ ahead) t \<Longrightarrow> list_all (good server limit) fs \<Longrightarrow>
     \<exists>t' fs1 fs2. receive t buf = Some (t', map frame_message fs1, None) \<and> fs = fs1 @ fs2 \<and>
       reading server limit fs2 ahead t'"
proof (induction fs arbitrary: t buf)
  case Nil
  then show ?case by (simp add: reading_def receive.simps)
next
  case (Cons f fs)
  obtain s n where s: "fresh server limit s" "within s f n t" "n < length (wire f)"
    "buf @ ahead = drop n (wire f) @ concat (map wire fs)"
    using Cons.prems(1) by (auto simp: reading_def)
  have g: "good server limit f" "list_all (good server limit) fs" using Cons.prems(2) by simp_all
  then have f: "proper f" "acceptable s f" "good server limit f" "list_all (good server limit) fs"
    using s(1) by (simp_all add: good_def)
  show ?case
  proof (cases "buf = []")
    case True
    then show ?thesis
      using Cons.prems(1) by (intro exI [of _ t] exI [of _ "[]"] exI [of _ "f # fs"]) (simp add: receive.simps)
  next
    case False
    from frame_read [OF f(1,2) s(2,4) less_imp_le [OF s(3)], of 0] show ?thesis
    proof (elim disjE exE conjE)
      fix t' assume t': "consume_from t buf 0 = Consumed t' (0 + length buf) None"
        "n + length buf < length (wire f)" "within s f (n + length buf) t'" "0 < m_bytes_needed t'"
      then have "receive t buf = Some (t', [], None)"
        using False within_not_ready [OF t'(3)] by (simp add: receive.simps [of t] consume_def) (simp add: receive.simps)
      moreover have "reading server limit (f # fs) ahead t'"
      proof -
        have "drop (length buf) (buf @ ahead) = drop (n + length buf) (wire f) @ concat (map wire fs)"
          using t'(2) by (simp add: s(4) add.commute)
        then show ?thesis using s(1) t'(2,3) by (auto simp: reading_def)
      qed
      ultimately show ?thesis by (intro exI [of _ t'] exI [of _ "[]"] exI [of _ "f # fs"]) simp
    next
      fix t' rest' assume t': "consume_from t buf 0 = consume_from t' rest' (0 + (length buf - length rest'))"
        "after s f t'" "rest' @ ahead = concat (map wire fs)" "length buf = length rest' + (length (wire f) - n)"
      obtain u where u: "ready t'" "get_message t' = Some (Some (frame_message f), u)" "fresh server limit u"
        using after_message [OF t'(2) s(1) f(3)] by blast
      have "drop (length (wire f) - n) (buf @ ahead) = rest' @ ahead" by (simp add: s(4) t'(3))
      then have rest: "drop (length buf - length rest') buf = rest'" using t'(4) by simp
      have run: "consume t buf = Consumed t' (length buf - length rest') None"
        using t'(1) u(1) by (simp add: consume_def consume_from.simps [of t'] consuming_def ready_def)
      have "reading server limit fs (rest' @ ahead) u" using reading_start [OF u(3)] by (simp add: t'(3))
      from Cons.IH [OF this f(4)] obtain t2 fs1 fs2 where t2: "receive u rest' = Some (t2, map frame_message fs1, None)"
        "fs = fs1 @ fs2" "reading server limit fs2 ahead t2" by blast
      have "receive t buf = Some (t2, map frame_message (f # fs1), None)"
        using False run u t2(1) rest by (simp add: receive.simps [of t])
      with t2(2,3) show ?thesis by (intro exI [of _ t2] exI [of _ "f # fs1"] exI [of _ fs2]) simp
    qed
  qed
qed

lemma receive_all_stream:
  "reading server limit fs (concat bufs) t \<Longrightarrow> list_all (good server limit) fs \<Longrightarrow>
     \<exists>t'. receive_all t bufs = Some (t', map frame_message fs, None) \<and> fresh server limit t'"
proof (induction bufs arbitrary: t fs)
  case Nil
  then show ?case using reading_end [of server limit fs t] by auto
next
  case (Cons b bs)
  obtain t' fs1 fs2 where t': "receive t b = Some (t', map frame_message fs1, None)" "fs = fs1 @ fs2"
    "reading server limit fs2 (concat bs) t'"
    using receive_stream [of server limit fs b "concat bs" t] Cons.prems by auto
  moreover obtain t2 where "receive_all t' bs = Some (t2, map frame_message fs2, None)" "fresh server limit t2"
    using Cons.IH [OF t'(3)] Cons.prems(2) t'(2) by auto
  ultimately show ?case by simp
qed

subsection \<open>What an endpoint sends\<close>

definition sent_frame :: "opcode \<Rightarrow> bool \<Rightarrow> byte list \<Rightarrow> byte list \<Rightarrow> in_frame" where
  "sent_frame op masked key pl =
     (let sz = word_of_nat (length pl); h = make_header op sz True masked False False False
      in \<lparr>f_header = h,
          f_ext = take (get_header_len h - 2) (if masked then extended_size_key sz key else extended_size sz),
          f_payload = pl\<rparr>)"

lemma sent_ext_array:
  "length key = 4 \<Longrightarrow> ext_array (sent_frame op masked key pl) =
     (if masked then extended_size_key (word_of_nat (length pl)) key else extended_size (word_of_nat (length pl)))"
  using payload_offset_le [of "word_of_nat (length pl)"]
  by (auto simp: ext_array_def ext_len_def sent_frame_def Let_def extended_size_key_eq extended_size_eq
      simp del: be_bytes_numeral)

lemma sent_proper:
  assumes "length key = 4" "length pl < 2 ^ 64"
  shows "proper (sent_frame op masked key pl)"
proof -
  define sz :: u64 where "sz = word_of_nat (length pl)"
  have "unat sz = length pl" using assms(2) by (simp add: sz_def unsigned_of_nat take_bit_nat_eq_self)
  moreover have "get_payload_size (f_header (sent_frame op masked key pl)) (ext_array (sent_frame op masked key pl)) = sz"
    unfolding sent_ext_array [OF assms(1)] using assms(1)
    by (auto simp: sent_frame_def Let_def extended_size_key_eq extended_size_eq simp del: be_bytes_numeral
        simp flip: sz_def intro!: read_payload_size)
  moreover have "length (f_ext (sent_frame op masked key pl)) = ext_len (sent_frame op masked key pl)"
    using payload_offset_le [of sz] assms(1)
    by (auto simp: sent_frame_def ext_len_def Let_def extended_size_key_eq extended_size_eq simp del: be_bytes_numeral
        simp flip: sz_def)
  ultimately show ?thesis by (simp add: proper_def sent_frame_def Let_def)
qed

lemma sent_key:
  assumes "length key = 4"
  shows "f_key (sent_frame op True key pl) = key"
  using assms payload_offset_le [of "word_of_nat (length pl)"]
  by (simp add: f_key_def sent_ext_array) (simp add: sent_frame_def Let_def get_masking_key_def extended_size_key_eq
      del: be_bytes_numeral)

lemma sent_wire:
  assumes "length key = 4"
  shows "frame_of op (length pl) True masked False key @ (if masked then byte_mask pl key 0 else pl) =
    wire (sent_frame op masked key pl)"
proof -
  have "body (sent_frame op masked key pl) = (if masked then byte_mask pl key 0 else pl)"
    using sent_key [OF assms, of op pl] by (auto simp: body_def sent_frame_def Let_def)
  then show ?thesis by (simp add: wire_def frame_of_def prepare_header_def sent_frame_def Let_def)
qed

definition sendable :: "nat \<Rightarrow> byte list \<times> opcode \<times> byte list \<Rightarrow> bool" where
  "sendable limit = (\<lambda>(key, op, pl). length key = 4 \<and>
     (op = op_binary \<and> length pl \<le> limit \<and> length pl < 2 ^ 64 \<or>
      op = op_text \<and> length pl \<le> limit \<and> length pl < 2 ^ 64 \<and> validate pl \<or>
      (op = op_ping \<or> op = op_pong \<or> op = op_close) \<and> length pl \<le> payload_size_basic))"

lemma sendable_opcode:
  assumes "sendable limit (key, op, pl)"
  shows "op AND 0x0F = op" "\<not> op_reserved op" "\<not> op_invalid op" "op \<noteq> op_continuation"
    "length key = 4" "length pl < 2 ^ 64" "op_is_control op \<longrightarrow> length pl \<le> 125"
  using assms
  by (auto simp: sendable_def op_binary_def op_text_def op_ping_def op_pong_def op_close_def op_reserved_def
      op_invalid_def op_continuation_def op_is_control_def payload_size_basic_def word_le_nat_alt word_less_nat_alt)

lemma sent_extended_valid:
  assumes "unat sz = length pl"
  shows "get_payload_size h e = sz \<Longrightarrow> get_basic_size h = size_code sz \<Longrightarrow>
    validate_incoming_extended_header h e = None"
  by (cases sz rule: size_code_cases)
    (auto simp: validate_incoming_extended_header_def Let_def small_code payload_size_basic_def
      payload_size_extended_def word_le_nat_alt)

lemma sent_good:
  assumes "sendable limit (key, op, pl)"
  shows "good server limit (sent_frame op server key pl)"
proof -
  define f where "f = sent_frame op server key pl"
  note op = sendable_opcode [OF assms]
  define sz :: u64 where "sz = word_of_nat (length pl)"
  have sz: "unat sz = length pl" using op(6) by (simp add: sz_def unsigned_of_nat take_bit_nat_eq_self)
  have proper: "proper f" unfolding f_def by (rule sent_proper [OF op(5,6)])
  have h: "get_opcode (f_header f) = op" "get_fin (f_header f)" "get_masked (f_header f) = server"
    "\<not> get_rsv1 (f_header f)" "\<not> get_rsv2 (f_header f)" "\<not> get_rsv3 (f_header f)"
    "get_basic_size (f_header f) = size_code sz" "f_payload f = pl"
    using op(1) by (simp_all add: f_def sent_frame_def Let_def sz_def)
  have "get_payload_size (f_header f) (ext_array f) = sz"
    using proper sz h(8) by (simp add: proper_def word_unat_eq_iff)
  then have ext: "validate_incoming_extended_header (f_header f) (ext_array f) = None"
    by (rule sent_extended_valid [OF sz _ h(7)])
  have small: "op_is_control op \<Longrightarrow> \<not> word_of_nat payload_size_basic < size_code sz"
    using op(7) sz small_code(3) [of sz] by (cases sz rule: size_code_cases) (auto simp: not_less)
  have "acceptable s f" if "fresh server limit s" for s
  proof -
    have s: "msg_ptr (m_data_msg s) = None" "m_server s = server" "m_max_message_size s = limit"
      using that by (simp_all add: fresh_def)
    have basic: "validate_incoming_basic_header (f_header f) server True = None"
      using h op small by (auto simp: validate_incoming_basic_header_def Let_def)
    have target: "target s f = new_metadata (new_message op) (f_key f)" by (simp add: target_def s h)
    have utf: "fst (validator_decode pl new_validator)" "complete (snd (validator_decode pl new_validator))"
      if "op = op_text"
      using assms that by (auto simp: sendable_def validate_def op_binary_def op_text_def op_ping_def
          op_pong_def op_close_def split: prod.splits if_splits)
    have size: "\<not> op_is_control op \<Longrightarrow> length pl \<le> limit"
      using assms by (auto simp: sendable_def op_ping_def op_pong_def op_close_def op_is_control_def word_le_nat_alt)
    show ?thesis
      using basic ext utf size s h
      by (auto simp: acceptable_def Let_def target new_metadata_def new_message_def)
  qed
  then show ?thesis using proper h(2) by (simp add: good_def f_def)
qed

text \<open>An item to send is prepared in a new message; its bytes are the header and the payload.\<close>

definition prepare_item :: "hybi13 \<Rightarrow> byte list \<times> opcode \<times> byte list \<Rightarrow> error_code option \<times> message option" where
  "prepare_item s = (\<lambda>(key, op, pl).
     if op_is_control op then prepare_control s key op pl (Some (new_message 0))
     else prepare_data_frame s key (Some (append_payload pl (new_message op))) (Some (new_message 0)))"

definition message_bytes :: "message \<Rightarrow> byte list" where
  "message_bytes m = m_header m @ m_payload m"

lemma prepare_item_wire:
  assumes "sendable limit (key, op, pl)"
  shows "\<exists>m. prepare_item s (key, op, pl) = (None, Some m) \<and>
    message_bytes m = wire (sent_frame op (\<not> m_server s) key pl)"
proof -
  note op = sendable_opcode [OF assms]
  note w = sent_wire [OF op(5), of op pl "\<not> m_server s"]
  show ?thesis
  proof (cases "op_is_control op")
    case True
    then show ?thesis
      using op(7) w
      by (auto simp: prepare_item_def prepare_control_def Let_def message_bytes_def masked_copy_def
          payload_size_basic_def split: if_splits)
  next
    case False
    moreover have "op = op_text \<longrightarrow> validate pl"
      using assms by (auto simp: sendable_def op_binary_def op_text_def op_ping_def op_pong_def op_close_def)
    moreover have "frame_of op (length pl) True False False [0, 0, 0, 0] = frame_of op (length pl) True False False key"
      by (simp add: frame_of_def)
    ultimately show ?thesis
      using w
      by (auto simp: prepare_item_def prepare_data_frame_def Let_def message_bytes_def masked_copy_def
          append_payload_def new_message_def split: if_splits)
  qed
qed

definition sent_stream :: "hybi13 \<Rightarrow> (byte list \<times> opcode \<times> byte list) list \<Rightarrow> byte list" where
  "sent_stream s items = concat (map (\<lambda>i. message_bytes (the (snd (prepare_item s i)))) items)"

lemma sent_stream_wire:
  "list_all (sendable limit) items \<Longrightarrow>
     sent_stream s items = concat (map wire (map (\<lambda>(key, op, pl). sent_frame op (\<not> m_server s) key pl) items))"
proof (induction items)
  case (Cons i items)
  obtain key op pl where i: "i = (key, op, pl)" by (cases i)
  obtain m where "prepare_item s i = (None, Some m)" "message_bytes m = wire (sent_frame op (\<not> m_server s) key pl)"
    using prepare_item_wire [of limit key op pl s] Cons.prems by (auto simp: i)
  then show ?case using Cons by (simp add: sent_stream_def i)
qed (simp add: sent_stream_def)

lemma new_hybi13_fresh: "fresh server max_message_size (new_hybi13 server)"
  by (simp add: fresh_def idle_def new_hybi13_def reset_headers_def no_msg_def)

text \<open>Two processors of opposite roles: a list of text, binary and control messages that one
  prepares (text valid UTF-8, sizes within the limits, any four byte masking keys) is received by the
  other as the same list of opcodes and payloads, in order and without an error, however the byte
  stream is cut into reads; and the receiver is ready for more afterwards.\<close>

theorem messages_survive_the_wire:
  assumes "list_all (sendable max_message_size) items"
    and "concat bufs = sent_stream (new_hybi13 server) items"
  shows "\<exists>s ms. receive_all (new_hybi13 (\<not> server)) bufs = Some (s, ms, None) \<and>
    map (\<lambda>m. (m_opcode m, m_payload m)) ms = map snd items \<and> fresh (\<not> server) max_message_size s"
proof -
  define fs where "fs = map (\<lambda>(key, op, pl). sent_frame op (\<not> server) key pl) items"
  have good: "list_all (good (\<not> server) max_message_size) fs"
    using assms(1) sent_good by (fastforce simp: fs_def list_all_iff)
  have "concat bufs = concat (map wire fs)"
    using sent_stream_wire [OF assms(1), of "new_hybi13 server"] assms(2)
    by (simp add: fs_def new_hybi13_def reset_headers_def)
  then have "reading (\<not> server) max_message_size fs (concat bufs) (new_hybi13 (\<not> server))"
    using reading_start [OF new_hybi13_fresh] by simp
  from receive_all_stream [OF this good] obtain s
    where s: "receive_all (new_hybi13 (\<not> server)) bufs = Some (s, map frame_message fs, None)"
      "fresh (\<not> server) max_message_size s" by blast
  have "map (\<lambda>m. (m_opcode m, m_payload m)) (map frame_message fs) = map snd items"
    using assms(1) sendable_opcode(1)
    by (fastforce simp: fs_def frame_message_def append_payload_def new_message_def sent_frame_def Let_def list_all_iff)
  with s show ?thesis by blast
qed

definition example_items :: "(byte list \<times> opcode \<times> byte list) list" where
  "example_items = [([1, 2, 3, 4], op_text, [0x68, 0x69]), ([9, 9, 9, 9], op_ping, []), ([5, 0, 0, 7], op_binary, [255])]"

lemma example_sendable: "list_all (sendable max_message_size) example_items"
  by (simp add: example_items_def sendable_def max_message_size_def op_text_def op_binary_def op_ping_def
      validate_accepts next_state_def payload_size_basic_def)

theorem messages_survive_the_wire_witness:
  "\<exists>s ms. receive_all (new_hybi13 True) (map (\<lambda>b. [b]) (sent_stream (new_hybi13 False) example_items)) =
     Some (s, ms, None) \<and>
   map (\<lambda>m. (m_opcode m, m_payload m)) ms = [(op_text, [0x68, 0x69]), (op_ping, []), (op_binary, [255])]"
proof -
  have "concat (map (\<lambda>b. [b]) (sent_stream (new_hybi13 False) example_items)) =
      sent_stream (new_hybi13 False) example_items"
    by (simp add: concat_map_singleton)
  from messages_survive_the_wire [OF example_sendable this] show ?thesis
    by (auto simp: example_items_def)
qed

end
