(* ===== verification/WsConnection.thy ===== *)
theory WsConnection
  imports WsStream SafeQueue
begin

text \<open>
  A WebSocket connection after its opening handshake (websocketpp/websocket/connection.hpp and
  impl/connection_impl.hpp): the send queue, the writing and reading of frames, control frames, the
  closing handshake and the end of the connection. The transport is an argument of the C++ template:
  the requests a connection hands to it are recorded in the state, and every completion handler is
  an operation of its own. A handler of the user is any function on the connection. Logging is left
  out. The configuration is that of config/core.hpp: \<open>drop_on_protocol_error\<close> and
  \<open>silent_close\<close> are off.
\<close>

subsection \<open>State\<close>

datatype session_state = Connecting | Open | Closing | Closed

datatype internal_state =
    USER_INIT | TRANSPORT_INIT | READ_HTTP_REQUEST | WRITE_HTTP_REQUEST | READ_HTTP_RESPONSE
  | WRITE_HTTP_RESPONSE | PROCESS_HTTP_REQUEST | PROCESS_CONNECTION

datatype http_progress = Http_init | Http_deferred | Http_headers_written | Http_body_written | Http_closed

datatype terminate_status = Tstat_failed | Tstat_closed | Tstat_unknown

text \<open>
  The transport: tasks posted with \<open>dispatch\<close>, buffers of writes that are not finished, the number of
  reads that are not finished, armed timers, shutdowns that are not finished, and three histories:
  the messages queued, the bytes handed over, the user's handlers called.
\<close>

datatype task = Run_write_frame | Run_pause_reading | Run_resume_reading | Run_interrupt

datatype timer_use = Open_handshake_timer | Close_handshake_timer | Pong_timer "byte list"

datatype user_call =
    Called_open | Called_message message | Called_ping "byte list" | Called_pong "byte list"
  | Called_pong_timeout "byte list" | Called_close | Called_fail | Called_interrupt | Called_termination

record transport =
  t_posted :: "task list"
  t_writes :: "byte list list"
  t_reads :: nat
  t_timers :: "(nat \<times> timer_use) list"
  t_next_timer :: nat
  t_shutdowns :: "terminate_status list"
  t_pushed :: "message list"
  t_wire :: "byte list"
  t_calls :: "user_call list"

record connection = transport +
  m_is_server :: bool
  m_session :: session_state
  m_internal_state :: internal_state
  m_processor :: hybi13
  m_rng :: "nat \<Rightarrow> byte list"
  m_send_queue :: "message list"
  m_send_buffer_size :: u64
  m_send_buffer :: "byte list list"
  m_current_msgs :: "message list"
  m_write_flag :: bool
  m_read_flag :: bool
  m_handshake_timer :: "nat option"
  m_ping_timer :: "nat option"
  m_close_handshake_timeout_dur :: nat
  m_pong_timeout_dur :: nat
  m_local_close_code :: close_code
  m_local_close_reason :: "byte list"
  m_remote_close_code :: close_code
  m_remote_close_reason :: "byte list"
  m_ec :: "error_code option"
  m_is_http :: bool
  m_http_state :: http_progress
  m_was_clean :: bool

text \<open>A freshly constructed connection, and one whose handshake has just ended.\<close>

definition new_connection :: "bool \<Rightarrow> (nat \<Rightarrow> byte list) \<Rightarrow> connection" where
  "new_connection server rng =
     \<lparr>t_posted = [], t_writes = [], t_reads = 0, t_timers = [], t_next_timer = 0, t_shutdowns = [],
      t_pushed = [], t_wire = [], t_calls = [],
      m_is_server = server, m_session = Connecting, m_internal_state = USER_INIT,
      m_processor = new_hybi13 server, m_rng = rng, m_send_queue = [], m_send_buffer_size = 0,
      m_send_buffer = [], m_current_msgs = [], m_write_flag = False, m_read_flag = True,
      m_handshake_timer = None, m_ping_timer = None, m_close_handshake_timeout_dur = 5000,
      m_pong_timeout_dur = 5000, m_local_close_code = cs_abnormal_close, m_local_close_reason = [],
      m_remote_close_code = cs_abnormal_close, m_remote_close_reason = [], m_ec = None,
      m_is_http = False, m_http_state = Http_init, m_was_clean = False\<rparr>"

definition open_connection :: "bool \<Rightarrow> (nat \<Rightarrow> byte list) \<Rightarrow> connection" where
  "open_connection server rng =
     (new_connection server rng)\<lparr>m_session := Open, m_internal_state := PROCESS_CONNECTION\<rparr>"

text \<open>The handlers of the user; \<open>None\<close> is a handler that is not set.\<close>

record handlers =
  h_open :: "(connection \<Rightarrow> connection) option"
  h_message :: "(message \<Rightarrow> connection \<Rightarrow> connection) option"
  h_ping :: "(byte list \<Rightarrow> connection \<Rightarrow> bool \<times> connection) option"
  h_pong :: "(byte list \<Rightarrow> connection \<Rightarrow> connection) option"
  h_pong_timeout :: "(byte list \<Rightarrow> connection \<Rightarrow> connection) option"
  h_close :: "(connection \<Rightarrow> connection) option"
  h_fail :: "(connection \<Rightarrow> connection) option"
  h_interrupt :: "(connection \<Rightarrow> connection) option"
  h_termination :: "(connection \<Rightarrow> connection) option"

definition no_handlers :: handlers where
  "no_handlers = \<lparr>h_open = None, h_message = None, h_ping = None, h_pong = None,
     h_pong_timeout = None, h_close = None, h_fail = None, h_interrupt = None, h_termination = None\<rparr>"

definition call :: "user_call \<Rightarrow> (connection \<Rightarrow> connection) option \<Rightarrow> connection \<Rightarrow> connection" where
  "call e h c = (case h of None \<Rightarrow> c | Some f \<Rightarrow> f (c\<lparr>t_calls := t_calls c @ [e]\<rparr>))"

subsection \<open>Requests to the transport\<close>

definition dispatch :: "task \<Rightarrow> connection \<Rightarrow> connection" where
  "dispatch t c = c\<lparr>t_posted := t_posted c @ [t]\<rparr>"

definition set_timer :: "timer_use \<Rightarrow> connection \<Rightarrow> nat \<times> connection" where
  "set_timer u c =
     (t_next_timer c,
      c\<lparr>t_timers := t_timers c @ [(t_next_timer c, u)], t_next_timer := t_next_timer c + 1\<rparr>)"

definition cancel_timer :: "nat option \<Rightarrow> connection \<Rightarrow> connection" where
  "cancel_timer t c =
     (case t of None \<Rightarrow> c | Some i \<Rightarrow> c\<lparr>t_timers := filter (\<lambda>(j, u). j \<noteq> i) (t_timers c)\<rparr>)"

definition async_shutdown :: "terminate_status \<Rightarrow> connection \<Rightarrow> connection" where
  "async_shutdown tstat c = c\<lparr>t_shutdowns := t_shutdowns c @ [tstat]\<rparr>"

definition async_write :: "byte list list \<Rightarrow> connection \<Rightarrow> connection" where
  "async_write bufs c =
     c\<lparr>t_writes := t_writes c @ [concat bufs], t_wire := t_wire c @ concat bufs\<rparr>"

definition async_read :: "connection \<Rightarrow> connection" where
  "async_read c = c\<lparr>t_reads := t_reads c + 1\<rparr>"

subsection \<open>The send queue\<close>

definition write_push :: "message \<Rightarrow> connection \<Rightarrow> connection" where
  "write_push m c =
     c\<lparr>m_send_buffer_size := m_send_buffer_size c + word_of_nat (length (m_payload m)),
       m_send_queue := m_send_queue c @ [m], t_pushed := t_pushed c @ [m]\<rparr>"

definition write_pop :: "connection \<Rightarrow> (message \<times> connection) option" where
  "write_pop c =
     (case m_send_queue c of
        [] \<Rightarrow> None
      | m # q \<Rightarrow>
          Some (m, c\<lparr>m_send_buffer_size := m_send_buffer_size c - word_of_nat (length (m_payload m)),
                     m_send_queue := q\<rparr>))"

definition get_buffered_amount :: "connection \<Rightarrow> u64" where
  "get_buffered_amount c = m_send_buffer_size c"

text \<open>Push under the write lock, then start a write unless one is outstanding.\<close>

definition push_and_write :: "message \<Rightarrow> connection \<Rightarrow> connection" where
  "push_and_write m c =
     (let c = write_push m c; needs_writing = (\<not> m_write_flag c \<and> m_send_queue c \<noteq> [])
      in if needs_writing then dispatch Run_write_frame c else c)"

text \<open>
  The processor prepares an outgoing frame; a client's processor draws a masking key when it comes to
  write the header.
\<close>

definition prepare_with ::
  "(byte list \<Rightarrow> error_code option \<times> message option) \<Rightarrow> connection \<Rightarrow>
     error_code option \<times> message option \<times> connection" where
  "prepare_with f c =
     (let (ec, out) = f (m_rng c 0)
      in (ec, out, if ec = None \<and> \<not> m_server (m_processor c) then c\<lparr>m_rng := (\<lambda>n. m_rng c (Suc n))\<rparr> else c))"

subsection \<open>What the user can call\<close>

text \<open>
  \<open>send\<close> looks at the state under one lock and queues under another; the second part is a
  definition of its own, because another thread can come between. The message manager always has a
  buffer, so that \<open>no_outgoing_buffers\<close> never occurs.
\<close>

definition send_unlocked :: "message \<Rightarrow> connection \<Rightarrow> error_code option \<times> connection" where
  "send_unlocked m c =
     (if m_prepared m then (None, push_and_write m c)
      else (case prepare_with (\<lambda>key. prepare_data_frame (m_processor c) key (Some m) (Some (new_message 0))) c of
              (Some ec, _, c) \<Rightarrow> (Some ec, c)
            | (None, None, c) \<Rightarrow> (None, c)
            | (None, Some out, c) \<Rightarrow> (None, push_and_write out c)))"

definition send :: "message \<Rightarrow> connection \<Rightarrow> error_code option \<times> connection" where
  "send m c = (if m_session c \<noteq> Open then (Some (Library W_invalid_state), c) else send_unlocked m c)"

definition send_text :: "byte list \<Rightarrow> opcode \<Rightarrow> connection \<Rightarrow> error_code option \<times> connection" where
  "send_text payload op c = send ((append_payload payload (new_message op))\<lparr>m_compressed := True\<rparr>) c"

definition send_bytes :: "byte list \<Rightarrow> opcode \<Rightarrow> connection \<Rightarrow> error_code option \<times> connection" where
  "send_bytes payload op c = send (append_payload payload (new_message op)) c"

definition start_pong_timer :: "handlers \<Rightarrow> byte list \<Rightarrow> connection \<Rightarrow> connection" where
  "start_pong_timer h payload c =
     (if h_pong_timeout h = None then c
      else (let c = cancel_timer (m_ping_timer c) c
            in if m_pong_timeout_dur c > 0
               then (let (t, c) = set_timer (Pong_timer payload) c in c\<lparr>m_ping_timer := Some t\<rparr>)
               else c))"

definition ping :: "handlers \<Rightarrow> byte list \<Rightarrow> connection \<Rightarrow> error_code option \<times> connection" where
  "ping h payload c =
     (if m_session c \<noteq> Open then (Some (Library W_invalid_state), c)
      else (case prepare_with (\<lambda>key. prepare_ping (m_processor c) key payload (Some (new_message 0))) c of
              (Some ec, _, c) \<Rightarrow> (Some ec, c)
            | (None, None, c) \<Rightarrow> (None, c)
            | (None, Some out, c) \<Rightarrow> (None, push_and_write out (start_pong_timer h payload c))))"

definition pong :: "byte list \<Rightarrow> connection \<Rightarrow> error_code option \<times> connection" where
  "pong payload c =
     (if m_session c \<noteq> Open then (Some (Library W_invalid_state), c)
      else (case prepare_with (\<lambda>key. prepare_pong (m_processor c) key payload (Some (new_message 0))) c of
              (Some ec, _, c) \<Rightarrow> (Some ec, c)
            | (None, None, c) \<Rightarrow> (None, c)
            | (None, Some out, c) \<Rightarrow> (None, push_and_write out c)))"

text \<open>The close code and reason of a close frame; a blank code is replaced.\<close>

definition choose_close :: "close_code \<Rightarrow> byte list \<Rightarrow> bool \<Rightarrow> connection \<Rightarrow> connection" where
  "choose_close code reason ack c =
     (if code \<noteq> cs_blank then c\<lparr>m_local_close_code := code, m_local_close_reason := reason\<rparr>
      else if \<not> ack then c\<lparr>m_local_close_code := cs_no_status, m_local_close_reason := []\<rparr>
      else if m_remote_close_code c = cs_no_status
      then c\<lparr>m_local_close_code := cs_normal, m_local_close_reason := []\<rparr>
      else c\<lparr>m_local_close_code := m_remote_close_code c, m_local_close_reason := m_remote_close_reason c\<rparr>)"

definition send_close_frame ::
  "close_code \<Rightarrow> byte list \<Rightarrow> bool \<Rightarrow> bool \<Rightarrow> connection \<Rightarrow> error_code option \<times> connection" where
  "send_close_frame code reason ack terminate_after c =
     (let c = choose_close code reason ack c
      in case prepare_with (\<lambda>key. prepare_close (m_processor c) key (m_local_close_code c)
                              (m_local_close_reason c) (Some (new_message 0))) c of
           (Some ec, _, c) \<Rightarrow> (Some ec, c)
         | (None, None, c) \<Rightarrow> (None, c)
         | (None, Some m, c) \<Rightarrow>
             (let m = (if terminate_after then m\<lparr>m_terminal := True\<rparr> else m);
                  c = c\<lparr>m_session := Closing\<rparr>;
                  c = (if ack then c\<lparr>m_was_clean := True\<rparr> else c);
                  c = (if m_close_handshake_timeout_dur c > 0
                       then (let (t, c) = set_timer Close_handshake_timer c in c\<lparr>m_handshake_timer := Some t\<rparr>)
                       else c)
              in (None, push_and_write m c)))"

definition send_close_ack :: "close_code \<Rightarrow> byte list \<Rightarrow> connection \<Rightarrow> error_code option \<times> connection" where
  "send_close_ack code reason c = send_close_frame code reason True (m_is_server c) c"

definition close_con :: "close_code \<Rightarrow> byte list \<Rightarrow> connection \<Rightarrow> error_code option \<times> connection" where
  "close_con code reason c =
     (let tr = take (min (length reason) close_reason_size) reason
      in if m_session c \<noteq> Open then (Some (Library W_invalid_state), c)
         else send_close_frame code tr False (terminal code) c)"

text \<open>The operations that the transport runs later.\<close>

definition interrupt :: "connection \<Rightarrow> connection" where
  "interrupt c = dispatch Run_interrupt c"

definition handle_interrupt :: "handlers \<Rightarrow> connection \<Rightarrow> connection" where
  "handle_interrupt h c = call Called_interrupt (h_interrupt h) c"

definition pause_reading :: "connection \<Rightarrow> connection" where
  "pause_reading c = dispatch Run_pause_reading c"

definition handle_pause_reading :: "connection \<Rightarrow> connection" where
  "handle_pause_reading c = c\<lparr>m_read_flag := False\<rparr>"

definition resume_reading :: "connection \<Rightarrow> connection" where
  "resume_reading c = dispatch Run_resume_reading c"

definition read_frame :: "connection \<Rightarrow> connection" where
  "read_frame c = (if m_read_flag c then async_read c else c)"

definition handle_resume_reading :: "connection \<Rightarrow> connection" where
  "handle_resume_reading c = read_frame (c\<lparr>m_read_flag := True\<rparr>)"

subsection \<open>The end of a connection\<close>

definition terminate :: "error_code option \<Rightarrow> connection \<Rightarrow> connection" where
  "terminate ec c =
     (let c = (case m_handshake_timer c of None \<Rightarrow> c
               | Some t \<Rightarrow> (cancel_timer (Some t) c)\<lparr>m_handshake_timer := None\<rparr>);
          c = (case ec of None \<Rightarrow> c
               | Some e \<Rightarrow> c\<lparr>m_ec := Some e, m_local_close_code := cs_abnormal_close,
                            m_local_close_reason := error_message e\<rparr>);
          c = (if m_is_http c then c\<lparr>m_http_state := Http_closed\<rparr> else c)
      in case m_session c of
           Connecting \<Rightarrow> async_shutdown Tstat_failed (c\<lparr>m_session := Closed\<rparr>)
         | Closed \<Rightarrow> c
         | _ \<Rightarrow> async_shutdown Tstat_closed (c\<lparr>m_session := Closed\<rparr>))"

definition handle_terminate :: "handlers \<Rightarrow> terminate_status \<Rightarrow> error_code option \<Rightarrow> connection \<Rightarrow> connection" where
  "handle_terminate h tstat ec c =
     (let c = (case tstat of
                 Tstat_failed \<Rightarrow>
                   if m_ec c \<noteq> Some (Library W_http_connection_ended) then call Called_fail (h_fail h) c else c
               | Tstat_closed \<Rightarrow> call Called_close (h_close h) c
               | Tstat_unknown \<Rightarrow> c)
      in call Called_termination (h_termination h) c)"

definition handle_open_handshake_timeout :: "error_code option \<Rightarrow> connection \<Rightarrow> connection" where
  "handle_open_handshake_timeout ec c =
     (if ec = None then terminate (Some (Library W_open_handshake_timeout)) c else c)"

definition handle_close_handshake_timeout :: "error_code option \<Rightarrow> connection \<Rightarrow> connection" where
  "handle_close_handshake_timeout ec c =
     (if ec = None then terminate (Some (Library W_close_handshake_timeout)) c else c)"

definition handle_pong_timeout :: "handlers \<Rightarrow> byte list \<Rightarrow> error_code option \<Rightarrow> connection \<Rightarrow> connection" where
  "handle_pong_timeout h payload ec c =
     (if ec = None then call (Called_pong_timeout payload)
        (case h_pong_timeout h of None \<Rightarrow> None | Some f \<Rightarrow> Some (f payload)) c
      else c)"

subsection \<open>Writing\<close>

text \<open>The messages that are ready, up to the first terminal one.\<close>

fun pop_ready :: "nat \<Rightarrow> connection \<Rightarrow> message list \<times> connection" where
  "pop_ready 0 c = ([], c)"
| "pop_ready (Suc n) c =
     (case write_pop c of
        None \<Rightarrow> ([], c)
      | Some (m, c) \<Rightarrow>
          if m_terminal m then ([m], c)
          else (let (ms, c) = pop_ready n c in (m # ms, c)))"

definition write_frame :: "connection \<Rightarrow> connection" where
  "write_frame c =
     (if m_write_flag c then c
      else (let (ms, c) = pop_ready (length (m_send_queue c)) c;
                c = c\<lparr>m_current_msgs := m_current_msgs c @ ms\<rparr>
            in if m_current_msgs c = [] then c
               else (let c = c\<lparr>m_write_flag := True\<rparr>;
                         c = c\<lparr>m_send_buffer := m_send_buffer c @
                                 concat (map (\<lambda>m. [m_header m, m_payload m]) (m_current_msgs c))\<rparr>
                     in async_write (m_send_buffer c) c)))"

text \<open>\<open>None\<close>: \<open>back\<close> of an empty vector.\<close>

definition handle_write_frame :: "error_code option \<Rightarrow> connection \<Rightarrow> connection option" where
  "handle_write_frame ec c =
     (if m_current_msgs c = [] then None
      else (let is_terminal = m_terminal (last (m_current_msgs c));
                c = c\<lparr>m_send_buffer := [], m_current_msgs := []\<rparr>
            in Some (if ec \<noteq> None then terminate ec c
                     else if is_terminal then terminate None c
                     else (let c = c\<lparr>m_write_flag := False\<rparr>
                           in if m_send_queue c \<noteq> [] then dispatch Run_write_frame c else c))))"

subsection \<open>Reading\<close>

definition handle_ping :: "handlers \<Rightarrow> byte list \<Rightarrow> connection \<Rightarrow> connection" where
  "handle_ping h payload c =
     (let (should_reply, c) = (case h_ping h of None \<Rightarrow> (True, c)
            | Some f \<Rightarrow> f payload (c\<lparr>t_calls := t_calls c @ [Called_ping payload]\<rparr>))
      in if should_reply then snd (pong payload c) else c)"

definition handle_pong :: "handlers \<Rightarrow> byte list \<Rightarrow> connection \<Rightarrow> connection" where
  "handle_pong h payload c =
     (let c = call (Called_pong payload) (case h_pong h of None \<Rightarrow> None | Some f \<Rightarrow> Some (f payload)) c
      in cancel_timer (m_ping_timer c) c)"

definition handle_close_frame :: "byte list \<Rightarrow> connection \<Rightarrow> connection" where
  "handle_close_frame payload c =
     (let (code, ec) = extract_code payload; c = c\<lparr>m_remote_close_code := code\<rparr>
      in if ec \<noteq> None then snd (send_close_ack cs_protocol_error (bytes_of ''Invalid close code'') c)
         else (let (reason, ec) = extract_reason payload; c = c\<lparr>m_remote_close_reason := reason\<rparr>
               in if ec \<noteq> None then snd (send_close_ack cs_protocol_error (bytes_of ''Invalid close reason'') c)
                  else if m_session c = Open then snd (send_close_ack cs_blank [] c)
                  else if m_session c = Closing \<and> \<not> m_was_clean c
                  then (let c = c\<lparr>m_was_clean := True\<rparr>
                        in if m_is_server c then terminate None c else c)
                  else c))"

definition process_control_frame :: "handlers \<Rightarrow> message \<Rightarrow> connection \<Rightarrow> connection" where
  "process_control_frame h m c =
     (let op = m_opcode m
      in if m_session c = Closed then c
         else if op \<noteq> op_close \<and> m_session c \<noteq> Open then c
         else if op = op_ping then handle_ping h (m_payload m) c
         else if op = op_pong then handle_pong h (m_payload m) c
         else if op = op_close then handle_close_frame (m_payload m) c
         else c)"

text \<open>A complete message is handed to the user or handled here.\<close>

definition deliver :: "handlers \<Rightarrow> message \<Rightarrow> connection \<Rightarrow> connection" where
  "deliver h m c =
     (if \<not> op_is_control (m_opcode m) then
        if m_session c \<noteq> Open then c
        else call (Called_message m) (case h_message h of None \<Rightarrow> None | Some f \<Rightarrow> Some (f m)) c
      else process_control_frame h m c)"

definition protocol_error :: "error_code \<Rightarrow> connection \<Rightarrow> connection" where
  "protocol_error e c =
     (case close_con (to_ws e) (error_message e) c of
        (None, c) \<Rightarrow> c
      | (Some ec, c) \<Rightarrow> terminate (Some ec) c)"

text \<open>
  The loop of \<open>handle_read_frame\<close> over the bytes of a read. \<open>None\<close> stands for a null message that is
  dereferenced and for a loop that makes no progress.
\<close>

partial_function (option) read_loop :: "handlers \<Rightarrow> connection \<Rightarrow> byte list \<Rightarrow> connection option" where
  "read_loop h c buf =
     (if buf = [] then Some (read_frame c)
      else (case consume (m_processor c) buf of
              Crashed \<Rightarrow> None
            | Consumed s n ec \<Rightarrow>
                (case ec of
                   Some e \<Rightarrow> Some (protocol_error e (c\<lparr>m_processor := s\<rparr>))
                 | None \<Rightarrow>
                     if ready s then
                       (case get_message s of
                          None \<Rightarrow> None
                        | Some (None, s) \<Rightarrow> read_loop h (c\<lparr>m_processor := s\<rparr>) (drop n buf)
                        | Some (Some m, s) \<Rightarrow> read_loop h (deliver h m (c\<lparr>m_processor := s\<rparr>)) (drop n buf))
                     else read_loop h (c\<lparr>m_processor := s\<rparr>) (drop n buf))))"

text \<open>What a read that failed leads to.\<close>

definition read_failed :: "error_code \<Rightarrow> connection \<Rightarrow> connection" where
  "read_failed ecm c =
     (if ecm = Transport T_eof \<and> m_session c = Closed then c
      else if ecm = Transport T_eof \<and> m_session c = Closing \<and> \<not> m_is_server c then terminate None c
      else if ecm = Library W_invalid_state \<and> m_session c = Closed then c
      else terminate (Some ecm) c)"

definition handle_read_frame ::
  "handlers \<Rightarrow> error_code option \<Rightarrow> byte list \<Rightarrow> connection \<Rightarrow> connection option" where
  "handle_read_frame h ec buf c =
     (let ecm = (if ec = None \<and> m_internal_state c \<noteq> PROCESS_CONNECTION
                 then Some (Library W_invalid_state) else ec)
      in case ecm of
           Some e \<Rightarrow> Some (read_failed e c)
         | None \<Rightarrow> read_loop h c buf)"

end
