(* ===== verification/WsSafety.thy ===== *)
theory WsSafety
  imports WsStream
begin

text \<open>
  Any bytes at all: the invariant of the processor of \<open>WsHybi\<close>, that no input makes it read through a
  null message or spin, and the places where its checks let through what they are meant to stop.
\<close>

subsection \<open>The invariant\<close>

definition sound :: "hybi13 \<Rightarrow> bool" where
  "sound s \<longleftrightarrow> length (m_extended_header s) = 12 \<and>
     (case m_state s of
        HEADER_BASIC \<Rightarrow> m_bytes_needed s \<le> 2
      | HEADER_EXTENDED \<Rightarrow> m_cursor s + m_bytes_needed s \<le> 12
      | EXTENSION \<Rightarrow> False
      | APPLICATION \<Rightarrow> msg_ptr (current_msg s) \<noteq> None
      | READY \<Rightarrow> msg_ptr (current_msg s) \<noteq> None
      | FATAL_ERROR \<Rightarrow> False)"

definition settled :: "hybi13 \<Rightarrow> bool" where
  "settled s \<longleftrightarrow> sound s \<and> m_state s \<noteq> READY \<and> 0 < m_bytes_needed s"

lemma copy_at_length [simp]: "off + length src \<le> length dst \<Longrightarrow> length (copy_at off src dst) = length dst"
  by (simp add: copy_at_def)

lemma start_message_sound:
  assumes "length (m_extended_header s) = 12"
  shows "start_message s rest \<noteq> Null_message \<and> (start_message s rest = Go t rest' \<longrightarrow> sound t)"
  using assms
  by (auto simp: start_message_def Let_def sound_def current_msg_def new_metadata_def split: option.splits if_splits)

lemma process_payload_sound:
  assumes "msg_ptr (current_msg s) \<noteq> None"
  shows "\<exists>t ec. process_payload_bytes buf s = Some (t, ec) \<and> msg_ptr (current_msg t) \<noteq> None \<and>
    m_extended_header t = m_extended_header s \<and> m_state t = m_state s"
  using assms
  by (auto simp: process_payload_bytes_def byte_mask_circ_def Let_def current_msg_def set_current_msg_def
      split: current.splits prod.splits if_splits option.splits)

lemma finalize_sound:
  assumes "msg_ptr (current_msg s) \<noteq> None"
  shows "\<exists>t ec. finalize_message s = Some (t, ec) \<and> msg_ptr (current_msg t) \<noteq> None \<and>
    m_extended_header t = m_extended_header s \<and> (ec = None \<longrightarrow> m_state t = READY)"
  using assms
  by (auto simp: finalize_message_def Let_def current_msg_def set_current_msg_def
      split: current.splits prod.splits if_splits option.splits)

lemma application_sound:
  assumes "sound s" "m_state s = APPLICATION"
  shows "application_step s rest \<noteq> Null_message \<and> (application_step s rest = Go t rest' \<longrightarrow> sound t)"
proof -
  have m: "msg_ptr (current_msg s) \<noteq> None" "length (m_extended_header s) = 12"
    using assms by (simp_all add: sound_def)
  define k where "k = min (m_bytes_needed s) (length rest)"
  obtain u ec where u: "(if k > 0 then process_payload_bytes (take k rest) s else Some (s, None)) = Some (u, ec)"
    "msg_ptr (current_msg u) \<noteq> None" "length (m_extended_header u) = 12" "m_state u = APPLICATION"
    using process_payload_sound [OF m(1), of "take k rest"] m assms(2) by (cases "k > 0") auto
  obtain w ec' where w: "finalize_message u = Some (w, ec')" "msg_ptr (current_msg w) \<noteq> None"
    "length (m_extended_header w) = 12" "ec' = None \<Longrightarrow> m_state w = READY"
    using finalize_sound [OF u(2)] u(3) by auto
  have "sound u" "ec' = None \<Longrightarrow> sound w" "sound (reset_headers u)"
    using u w by (simp_all add: sound_def) (simp add: reset_headers_def)
  then show ?thesis
    using u(1) w(1) by (auto simp: application_step_def Let_def simp flip: k_def split: option.splits if_splits)
qed

lemma consume_step_sound:
  assumes "sound s" "consuming s rest"
  shows "consume_step s rest \<noteq> Null_message \<and> (consume_step s rest = Go t rest' \<longrightarrow> sound t)"
proof (cases "m_state s")
  case HEADER_BASIC
  define u where "u = snd (copy_basic_header_bytes rest s)"
  have "length (m_extended_header u) = 12" "m_state u = HEADER_BASIC" "m_bytes_needed u \<le> 2"
    using assms(1) HEADER_BASIC by (auto simp: u_def copy_basic_header_bytes_def sound_def)
  moreover have "get_header_len h - 2 \<le> 12" for h
    by (simp add: get_header_len_def get_masking_key_offset_def)
  ultimately show ?thesis
    using HEADER_BASIC
    by (auto simp: consume_step_def Let_def u_def sound_def split: option.splits if_splits prod.splits)
next
  case HEADER_EXTENDED
  define u where "u = snd (copy_extended_header_bytes rest s)"
  have "length (m_extended_header u) = 12" "m_state u = HEADER_EXTENDED" "m_cursor u + m_bytes_needed u \<le> 12"
    using assms(1) HEADER_EXTENDED by (auto simp: u_def copy_extended_header_bytes_def Let_def sound_def)
  then have "sound u" "length (m_extended_header u) = 12" by (simp_all add: sound_def)
  then show ?thesis
    using start_message_sound [of u] HEADER_EXTENDED
    by (auto simp: consume_step_def Let_def u_def split: option.splits if_splits prod.splits)
qed (use assms application_sound in \<open>auto simp: consume_step_def sound_def consuming_def\<close>)

lemma consume_from_sound:
  "sound s \<Longrightarrow> \<exists>t n ec. consume_from s rest p = Consumed t n ec \<and>
     (ec = None \<longrightarrow> sound t \<and> (m_state t = READY \<or> 0 < m_bytes_needed t \<and> n = p + length rest))"
proof (induction s rest p rule: consume_from.induct)
  case (1 s rest p)
  show ?case
  proof (cases "consuming s rest")
    case False
    then show ?thesis
      using 1(2) by (auto simp: consume_from.simps consuming_def sound_def)
  next
    case True
    show ?thesis
    proof (cases "consume_step s rest")
      case (Go t rest')
      then have t: "sound t" "length rest' \<le> length rest"
        using consume_step_sound [OF 1(2) True] consume_step_decreases [OF Go True] by auto
      from 1(1) [OF _ Go t(1)] True obtain u n ec where
        "consume_from t rest' (p + (length rest - length rest')) = Consumed u n ec"
        "ec = None \<longrightarrow> sound u \<and> (m_state u = READY \<or> 0 < m_bytes_needed u \<and>
           n = p + (length rest - length rest') + length rest')" by blast
      then show ?thesis using True Go t(2) by (simp add: consume_from.simps [of s])
    qed (use True consume_step_sound [OF 1(2) True] in \<open>auto simp: consume_from.simps [of s]\<close>)
  qed
qed

text \<open>Between two reads the processor needs bytes, so the next read brings it forward.\<close>

lemma settled_progress:
  assumes "settled s" "buf \<noteq> []" "consume_step s buf = Go t rest'"
  shows "length rest' < length buf"
proof -
  have n: "0 < m_bytes_needed s" "m_state s \<noteq> READY" "sound s" using assms(1) by (simp_all add: settled_def)
  then have k: "0 < min (m_bytes_needed s) (length buf)" using assms(2) by simp
  show ?thesis
  proof (cases "m_state s")
    case HEADER_BASIC
    have "0 < fst (copy_basic_header_bytes buf s)"
      using n(1) assms(2) by (simp add: copy_basic_header_bytes_def)
    then show ?thesis
      using HEADER_BASIC assms(2,3)
      by (auto simp: consume_step_def Let_def split: if_splits option.splits prod.splits)
  next
    case HEADER_EXTENDED
    then show ?thesis
      using k assms(2,3)
      by (auto simp: consume_step_def copy_extended_header_bytes_def Let_def dest!: start_message_go
          split: if_splits option.splits)
  next
    case APPLICATION
    then show ?thesis
      using k assms(2,3)
      by (auto simp: consume_step_def application_step_def Let_def split: if_splits option.splits prod.splits)
  qed (use assms(3) n in \<open>auto simp: consume_step_def sound_def\<close>)
qed

lemma consume_from_count: "consume_from s rest p = Consumed t n ec \<Longrightarrow> p \<le> n"
proof (induction s rest p rule: consume_from.induct)
  case (1 s rest p)
  then show ?case
    by (auto simp: consume_from.simps [of s] split: if_splits step_result.splits dest: add_leD1)
qed

lemma consume_settled:
  assumes "settled s" "buf \<noteq> []"
  shows "\<exists>t n ec. consume s buf = Consumed t n ec \<and>
    (ec = None \<longrightarrow> 0 < n \<and> (settled t \<or> sound t \<and> m_state t = READY))"
proof -
  have sd: "sound s" "consuming s buf"
    using assms by (auto simp: settled_def consuming_def sound_def)
  obtain t n ec where c: "consume s buf = Consumed t n ec"
    "ec = None \<longrightarrow> sound t \<and> (m_state t = READY \<or> 0 < m_bytes_needed t)"
    using consume_from_sound [OF sd(1), of buf 0] by (auto simp: consume_def)
  have "0 < n" if "ec = None"
  proof (cases "consume_step s buf")
    case (Go u rest')
    then have "consume_from u rest' (length buf - length rest') = Consumed t n ec"
      using c(1) sd(2) by (simp add: consume_def consume_from.simps [of s])
    then show ?thesis using consume_from_count settled_progress [OF assms Go] by fastforce
  qed (use c sd that in \<open>auto simp: consume_def consume_from.simps [of s]\<close>)
  then show ?thesis using c by (auto simp: settled_def)
qed

lemma get_message_settled:
  assumes "sound s" "m_state s = READY"
  shows "\<exists>m t. get_message s = Some (Some m, t) \<and> settled t"
  using assms
  by (auto simp: sound_def get_message_def ready_def settled_def reset_headers_def current_msg_def Let_def)

lemma receive_settled:
  "settled s \<Longrightarrow> \<exists>t ms ec. receive s buf = Some (t, ms, ec) \<and> (ec = None \<longrightarrow> settled t)"
proof (induction "length buf" arbitrary: s buf rule: less_induct)
  case less
  show ?case
  proof (cases "buf = []")
    case True
    then show ?thesis using less.prems by (simp add: receive.simps)
  next
    case False
    obtain t n ec where c: "consume s buf = Consumed t n ec"
      "ec = None \<longrightarrow> 0 < n \<and> (settled t \<or> sound t \<and> m_state t = READY)"
      using consume_settled [OF less.prems False] by blast
    have shorter: "ec = None \<Longrightarrow> length (drop n buf) < length buf" using c(2) False by (cases buf) auto
    show ?thesis
    proof (cases ec)
      case (Some e)
      then show ?thesis using False c(1) by (simp add: receive.simps [of s])
    next
      case None
      show ?thesis
      proof (cases "ready t")
        case True
        then have "sound t" "m_state t = READY" using c(2) None by (auto simp: ready_def settled_def)
        then obtain m u where u: "get_message t = Some (Some m, u)" "settled u" using get_message_settled by blast
        from less.hyps [OF shorter [OF None] u(2)] show ?thesis
          using False c(1) None True u(1) by (auto simp: receive.simps [of s])
      next
        case not_ready: False
        then have "settled t" using c(2) None by (auto simp: ready_def)
        from less.hyps [OF shorter [OF None] this] show ?thesis
          using False c(1) None not_ready by (simp add: receive.simps [of s])
      qed
    qed
  qed
qed

lemma receive_all_settled:
  "settled s \<Longrightarrow> \<exists>t ms ec. receive_all s bufs = Some (t, ms, ec) \<and> (ec = None \<longrightarrow> settled t)"
proof (induction bufs arbitrary: s)
  case (Cons b bs)
  obtain t ms ec where t: "receive s b = Some (t, ms, ec)" "ec = None \<longrightarrow> settled t"
    using receive_settled [OF Cons.prems] by blast
  then show ?case using Cons.IH [of t] by (cases ec) auto
qed simp

lemma new_hybi13_settled: "settled (new_hybi13 server)"
  by (simp add: settled_def sound_def new_hybi13_def reset_headers_def)

text \<open>Whatever bytes arrive, in whatever pieces, the reading loop over a new processor comes to an
  end: it never goes through a null message pointer and never turns without consuming a byte. If no
  error was found the processor is settled: it waits for at least one byte, the part of the extended
  header still to come fits its twelve bytes, and a message it is reading exists.\<close>

theorem reader_total:
  "\<exists>s ms ec. receive_all (new_hybi13 server) bufs = Some (s, ms, ec) \<and>
     (case ec of None \<Rightarrow> settled s | Some _ \<Rightarrow> True)"
proof -
  obtain t ms ec where "receive_all (new_hybi13 server) bufs = Some (t, ms, ec)" "ec = None \<longrightarrow> settled t"
    using receive_all_settled [OF new_hybi13_settled] by blast
  then show ?thesis by (cases ec) auto
qed

subsection \<open>A fragmented text message\<close>

definition plain_frame :: "opcode \<Rightarrow> bool \<Rightarrow> byte list \<Rightarrow> in_frame" where
  "plain_frame op fin pl =
     (let sz = word_of_nat (length pl); h = make_header op sz fin False False False False
      in \<lparr>f_header = h, f_ext = take (get_header_len h - 2) (extended_size sz), f_payload = pl\<rparr>)"

lemma plain_frame:
  fixes fin :: bool
  assumes "length pl \<le> 125" "op AND 0x0F = op"
  defines "f \<equiv> plain_frame op fin pl"
  shows "proper f" "wire f = frame_of op (length pl) fin False False [] @ pl"
    "get_opcode (f_header f) = op" "get_fin (f_header f) = fin" "\<not> get_masked (f_header f)"
    "\<not> get_rsv1 (f_header f)" "\<not> get_rsv2 (f_header f)" "\<not> get_rsv3 (f_header f)" "f_payload f = pl"
    "validate_incoming_extended_header (f_header f) (ext_array f) = None"
proof -
  define sz :: u64 where "sz = word_of_nat (length pl)"
  have sz: "unat sz = length pl" using assms(1) by (simp add: sz_def unsigned_of_nat take_bit_nat_eq_self)
  have off: "payload_offset sz = 8"
    using sz assms(1) by (cases sz rule: size_code_cases) simp_all
  have e: "f_ext f = []" "ext_len f = 0" "f_header f = make_header op sz fin False False False False"
    using off by (simp_all add: f_def plain_frame_def Let_def ext_len_def flip: sz_def)
  have size: "get_payload_size (f_header f) (ext_array f) = sz"
    unfolding e(3) by (rule read_payload_size) (simp add: off)
  have pl: "f_payload f = pl" by (simp add: f_def plain_frame_def Let_def)
  show "proper f" using sz e size by (simp add: proper_def pl)
  show "f_payload f = pl" "get_opcode (f_header f) = op" "get_fin (f_header f) = fin" "\<not> get_masked (f_header f)"
    "\<not> get_rsv1 (f_header f)" "\<not> get_rsv2 (f_header f)" "\<not> get_rsv3 (f_header f)"
    using assms(2) by (simp_all add: f_def plain_frame_def Let_def)
  then show "wire f = frame_of op (length pl) fin False False [] @ pl"
    using off e by (simp add: wire_def body_def frame_of_def prepare_header_def Let_def flip: sz_def)
  show "validate_incoming_extended_header (f_header f) (ext_array f) = None"
    using size by (rule sent_extended_valid [OF sz]) (simp add: e(3))
qed

lemma text_fragments:
  assumes "length pl \<le> 125" "fst (validator_decode pl new_validator)"
  shows "\<exists>s m. receive (new_hybi13 False)
      (frame_of op_text (length pl) False False False [] @ pl @ frame_of op_continuation 0 True False False []) =
      Some (s, [m], None) \<and> m_opcode m = op_text \<and> m_payload m = pl"
proof -
  define s0 where "s0 = new_hybi13 False"
  define f1 f2 where "f1 = plain_frame op_text False pl" and "f2 = plain_frame op_continuation True []"
  have f1: "proper f1" "wire f1 = frame_of op_text (length pl) False False False [] @ pl"
    "get_opcode (f_header f1) = op_text" "\<not> get_fin (f_header f1)" "\<not> get_masked (f_header f1)"
    "\<not> get_rsv1 (f_header f1)" "\<not> get_rsv2 (f_header f1)" "\<not> get_rsv3 (f_header f1)" "f_payload f1 = pl"
    "validate_incoming_extended_header (f_header f1) (ext_array f1) = None"
    using plain_frame [OF assms(1), of op_text False] by (simp_all add: f1_def op_text_def)
  have f2: "proper f2" "wire f2 = frame_of op_continuation 0 True False False []"
    "get_opcode (f_header f2) = op_continuation" "get_fin (f_header f2)" "\<not> get_masked (f_header f2)"
    "\<not> get_rsv1 (f_header f2)" "\<not> get_rsv2 (f_header f2)" "\<not> get_rsv3 (f_header f2)" "f_payload f2 = []"
    "validate_incoming_extended_header (f_header f2) (ext_array f2) = None"
    using plain_frame [of "[]" op_continuation True] by (simp_all add: f2_def op_continuation_def)
  have s0: "fresh False max_message_size s0" by (simp add: s0_def new_hybi13_fresh)
  then have s0': "idle s0" "msg_ptr (m_data_msg s0) = None" "m_server s0 = False" "m_max_message_size s0 = max_message_size"
    by (simp_all add: fresh_def)
  have opc: "\<not> op_reserved op_text" "\<not> op_invalid op_text" "\<not> op_reserved op_continuation" "\<not> op_invalid op_continuation"
    by (simp_all add: op_reserved_def op_invalid_def op_text_def op_continuation_def word_le_nat_alt word_less_nat_alt)
  have t1: "target s0 f1 = new_metadata (new_message op_text) (f_key f1)"
    by (simp add: target_def s0' f1)
  have "acceptable s0 f1"
    using assms f1 s0' opc
    by (simp add: acceptable_def Let_def t1 new_metadata_def new_message_def max_message_size_def
        validate_incoming_basic_header_def)
  from frame_read [OF f1(1) this within_start [OF s0'(1)], of _ "[]" "wire f2" 0]
  obtain t rest where t: "consume_from s0 (wire f1 @ wire f2) 0 = consume_from t rest (length (wire f1 @ wire f2) - length rest)"
    "after s0 f1 t" "rest = wire f2" by fastforce
  have tt: "idle t" "m_server t = False" "m_max_message_size t = max_message_size"
    using t(2) f1 s0' by (simp_all add: after_def same_config_def)
  obtain m where m: "msg_ptr (m_data_msg t) = Some m" "m_opcode m = op_text" "m_payload m = pl"
    using t(2) f1 by (auto simp: after_def reading_into_def filled_def t1 new_metadata_def new_message_def append_payload_def)
  have t2: "msg_ptr (target t f2) = Some m" by (simp add: target_def f2 m)
  have "acceptable t f2"
    using f2 tt m opc assms(1)
    by (auto simp: acceptable_def Let_def t2 max_message_size_def validate_incoming_basic_header_def)
  from frame_read [OF f2(1) this within_start [OF tt(1)], of _ "[]" "[]" "length (wire f1)"]
  obtain u where u: "consume_from t (wire f2) (length (wire f1)) = consume_from u [] (length (wire f1 @ wire f2))"
    "after t f2 u" by fastforce
  have r: "m_state u = READY" using u(2) f2 by (simp add: after_def)
  have um: "m_current_msg u = Data_msg" "msg_ptr (m_data_msg u) = Some m"
    using u(2) f2 t2 by (auto simp: after_def reading_into_def filled_def append_payload_def split: if_splits)
  have "consume s0 (wire f1 @ wire f2) = Consumed u (length (wire f1 @ wire f2)) None"
    using t u r by (simp add: consume_def consume_from.simps [of u] consuming_def)
  then have "receive s0 (wire f1 @ wire f2) = Some (snd (the (get_message u)), [m], None)"
    using r um by (simp add: receive.simps [of s0] ready_def get_message_def current_msg_def Let_def) (simp add: receive.simps)
  then show ?thesis using m f1(2) f2(2) by (auto simp: s0_def)
qed

text \<open>C38. The last check of \<open>finalize_message\<close>, meant to ensure that a text message ends on a complete
  code point, asks for the opcode of the last frame: a text message in two frames ends with a
  continuation frame, so it is delivered even when its payload stops inside a code point, as in the
  example; the payload only has to be free of wrong bytes up to there.\<close>

theorem fragmented_text_not_validated:
  assumes "length pl \<le> 125" and "fst (validator_decode pl new_validator)"
  shows "\<exists>s m. receive (new_hybi13 False)
      (frame_of op_text (length pl) False False False [] @ pl @ frame_of op_continuation 0 True False False []) =
      Some (s, [m], None) \<and> m_opcode m = op_text \<and> m_payload m = pl"
  by (rule text_fragments [OF assms])

theorem fragmented_text_not_validated_witness:
  "\<not> validate [0xE2, 0x82] \<and>
   (\<exists>s m. receive (new_hybi13 False)
      (frame_of op_text 2 False False False [] @ [0xE2, 0x82] @ frame_of op_continuation 0 True False False []) =
      Some (s, [m], None) \<and> m_opcode m = op_text \<and> m_payload m = [0xE2, 0x82])"
proof -
  have "fst (validator_decode [0xE2, 0x82] new_validator)" by code_simp
  moreover have "\<not> validate [0xE2, 0x82]" by (simp add: validate_accepts next_state_def)
  ultimately show ?thesis using fragmented_text_not_validated [of "[0xE2, 0x82]"] by (simp add: numeral_2_eq_2 del: validator_decode.simps)
qed

subsection \<open>The limit on the size of a message\<close>

text \<open>Reading the header of a continuation frame: with \<open>L\<close> bytes of the message read, a frame that
  announces \<open>n\<close> more is accepted exactly when \<open>L + n\<close>, computed modulo 2 to the 64, is within the
  limit. So a frame that announces \<open>2 ^ 64 - k\<close> bytes for some \<open>k\<close> up to \<open>L\<close> passes although the message would
  exceed every limit; nothing tests that the top bit of an announced length is clear.\<close>

theorem message_limit_wraps:
  assumes "msg_ptr (m_data_msg s) = Some m"
    and "get_opcode (m_basic_header s) = op_continuation"
    and "length (m_payload m) \<le> m_max_message_size s" and "m_max_message_size s < 2 ^ 64"
  shows "(\<exists>t. start_message s rest = Go t rest \<and>
      m_bytes_needed t = unat (get_payload_size (m_basic_header s) (m_extended_header s))) \<longleftrightarrow>
    (let n = unat (get_payload_size (m_basic_header s) (m_extended_header s))
     in length (m_payload m) + n \<le> m_max_message_size s \<or>
        2 ^ 64 \<le> length (m_payload m) + n)"
proof -
  define n where "n = unat (get_payload_size (m_basic_header s) (m_extended_header s))"
  define len where "len = length (m_payload m)"
  have n: "n < 2 ^ 64"
    using unat_u64 [of "get_payload_size (m_basic_header s) (m_extended_header s)"] by (simp add: n_def)
  have wrap: "(len + n) mod 2 ^ 64 \<le> m_max_message_size s \<longleftrightarrow>
      len + n \<le> m_max_message_size s \<or> 2 ^ 64 \<le> len + n"
  proof (cases "2 ^ 64 \<le> len + n")
    case True
    have "len + n < 2 ^ 64 + 2 ^ 64" using n assms(3,4) by (simp add: len_def)
    then have "(len + n) mod 2 ^ 64 = len + n - 2 ^ 64" using True by (simp add: mod_if)
    also have "\<dots> \<le> m_max_message_size s" using n assms(3) by (simp add: len_def)
    finally show ?thesis using True by simp
  next
    case False
    then show ?thesis by simp
  qed
  show ?thesis
    unfolding Let_def n_def [symmetric] len_def [symmetric] wrap [symmetric]
    using assms(1,2) by (simp add: start_message_def Let_def flip: n_def len_def)
qed

definition wrap_example :: hybi13 where
  "wrap_example = (new_hybi13 True)\<lparr>
     m_data_msg := new_metadata (append_payload [1, 2, 3] (new_message op_binary)) [0, 0, 0, 0],
     m_basic_header := \<lparr>b0 = 0x80, b1 = 0xFF\<rparr>,
     m_extended_header := [255, 255, 255, 255, 255, 255, 255, 253, 0, 0, 0, 0]\<rparr>"

theorem message_limit_wraps_witness:
  "\<exists>t. start_message wrap_example [] = Go t [] \<and> m_bytes_needed t = 2 ^ 64 - 3"
proof -
  have "unat (get_payload_size (m_basic_header wrap_example) (m_extended_header wrap_example)) = 2 ^ 64 - 3"
    by (simp add: wrap_example_def get_payload_size_def get_basic_size_def BHB1_PAYLOAD_def payload_size_basic_def
        get_jumbo_size_def ntohll_le_word)
  then show ?thesis
    using message_limit_wraps [of wrap_example "append_payload [1, 2, 3] (new_message op_binary)" "[]"]
    by (simp add: wrap_example_def new_metadata_def append_payload_def new_message_def get_opcode_def BHB0_OPCODE_def
        op_continuation_def new_hybi13_def reset_headers_def max_message_size_def)
qed

end
