(* ===== verification/WsSession.thy ===== *)
theory WsSession
  imports WsConnection WsSafety
begin

text \<open>
  Every run of a connection: the user's calls, the tasks it posted, and the completions of its
  reads, writes, timers and shutdown, in any order. The invariant says that the send queue is
  written in order by one write at a time, that the processor can take the next read, and that a
  connection ends once.
\<close>

subsection \<open>Events\<close>

datatype api =
    Send message | Send_text "byte list" opcode | Send_bytes "byte list" opcode | Ping "byte list"
  | Pong "byte list" | Close close_code "byte list" | Interrupt | Pause_reading | Resume_reading

primrec run_api :: "handlers \<Rightarrow> api \<Rightarrow> connection \<Rightarrow> connection" where
  "run_api h (Send m) c = snd (send m c)"
| "run_api h (Send_text payload op) c = snd (send_text payload op c)"
| "run_api h (Send_bytes payload op) c = snd (send_bytes payload op c)"
| "run_api h (Ping payload) c = snd (ping h payload c)"
| "run_api h (Pong payload) c = snd (pong payload c)"
| "run_api h (Close code reason) c = snd (close_con code reason c)"
| "run_api h Interrupt c = interrupt c"
| "run_api h Pause_reading c = pause_reading c"
| "run_api h Resume_reading c = resume_reading c"

primrec run_task :: "handlers \<Rightarrow> task \<Rightarrow> connection \<Rightarrow> connection" where
  "run_task h Run_write_frame c = write_frame c"
| "run_task h Run_pause_reading c = handle_pause_reading c"
| "run_task h Run_resume_reading c = handle_resume_reading c"
| "run_task h Run_interrupt c = handle_interrupt h c"

primrec timer_expired :: "handlers \<Rightarrow> timer_use \<Rightarrow> error_code option \<Rightarrow> connection \<Rightarrow> connection" where
  "timer_expired h Open_handshake_timer ec c = handle_open_handshake_timeout ec c"
| "timer_expired h Close_handshake_timer ec c = handle_close_handshake_timeout ec c"
| "timer_expired h (Pong_timer payload) ec c = handle_pong_timeout h payload ec c"

text \<open>The end of a successful opening handshake; bytes that came with it are read at once.\<close>

definition opened :: "handlers \<Rightarrow> byte list \<Rightarrow> connection \<Rightarrow> connection option" where
  "opened h leftover c =
     handle_read_frame h None leftover
       (call Called_open (h_open h) (c\<lparr>m_internal_state := PROCESS_CONNECTION, m_session := Open\<rparr>))"

datatype event =
    Opened "byte list" | Api api | Task nat | Write_done "error_code option"
  | Read_done "error_code option" "byte list" | Timer nat "error_code option"
  | Shutdown_done "error_code option"

text \<open>An event that cannot happen in a state changes nothing; \<open>None\<close> is undefined behaviour.\<close>

primrec con_do :: "handlers \<Rightarrow> event \<Rightarrow> connection \<Rightarrow> connection option" where
  "con_do h (Opened leftover) c = (if m_session c = Connecting then opened h leftover c else Some c)"
| "con_do h (Api a) c = Some (run_api h a c)"
| "con_do h (Task i) c =
     (if i < length (t_posted c)
      then Some (run_task h (t_posted c ! i) (c\<lparr>t_posted := take i (t_posted c) @ drop (Suc i) (t_posted c)\<rparr>))
      else Some c)"
| "con_do h (Write_done ec) c =
     (case t_writes c of [] \<Rightarrow> Some c | w # ws \<Rightarrow> handle_write_frame ec (c\<lparr>t_writes := ws\<rparr>))"
| "con_do h (Read_done ec buf) c =
     (if t_reads c = 0 then Some c else handle_read_frame h ec buf (c\<lparr>t_reads := t_reads c - 1\<rparr>))"
| "con_do h (Timer i ec) c =
     (case map_of (t_timers c) i of None \<Rightarrow> Some c
      | Some u \<Rightarrow> Some (timer_expired h u ec (cancel_timer (Some i) c)))"
| "con_do h (Shutdown_done ec) c =
     (case t_shutdowns c of [] \<Rightarrow> Some c
      | tstat # ts \<Rightarrow> Some (handle_terminate h tstat ec (c\<lparr>t_shutdowns := ts\<rparr>)))"

subsection \<open>Handlers that use the connection through its operations\<close>

definition run_apis :: "handlers \<Rightarrow> api list \<Rightarrow> connection \<Rightarrow> connection" where
  "run_apis h as c = fold (run_api h) as c"

definition only_calls :: "handlers \<Rightarrow> (connection \<Rightarrow> connection) \<Rightarrow> bool" where
  "only_calls h f \<longleftrightarrow> (\<forall>c. \<exists>as. Resume_reading \<notin> set as \<and> f c = run_apis h as c)"

definition calling :: "handlers \<Rightarrow> bool" where
  "calling h \<longleftrightarrow>
     (\<forall>f. h_open h = Some f \<longrightarrow> only_calls h f) \<and>
     (\<forall>f m. h_message h = Some f \<longrightarrow> only_calls h (f m)) \<and>
     (\<forall>f p. h_ping h = Some f \<longrightarrow> only_calls h (\<lambda>c. snd (f p c))) \<and>
     (\<forall>f p. h_pong h = Some f \<longrightarrow> only_calls h (f p)) \<and>
     (\<forall>f p. h_pong_timeout h = Some f \<longrightarrow> only_calls h (f p)) \<and>
     (\<forall>f. h_close h = Some f \<longrightarrow> only_calls h f) \<and>
     (\<forall>f. h_fail h = Some f \<longrightarrow> only_calls h f) \<and>
     (\<forall>f. h_interrupt h = Some f \<longrightarrow> only_calls h f) \<and>
     (\<forall>f. h_termination h = Some f \<longrightarrow> only_calls h f)"

text \<open>What the operations do to a connection: they queue messages, post tasks and begin to close.\<close>

definition size_of :: "message list \<Rightarrow> u64" where
  "size_of ms = sum_list (map (\<lambda>m. word_of_nat (length (m_payload m))) ms)"

lemma size_of_simps [simp]:
  "size_of [] = 0" "size_of (m # ms) = word_of_nat (length (m_payload m)) + size_of ms"
  "size_of (ms @ ns) = size_of ms + size_of ns"
  by (simp_all add: size_of_def)

definition grows :: "connection \<Rightarrow> connection \<Rightarrow> bool" where
  "grows c d \<longleftrightarrow>
     (\<exists>ms. m_send_queue d = m_send_queue c @ ms \<and> t_pushed d = t_pushed c @ ms \<and>
        m_send_buffer_size d = m_send_buffer_size c + size_of ms) \<and>
     (\<exists>ts. t_posted d = t_posted c @ ts \<and> Run_resume_reading \<notin> set ts) \<and>
     (m_session d = m_session c \<or> m_session c = Open \<and> m_session d = Closing) \<and>
     t_wire d = t_wire c \<and> t_writes d = t_writes c \<and> t_reads d = t_reads c \<and>
     t_shutdowns d = t_shutdowns c \<and> t_calls d = t_calls c \<and> m_current_msgs d = m_current_msgs c \<and>
     m_send_buffer d = m_send_buffer c \<and> m_write_flag d = m_write_flag c \<and> m_read_flag d = m_read_flag c \<and>
     m_processor d = m_processor c \<and> m_internal_state d = m_internal_state c \<and>
     m_is_server d = m_is_server c"

lemma grows_refl [simp]: "grows c c"
  by (simp add: grows_def)

lemma grows_trans [trans]: "grows c d \<Longrightarrow> grows d e \<Longrightarrow> grows c e"
  unfolding grows_def by (elim conjE exE, intro conjI) auto

text \<open>Parts of the state that no invariant looks at.\<close>

lemma grows_fields:
  "grows c d \<Longrightarrow> grows c (d\<lparr>m_rng := r\<rparr>)"
  "grows c d \<Longrightarrow> grows c (d\<lparr>t_timers := ts, t_next_timer := n\<rparr>)"
  "grows c d \<Longrightarrow> grows c (d\<lparr>t_timers := ts\<rparr>)"
  "grows c d \<Longrightarrow> grows c (d\<lparr>m_ping_timer := pt\<rparr>)"
  "grows c d \<Longrightarrow> grows c (d\<lparr>m_handshake_timer := pt\<rparr>)"
  "grows c d \<Longrightarrow> grows c (d\<lparr>m_was_clean := b\<rparr>)"
  "grows c d \<Longrightarrow> grows c (d\<lparr>m_remote_close_code := code\<rparr>)"
  "grows c d \<Longrightarrow> grows c (d\<lparr>m_remote_close_reason := reason\<rparr>)"
  "grows c d \<Longrightarrow> grows c (d\<lparr>m_local_close_code := code, m_local_close_reason := reason\<rparr>)"
  "grows c d \<Longrightarrow> grows c (d\<lparr>m_ec := e, m_local_close_code := code, m_local_close_reason := reason\<rparr>)"
  "grows c d \<Longrightarrow> grows c (d\<lparr>m_http_state := hs\<rparr>)"
  by (simp_all add: grows_def)

lemma grows_dispatch: "grows c d \<Longrightarrow> t \<noteq> Run_resume_reading \<Longrightarrow> grows c (dispatch t d)"
  by (auto simp: grows_def dispatch_def)

lemma grows_push: "grows c d \<Longrightarrow> grows c (push_and_write m d)"
  by (erule grows_trans) (auto simp: grows_def push_and_write_def write_push_def dispatch_def Let_def)

lemma grows_cancel: "grows c d \<Longrightarrow> grows c (cancel_timer t d)"
  by (auto simp: cancel_timer_def intro: grows_fields split: option.splits)

lemma grows_set_timer: "grows c d \<Longrightarrow> grows c (snd (set_timer u d))"
  by (auto simp: set_timer_def intro: grows_fields)

lemma grows_prepare: "prepare_with f c = (ec, out, d) \<Longrightarrow> grows c d"
  by (auto simp: prepare_with_def intro: grows_fields split: prod.splits if_splits)

lemmas grows_intros = grows_fields grows_dispatch grows_push grows_cancel grows_set_timer

lemma grows_send_unlocked: "grows c (snd (send_unlocked m c))"
  by (auto simp: send_unlocked_def intro: grows_intros grows_prepare split: prod.splits option.splits)

lemma grows_send: "grows c (snd (send m c))"
  by (simp add: send_def grows_send_unlocked)

lemma grows_pong: "grows c (snd (pong payload c))"
  by (auto simp: pong_def intro: grows_intros grows_prepare split: prod.splits option.splits)

lemma grows_start_pong_timer: "grows c d \<Longrightarrow> grows c (start_pong_timer h payload d)"
  by (auto simp: start_pong_timer_def set_timer_def Let_def intro: grows_intros split: prod.splits)

lemma grows_ping: "grows c (snd (ping h payload c))"
  by (auto simp: ping_def intro: grows_intros grows_start_pong_timer grows_prepare split: prod.splits option.splits)

lemma grows_choose_close: "grows c (choose_close code reason ack c)"
  by (simp add: choose_close_def grows_fields)

lemma grows_close_timer:
  "grows c d \<Longrightarrow> grows c (case set_timer u d of (t, d) \<Rightarrow> d\<lparr>m_handshake_timer := Some t\<rparr>)"
  by (auto simp: set_timer_def intro: grows_fields)

lemma prepare_session: "prepare_with f c = (ec, out, d) \<Longrightarrow> m_session d = m_session c"
  by (auto simp: prepare_with_def split: prod.splits if_splits)

lemma choose_close_session [simp]: "m_session (choose_close code reason ack c) = m_session c"
  by (simp add: choose_close_def)

lemma grows_send_close_frame:
  assumes "m_session c = Open \<or> m_session c = Closing"
  shows "grows c (snd (send_close_frame code reason ack ta c))"
proof -
  define d where "d = choose_close code reason ack c"
  obtain ec out e where e: "prepare_with (\<lambda>key. prepare_close (m_processor d) key (m_local_close_code d)
      (m_local_close_reason d) (Some (new_message 0))) d = (ec, out, e)"
    by (metis prod_cases3)
  have ge: "grows c e" using grows_trans [OF grows_choose_close grows_prepare] e by (simp add: d_def)
  have "m_session e = m_session c" using prepare_session [OF e] by (simp add: d_def)
  then have closing: "grows c (e\<lparr>m_session := Closing\<rparr>)"
    using assms ge by (auto simp: grows_def)
  then show ?thesis
    using e ge
    by (auto simp: send_close_frame_def Let_def simp flip: d_def split: option.splits
        intro!: grows_push grows_close_timer grows_fields)
qed

lemma grows_close_con: "grows c (snd (close_con code reason c))"
  by (simp add: close_con_def Let_def grows_send_close_frame)

lemma grows_api: "a \<noteq> Resume_reading \<Longrightarrow> grows c (run_api h a c)"
  by (cases a) (simp_all add: send_text_def send_bytes_def interrupt_def pause_reading_def
      grows_send grows_ping grows_pong grows_close_con grows_dispatch)

lemma grows_apis: "Resume_reading \<notin> set as \<Longrightarrow> grows c (run_apis h as c)"
  unfolding run_apis_def
proof (induction as arbitrary: c)
  case (Cons a as)
  then show ?case using grows_trans [OF grows_api [of a c h] Cons.IH] by auto
qed simp

lemma grows_only_calls: "only_calls h f \<Longrightarrow> grows c (f c)"
  unfolding only_calls_def using grows_apis by metis

subsection \<open>The invariant\<close>

text \<open>\<open>w\<close> are the messages handed to the transport so far.\<close>

definition writes_ok :: "connection \<Rightarrow> bool" where
  "writes_ok c \<longleftrightarrow> m_send_buffer_size c = size_of (m_send_queue c) \<and>
     (\<exists>w. t_pushed c = w @ m_send_queue c \<and> t_wire c = concat (map message_bytes w) \<and>
        (\<forall>m\<in>set (butlast w). \<not> m_terminal m) \<and>
        (if m_write_flag c
         then t_writes c = [] \<and> m_current_msgs c = [] \<and> m_session c = Closed \<or>
              length (t_writes c) = 1 \<and> m_current_msgs c \<noteq> [] \<and> (\<exists>v. w = v @ m_current_msgs c)
         else t_writes c = [] \<and> m_current_msgs c = [] \<and> m_send_buffer c = [] \<and>
              (\<forall>m\<in>set w. \<not> m_terminal m)))"

definition reads_ok :: "connection \<Rightarrow> bool" where
  "reads_ok c \<longleftrightarrow> t_reads c \<le> 1 \<and> Run_resume_reading \<notin> set (t_posted c) \<and>
     (t_reads c = 1 \<or> m_session c = Connecting \<longrightarrow> settled (m_processor c)) \<and>
     (m_session c = Connecting \<longrightarrow> t_reads c = 0)"

definition is_incoming :: "user_call \<Rightarrow> bool" where
  "is_incoming e \<longleftrightarrow> (case e of Called_message _ \<Rightarrow> True | Called_ping _ \<Rightarrow> True | Called_pong _ \<Rightarrow> True | _ \<Rightarrow> False)"

text \<open>Nothing that arrived is handed to the user after the close handler.\<close>

fun quiet :: "user_call list \<Rightarrow> bool" where
  "quiet [] \<longleftrightarrow> True"
| "quiet (e # es) \<longleftrightarrow> (if e = Called_close then (\<forall>e\<in>set es. \<not> is_incoming e) else quiet es)"

lemma quiet_snoc [simp]:
  "quiet (es @ [e]) \<longleftrightarrow> quiet es \<and> (Called_close \<in> set es \<longrightarrow> \<not> is_incoming e)"
  by (induction es) auto

definition calls_of :: "user_call \<Rightarrow> connection \<Rightarrow> nat" where
  "calls_of e c = count_list (t_calls c) e"

definition ends_ok :: "handlers \<Rightarrow> connection \<Rightarrow> bool" where
  "ends_ok h c \<longleftrightarrow> quiet (t_calls c) \<and>
     calls_of Called_close c + calls_of Called_fail c + length (t_shutdowns c) \<le> (if m_session c = Closed then 1 else 0) \<and>
     (if m_internal_state c = PROCESS_CONNECTION
      then m_session c \<noteq> Connecting \<and> calls_of Called_fail c = 0 \<and> set (t_shutdowns c) \<subseteq> {Tstat_closed} \<and>
           (m_session c = Closed \<and> h_close h \<noteq> None \<longrightarrow> calls_of Called_close c + length (t_shutdowns c) = 1)
      else m_session c \<in> {Connecting, Closed} \<and> calls_of Called_close c = 0 \<and> calls_of Called_open c = 0 \<and>
           set (t_shutdowns c) \<subseteq> {Tstat_failed})"

definition con_inv :: "handlers \<Rightarrow> connection \<Rightarrow> bool" where
  "con_inv h c \<longleftrightarrow> writes_ok c \<and> reads_ok c \<and> ends_ok h c"

lemma writes_ok_simps [simp]:
  "writes_ok (c\<lparr>t_calls := cs\<rparr>) = writes_ok c" "writes_ok (c\<lparr>t_shutdowns := ts\<rparr>) = writes_ok c"
  "writes_ok (c\<lparr>m_processor := s\<rparr>) = writes_ok c" "writes_ok (c\<lparr>t_reads := n\<rparr>) = writes_ok c"
  "writes_ok (c\<lparr>t_posted := us\<rparr>) = writes_ok c" "writes_ok (c\<lparr>m_read_flag := b\<rparr>) = writes_ok c"
  by (simp_all add: writes_ok_def cong: if_cong split del: if_split)

lemma reads_ok_simps [simp]:
  "reads_ok (c\<lparr>t_calls := cs\<rparr>) = reads_ok c" "reads_ok (c\<lparr>t_shutdowns := ts\<rparr>) = reads_ok c"
  "reads_ok (c\<lparr>m_read_flag := b\<rparr>) = reads_ok c"
  by (simp_all add: reads_ok_def)

lemma reads_ok_cong:
  "t_reads d = t_reads c \<Longrightarrow> t_posted d = t_posted c \<Longrightarrow> m_session d = m_session c \<Longrightarrow>
     m_processor d = m_processor c \<Longrightarrow> reads_ok c \<Longrightarrow> reads_ok d"
  by (simp add: reads_ok_def)

lemma ends_ok_cong:
  "t_calls d = t_calls c \<Longrightarrow> t_shutdowns d = t_shutdowns c \<Longrightarrow> m_session d = m_session c \<Longrightarrow>
     m_internal_state d = m_internal_state c \<Longrightarrow> ends_ok h c \<Longrightarrow> ends_ok h d"
  by (simp add: ends_ok_def calls_of_def cong: if_cong split del: if_split)

lemma grows_same:
  assumes "grows c d"
  shows "t_wire d = t_wire c" "t_writes d = t_writes c" "t_reads d = t_reads c" "t_shutdowns d = t_shutdowns c"
    "t_calls d = t_calls c" "m_current_msgs d = m_current_msgs c" "m_send_buffer d = m_send_buffer c"
    "m_write_flag d = m_write_flag c" "m_read_flag d = m_read_flag c" "m_processor d = m_processor c"
    "m_internal_state d = m_internal_state c" "m_is_server d = m_is_server c"
    "m_session d = Connecting \<longleftrightarrow> m_session c = Connecting" "m_session d = Closed \<longleftrightarrow> m_session c = Closed"
    "Run_resume_reading \<in> set (t_posted d) \<longleftrightarrow> Run_resume_reading \<in> set (t_posted c)"
proof -
  have "m_session d = m_session c \<or> m_session c = Open \<and> m_session d = Closing" using assms by (simp add: grows_def)
  then show "m_session d = Connecting \<longleftrightarrow> m_session c = Connecting" "m_session d = Closed \<longleftrightarrow> m_session c = Closed"
    by auto
  obtain ts where "t_posted d = t_posted c @ ts" "Run_resume_reading \<notin> set ts"
    using assms unfolding grows_def by blast
  then show "Run_resume_reading \<in> set (t_posted d) \<longleftrightarrow> Run_resume_reading \<in> set (t_posted c)" by simp
qed (use assms in \<open>simp_all add: grows_def\<close>)

lemma writes_ok_grows:
  assumes "writes_ok c" "grows c d"
  shows "writes_ok d"
proof -
  obtain ms where ms: "m_send_queue d = m_send_queue c @ ms" "t_pushed d = t_pushed c @ ms"
    "m_send_buffer_size d = m_send_buffer_size c + size_of ms"
    using assms(2) unfolding grows_def by blast
  show ?thesis
    using assms(1)
    by (cases "m_write_flag c") (auto simp: writes_ok_def grows_same [OF assms(2)] ms intro!: exI)
qed

lemma reads_ok_grows: "reads_ok c \<Longrightarrow> grows c d \<Longrightarrow> reads_ok d"
  by (simp add: reads_ok_def grows_same [of c d])

lemma ends_ok_grows: "ends_ok h c \<Longrightarrow> grows c d \<Longrightarrow> ends_ok h d"
  by (cases "m_internal_state c = PROCESS_CONNECTION") (simp_all add: ends_ok_def calls_of_def grows_same [of c d])

lemma con_inv_grows: "con_inv h c \<Longrightarrow> grows c d \<Longrightarrow> con_inv h d"
  by (auto simp: con_inv_def dest: writes_ok_grows reads_ok_grows ends_ok_grows)

lemma con_inv_new: "con_inv h (new_connection server rng)"
  by (simp add: con_inv_def writes_ok_def reads_ok_def ends_ok_def calls_of_def new_connection_def new_hybi13_settled)

lemma con_inv_call:
  assumes "con_inv h (c\<lparr>t_calls := t_calls c @ [e]\<rparr>)" "con_inv h c" "\<And>f. g = Some f \<Longrightarrow> only_calls h f"
  shows "con_inv h (call e g c)"
  using assms con_inv_grows [OF assms(1) grows_only_calls] by (auto simp: call_def split: option.splits)

lemma con_inv_log:
  assumes "con_inv h c" "is_incoming e \<Longrightarrow> m_session c = Open" "e \<notin> {Called_close, Called_fail, Called_open}"
  shows "con_inv h (c\<lparr>t_calls := t_calls c @ [e]\<rparr>)"
proof -
  have "Called_close \<notin> set (t_calls c)" if "m_session c = Open"
    using assms(1) that by (auto simp: con_inv_def ends_ok_def calls_of_def count_list_0_iff split: if_splits)
  then show ?thesis
    using assms by (auto simp: con_inv_def writes_ok_def reads_ok_def ends_ok_def calls_of_def)
qed

subsection \<open>Every operation keeps it\<close>

lemma terminate_simps [simp]:
  "t_wire (terminate ec c) = t_wire c" "t_writes (terminate ec c) = t_writes c"
  "t_pushed (terminate ec c) = t_pushed c" "t_reads (terminate ec c) = t_reads c"
  "t_posted (terminate ec c) = t_posted c" "t_calls (terminate ec c) = t_calls c"
  "m_send_queue (terminate ec c) = m_send_queue c" "m_send_buffer_size (terminate ec c) = m_send_buffer_size c"
  "m_send_buffer (terminate ec c) = m_send_buffer c" "m_current_msgs (terminate ec c) = m_current_msgs c"
  "m_write_flag (terminate ec c) = m_write_flag c" "m_read_flag (terminate ec c) = m_read_flag c"
  "m_processor (terminate ec c) = m_processor c" "m_internal_state (terminate ec c) = m_internal_state c"
  "m_is_server (terminate ec c) = m_is_server c" "m_session (terminate ec c) = Closed"
  by (simp_all add: terminate_def Let_def async_shutdown_def cancel_timer_def split: option.splits session_state.splits)

lemma terminate_shutdowns [simp]:
  "t_shutdowns (terminate ec c) =
     (case m_session c of Connecting \<Rightarrow> t_shutdowns c @ [Tstat_failed] | Closed \<Rightarrow> t_shutdowns c
      | _ \<Rightarrow> t_shutdowns c @ [Tstat_closed])"
  by (simp add: terminate_def Let_def async_shutdown_def cancel_timer_def split: option.splits session_state.splits)

lemma ends_ok_terminate: "ends_ok h c \<Longrightarrow> ends_ok h (terminate ec c)"
  by (cases "m_session c") (auto simp: ends_ok_def calls_of_def split: if_splits)

lemma reads_ok_terminate: "reads_ok c \<Longrightarrow> reads_ok (terminate ec c)"
  by (auto simp: reads_ok_def)

lemma writes_ok_terminate: "writes_ok c \<Longrightarrow> writes_ok (terminate ec c)"
  by (cases "m_write_flag c") (auto simp: writes_ok_def)

lemma con_inv_terminate: "con_inv h c \<Longrightarrow> con_inv h (terminate ec c)"
  by (simp add: con_inv_def ends_ok_terminate reads_ok_terminate writes_ok_terminate)

lemma con_inv_handle_terminate:
  assumes "con_inv h c" "calling h" "t_shutdowns c = tstat # ts"
  shows "con_inv h (handle_terminate h tstat ec (c\<lparr>t_shutdowns := ts\<rparr>))"
proof -
  let ?c = "c\<lparr>t_shutdowns := ts\<rparr>"
  have e: "ends_ok h c" and wr: "writes_ok c" "reads_ok c" using assms(1) by (simp_all add: con_inv_def)
  have ts: "ts = []" "m_session c = Closed" "calls_of Called_close c = 0" "calls_of Called_fail c = 0"
    "quiet (t_calls c)"
    using e assms(3) by (auto simp: ends_ok_def split: if_splits)
  have plain: "con_inv h ?c" if "tstat = Tstat_closed \<longrightarrow> h_close h = None"
    using e wr ts that assms(3)
    by (cases tstat) (auto simp: con_inv_def ends_ok_def calls_of_def split: if_splits)
  have "con_inv h (?c\<lparr>t_calls := t_calls ?c @ [Called_close]\<rparr>)" if "tstat = Tstat_closed"
    using e wr ts that assms(3)
    by (auto simp: con_inv_def ends_ok_def calls_of_def is_incoming_def split: if_splits)
  moreover have "con_inv h (?c\<lparr>t_calls := t_calls ?c @ [Called_fail]\<rparr>)" if "tstat = Tstat_failed"
    using e wr ts that assms(3)
    by (auto simp: con_inv_def ends_ok_def calls_of_def is_incoming_def split: if_splits)
  ultimately have step: "con_inv h (case tstat of
      Tstat_failed \<Rightarrow> if m_ec ?c \<noteq> Some (Library W_http_connection_ended) then call Called_fail (h_fail h) ?c else ?c
    | Tstat_closed \<Rightarrow> call Called_close (h_close h) ?c | Tstat_unknown \<Rightarrow> ?c)" (is "con_inv h ?d")
    using plain assms(2)
    by (cases tstat; cases "h_close h"; cases "h_fail h")
      (auto simp: call_def calling_def intro: con_inv_grows grows_only_calls)
  have "con_inv h (call Called_termination (h_termination h) ?d)"
    using assms(2) step con_inv_log [OF step, of Called_termination]
    by (intro con_inv_call) (auto simp: calling_def is_incoming_def)
  then show ?thesis by (simp add: handle_terminate_def Let_def)
qed

lemma pop_ready_spec:
  "length (m_send_queue c) \<le> n \<Longrightarrow> \<exists>ms q. pop_ready n c =
     (ms, c\<lparr>m_send_buffer_size := m_send_buffer_size c - size_of ms, m_send_queue := q\<rparr>) \<and>
     m_send_queue c = ms @ q \<and> (\<forall>m\<in>set (butlast ms). \<not> m_terminal m) \<and>
     (ms = [] \<longrightarrow> m_send_queue c = [])"
proof (induction n arbitrary: c)
  case 0
  then show ?case by (simp add: exI [of _ "[]"])
next
  case (Suc n)
  show ?case
  proof (cases "m_send_queue c")
    case Nil
    then show ?thesis by (simp add: write_pop_def)
  next
    case (Cons m q)
    define d where "d = c\<lparr>m_send_buffer_size := m_send_buffer_size c - word_of_nat (length (m_payload m)), m_send_queue := q\<rparr>"
    have pop: "write_pop c = Some (m, d)" by (simp add: write_pop_def Cons d_def)
    have q: "m_send_queue d = q" "length q \<le> n" using Suc.prems Cons by (simp_all add: d_def)
    obtain ms q' where ms: "pop_ready n d = (ms, d\<lparr>m_send_buffer_size := m_send_buffer_size d - size_of ms, m_send_queue := q'\<rparr>)"
      "q = ms @ q'" "\<forall>m\<in>set (butlast ms). \<not> m_terminal m"
      using Suc.IH [of d] q by auto
    show ?thesis
    proof (cases "m_terminal m")
      case True
      then show ?thesis
        using pop Cons by (auto simp: d_def intro!: exI [of _ "[m]"] exI [of _ q])
    next
      case False
      then show ?thesis
        using pop Cons ms by (auto simp: d_def algebra_simps intro!: exI [of _ "m # ms"] exI [of _ q'])
    qed
  qed
qed

lemma concat_buffers: "concat (concat (map (\<lambda>m. [m_header m, m_payload m]) ms)) = concat (map message_bytes ms)"
  by (induction ms) (simp_all add: message_bytes_def)

lemma con_inv_write_frame:
  assumes "con_inv h c"
  shows "con_inv h (write_frame c)"
proof (cases "m_write_flag c")
  case True
  then show ?thesis using assms by (simp add: write_frame_def)
next
  case False
  obtain w where w: "m_send_buffer_size c = size_of (m_send_queue c)" "t_pushed c = w @ m_send_queue c"
    "t_wire c = concat (map message_bytes w)" "t_writes c = []" "m_current_msgs c = []" "m_send_buffer c = []"
    "\<forall>m\<in>set w. \<not> m_terminal m"
    using assms False by (auto simp: con_inv_def writes_ok_def)
  obtain ms q where ms: "pop_ready (length (m_send_queue c)) c =
      (ms, c\<lparr>m_send_buffer_size := m_send_buffer_size c - size_of ms, m_send_queue := q\<rparr>)"
    "m_send_queue c = ms @ q" "\<forall>m\<in>set (butlast ms). \<not> m_terminal m" "ms = [] \<longrightarrow> m_send_queue c = []"
    using pop_ready_spec [of c "length (m_send_queue c)"] by auto
  have other: "reads_ok c" "ends_ok h c" "writes_ok c" using assms by (simp_all add: con_inv_def)
  show ?thesis
  proof (cases "ms = []")
    case True
    then have "write_frame c = c" using ms False w by (simp add: write_frame_def)
    then show ?thesis using assms by simp
  next
    case nonempty: False
    define d where "d = write_frame c"
    have d: "m_send_buffer_size d = size_of q" "m_send_queue d = q" "t_pushed d = t_pushed c" "m_write_flag d"
      "t_wire d = t_wire c @ concat (map message_bytes ms)" "length (t_writes d) = 1" "m_current_msgs d = ms"
      "t_reads d = t_reads c" "t_posted d = t_posted c" "m_session d = m_session c" "m_processor d = m_processor c"
      "t_calls d = t_calls c" "t_shutdowns d = t_shutdowns c" "m_internal_state d = m_internal_state c"
      using False nonempty w ms by (simp_all add: d_def write_frame_def Let_def async_write_def concat_buffers)
    have "\<forall>m\<in>set (butlast (w @ ms)). \<not> m_terminal m"
      using nonempty w(7) ms(3) by (auto simp: butlast_append)
    then have "writes_ok d"
      using w(2,3) ms(2) nonempty by (auto simp: writes_ok_def d intro!: exI [of _ "w @ ms"])
    moreover have "reads_ok d" by (rule reads_ok_cong [OF _ _ _ _ other(1)]) (simp_all add: d)
    moreover have "ends_ok h d" by (rule ends_ok_cong [OF _ _ _ _ other(2)]) (simp_all add: d)
    ultimately show ?thesis by (simp add: con_inv_def d_def)
  qed
qed

lemma con_inv_handle_write_frame:
  assumes "con_inv h c" "t_writes c = b # bs"
  shows "\<exists>d. handle_write_frame ec (c\<lparr>t_writes := bs\<rparr>) = Some d \<and> con_inv h d"
proof -
  obtain w v where w: "m_send_buffer_size c = size_of (m_send_queue c)" "t_pushed c = w @ m_send_queue c"
    "t_wire c = concat (map message_bytes w)" "\<forall>m\<in>set (butlast w). \<not> m_terminal m" "m_write_flag c"
    "bs = []" "m_current_msgs c \<noteq> []" "w = v @ m_current_msgs c"
    using assms by (auto simp: con_inv_def writes_ok_def split: if_splits)
  have other: "reads_ok c" "ends_ok h c" using assms by (simp_all add: con_inv_def)
  define d where "d = c\<lparr>t_writes := [], m_send_buffer := [], m_current_msgs := []\<rparr>"
  have rest: "reads_ok d" "ends_ok h d"
    by (rule reads_ok_cong [OF _ _ _ _ other(1)] ends_ok_cong [OF _ _ _ _ other(2)]; simp add: d_def)+
  have over: "con_inv h (terminate e d)" for e
    using rest w by (auto simp: con_inv_def reads_ok_terminate ends_ok_terminate writes_ok_def d_def)
  let ?d = "d\<lparr>m_write_flag := False\<rparr>"
  have "con_inv h ?d" if "\<not> m_terminal (last (m_current_msgs c))"
  proof -
    have "last w = last (m_current_msgs c)" "w \<noteq> []" using w(7,8) by auto
    then have "\<forall>m\<in>set w. \<not> m_terminal m"
      using w(4) that by (metis append_butlast_last_id in_set_conv_decomp rotate1.simps(2) set_ConsD set_rotate1)
    then have "writes_ok ?d" using w by (auto simp: writes_ok_def d_def)
    moreover have "reads_ok ?d" by (rule reads_ok_cong [OF _ _ _ _ rest(1)]) simp_all
    moreover have "ends_ok h ?d" by (rule ends_ok_cong [OF _ _ _ _ rest(2)]) simp_all
    ultimately show ?thesis by (simp add: con_inv_def)
  qed
  then show ?thesis
    using w(6,7) over con_inv_grows [OF _ grows_dispatch [OF grows_refl]]
    by (auto simp: handle_write_frame_def Let_def d_def)
qed

text \<open>While the bytes of a read are worked on, no other read is outstanding.\<close>

definition at_work :: "handlers \<Rightarrow> hybi13 \<Rightarrow> connection \<Rightarrow> bool" where
  "at_work h s c \<longleftrightarrow> con_inv h c \<and> t_reads c = 0 \<and> m_internal_state c = PROCESS_CONNECTION \<and> m_processor c = s"

lemma at_work_grows: "at_work h s c \<Longrightarrow> grows c d \<Longrightarrow> at_work h s d"
  by (auto simp: at_work_def grows_same(3,10,11) intro: con_inv_grows)

lemma at_work_terminate: "at_work h s c \<Longrightarrow> at_work h s (terminate ec c)"
  by (simp add: at_work_def con_inv_terminate)

lemma at_work_call:
  assumes "at_work h s c" "is_incoming e \<Longrightarrow> m_session c = Open" "e \<notin> {Called_close, Called_fail, Called_open}"
    "\<And>f. g = Some f \<Longrightarrow> only_calls h f"
  shows "at_work h s (call e g c)"
proof -
  have "at_work h s (c\<lparr>t_calls := t_calls c @ [e]\<rparr>)"
    using assms by (simp add: at_work_def con_inv_log)
  then show ?thesis
    using assms by (auto simp: call_def intro: at_work_grows grows_only_calls split: option.splits)
qed

lemma at_work_processor:
  assumes "at_work h s c"
  shows "at_work h t (c\<lparr>m_processor := t\<rparr>)"
proof -
  have "ends_ok h c" "writes_ok c" "reads_ok c" "m_session c \<noteq> Connecting"
    using assms by (auto simp: at_work_def con_inv_def ends_ok_def)
  moreover have "ends_ok h (c\<lparr>m_processor := t\<rparr>)" by (rule ends_ok_cong [OF _ _ _ _ \<open>ends_ok h c\<close>]) simp_all
  ultimately show ?thesis
    using assms by (simp add: at_work_def con_inv_def reads_ok_def)
qed

lemma at_work_handle_ping:
  assumes "at_work h s c" "calling h" "m_session c = Open"
  shows "at_work h s (handle_ping h payload c)"
proof (cases "h_ping h")
  case None
  then show ?thesis using assms grows_pong by (auto simp: handle_ping_def intro: at_work_grows)
next
  case (Some f)
  let ?d = "snd (f payload (c\<lparr>t_calls := t_calls c @ [Called_ping payload]\<rparr>))"
  have "at_work h s (call (Called_ping payload) (Some (\<lambda>c. snd (f payload c))) c)"
    using assms Some by (intro at_work_call) (auto simp: calling_def)
  then have "at_work h s ?d" by (simp add: call_def)
  then show ?thesis
    using Some grows_pong by (auto simp: handle_ping_def Let_def intro: at_work_grows split: prod.splits)
qed

lemma at_work_handle_close:
  assumes "at_work h s c" "m_session c \<noteq> Closed"
  shows "at_work h s (handle_close_frame payload c)"
proof -
  have session: "m_session c = Open \<or> m_session c = Closing"
    using assms by (cases "m_session c") (auto simp: at_work_def con_inv_def ends_ok_def)
  have ack: "at_work h s (snd (send_close_ack code reason d))"
    if "at_work h s d" "m_session d = m_session c" for code reason d
    unfolding send_close_ack_def
    using that session by (intro at_work_grows [OF that(1) grows_send_close_frame]) auto
  have fields: "at_work h s (c\<lparr>m_remote_close_code := code\<rparr>)"
    "at_work h s (c\<lparr>m_remote_close_code := code, m_remote_close_reason := reason\<rparr>)"
    "at_work h s (c\<lparr>m_remote_close_code := code, m_remote_close_reason := reason, m_was_clean := b\<rparr>)" for code reason b
    by (auto intro!: at_work_grows [OF assms(1)] grows_fields)
  show ?thesis
    by (auto simp: handle_close_frame_def Let_def split: prod.splits intro!: ack at_work_terminate fields)
qed

lemma at_work_deliver:
  assumes "at_work h s c" "calling h"
  shows "at_work h s (deliver h m c)"
proof -
  have "at_work h s (handle_pong h p c)" if "m_session c = Open" for p
    unfolding handle_pong_def Let_def using assms that
    by (intro at_work_grows [OF _ grows_cancel [OF grows_refl]] at_work_call)
      (auto simp: calling_def split: option.splits)
  moreover have "at_work h s (call (Called_message m) (case h_message h of None \<Rightarrow> None | Some f \<Rightarrow> Some (f m)) c)"
    if "m_session c = Open"
    using assms that by (intro at_work_call) (auto simp: calling_def split: option.splits)
  ultimately show ?thesis
    using assms at_work_handle_ping at_work_handle_close
    by (simp add: deliver_def process_control_frame_def Let_def op_close_def op_ping_def op_pong_def)
qed

lemma at_work_protocol_error:
  assumes "at_work h s c"
  shows "at_work h s (protocol_error e c)"
proof -
  obtain ec d where "close_con (to_ws e) (error_message e) c = (ec, d)" by fastforce
  then show ?thesis
    using at_work_grows [OF assms grows_close_con [of c "to_ws e" "error_message e"]]
    by (auto simp: protocol_error_def intro: at_work_terminate split: option.splits)
qed

lemma at_work_read_frame:
  assumes "at_work h s c" "settled s"
  shows "con_inv h (read_frame c)"
proof -
  let ?d = "c\<lparr>t_reads := Suc 0\<rparr>"
  have c: "ends_ok h c" "writes_ok c" "reads_ok c" "m_session c \<noteq> Connecting" "t_reads c = 0" "m_processor c = s"
    using assms by (auto simp: at_work_def con_inv_def ends_ok_def)
  have "ends_ok h ?d" by (rule ends_ok_cong [OF _ _ _ _ c(1)]) simp_all
  then show ?thesis
    using c assms(2) by (auto simp: read_frame_def async_read_def con_inv_def reads_ok_def)
qed

lemma read_loop_inv:
  "at_work h s c \<Longrightarrow> settled s \<Longrightarrow> calling h \<Longrightarrow> \<exists>d. read_loop h c buf = Some d \<and> con_inv h d"
proof (induction "length buf" arbitrary: s c buf rule: less_induct)
  case less
  have proc: "m_processor c = s" using less.prems(1) by (simp add: at_work_def)
  show ?case
  proof (cases "buf = []")
    case True
    then show ?thesis using less.prems at_work_read_frame by (auto simp: read_loop.simps)
  next
    case False
    obtain t n ec where c: "consume s buf = Consumed t n ec"
      "ec = None \<longrightarrow> 0 < n \<and> (settled t \<or> sound t \<and> m_state t = READY)"
      using consume_settled [OF less.prems(2) False] by blast
    have shorter: "ec = None \<Longrightarrow> length (drop n buf) < length buf" using c(2) False by (cases buf) auto
    show ?thesis
    proof (cases ec)
      case (Some e)
      then show ?thesis
        using False c(1) proc at_work_protocol_error [OF at_work_processor [OF less.prems(1)]]
        by (auto simp: read_loop.simps [of h c] at_work_def)
    next
      case None
      show ?thesis
      proof (cases "ready t")
        case True
        then have "sound t" "m_state t = READY" using c(2) None by (auto simp: ready_def settled_def)
        then obtain m u where u: "get_message t = Some (Some m, u)" "settled u" using get_message_settled by blast
        have "at_work h u (deliver h m (c\<lparr>m_processor := u\<rparr>))"
          by (rule at_work_deliver [OF at_work_processor [OF less.prems(1)] less.prems(3)])
        from less.hyps [OF shorter [OF None] this u(2) less.prems(3)] show ?thesis
          using False c(1) None True u(1) proc by (auto simp: read_loop.simps [of h c])
      next
        case not_ready: False
        then have "settled t" using c(2) None by (auto simp: ready_def)
        from less.hyps [OF shorter [OF None] at_work_processor [OF less.prems(1)] this less.prems(3)] show ?thesis
          using False c(1) None not_ready proc by (auto simp: read_loop.simps [of h c])
      qed
    qed
  qed
qed

lemma con_inv_opened:
  assumes "con_inv h c" "m_session c = Connecting" "calling h"
  shows "\<exists>d. opened h leftover c = Some d \<and> con_inv h d"
proof -
  let ?c = "c\<lparr>m_internal_state := PROCESS_CONNECTION, m_session := Open\<rparr>"
  have c: "writes_ok c" "reads_ok c" "ends_ok h c" using assms(1) by (simp_all add: con_inv_def)
  have quiet: "calls_of Called_close c = 0" "calls_of Called_fail c = 0" "t_shutdowns c = []"
    "quiet (t_calls c)" "t_reads c = 0" "settled (m_processor c)"
    using c assms(2) by (auto simp: ends_ok_def reads_ok_def split: if_splits)
  have wr: "writes_ok (?c\<lparr>t_calls := cs\<rparr>)" for cs
    using c(1) assms(2) by (cases "m_write_flag c") (auto simp: writes_ok_def)
  have "at_work h (m_processor c) (?c\<lparr>t_calls := t_calls c @ cs\<rparr>)" if "cs = [] \<or> cs = [Called_open]" for cs
    using that c(2) quiet wr [of "t_calls c @ cs"]
    by (auto simp: at_work_def con_inv_def reads_ok_def ends_ok_def calls_of_def is_incoming_def)
  from this [of "[]"] this [of "[Called_open]"]
  have "at_work h (m_processor c) (call Called_open (h_open h) ?c)" (is "at_work h _ ?d")
    using assms(3) by (auto simp: call_def calling_def intro: at_work_grows grows_only_calls split: option.splits)
  moreover from this have "m_internal_state ?d = PROCESS_CONNECTION" by (simp add: at_work_def)
  ultimately show ?thesis
    using read_loop_inv [OF _ quiet(6) assms(3)] by (auto simp: opened_def handle_read_frame_def)
qed

lemma con_inv_handle_read_frame:
  assumes "con_inv h c" "t_reads c \<noteq> 0" "calling h"
  shows "\<exists>d. handle_read_frame h ec buf (c\<lparr>t_reads := t_reads c - 1\<rparr>) = Some d \<and> con_inv h d"
proof -
  let ?c = "c\<lparr>t_reads := t_reads c - 1\<rparr>"
  have c: "writes_ok c" "reads_ok c" "ends_ok h c" using assms(1) by (simp_all add: con_inv_def)
  have n: "t_reads c = 1" "m_session c \<noteq> Connecting" "settled (m_processor c)"
    using c(2) assms(2) by (auto simp: reads_ok_def)
  have "ends_ok h ?c" by (rule ends_ok_cong [OF _ _ _ _ c(3)]) simp_all
  then have inv: "con_inv h ?c" using c n by (simp add: con_inv_def reads_ok_def)
  have "con_inv h (read_failed e ?c)" for e
    using inv con_inv_terminate [OF inv] by (simp add: read_failed_def)
  moreover have "\<exists>d. read_loop h ?c buf = Some d \<and> con_inv h d" if "m_internal_state c = PROCESS_CONNECTION"
    using inv n that assms(3) by (intro read_loop_inv [of h "m_processor c"]) (simp_all add: at_work_def)
  ultimately show ?thesis
    by (auto simp: handle_read_frame_def Let_def split: option.splits)
qed

lemma con_inv_task:
  assumes "con_inv h c" "i < length (t_posted c)" "calling h"
  shows "con_inv h (run_task h (t_posted c ! i) (c\<lparr>t_posted := take i (t_posted c) @ drop (Suc i) (t_posted c)\<rparr>))"
proof -
  let ?c = "c\<lparr>t_posted := take i (t_posted c) @ drop (Suc i) (t_posted c)\<rparr>"
  have c: "writes_ok c" "reads_ok c" "ends_ok h c" using assms(1) by (simp_all add: con_inv_def)
  have "ends_ok h ?c" by (rule ends_ok_cong [OF _ _ _ _ c(3)]) simp_all
  moreover have "reads_ok ?c"
    using c(2) set_take_subset [of i "t_posted c"] set_drop_subset [of "Suc i" "t_posted c"]
    by (auto simp: reads_ok_def)
  ultimately have inv: "con_inv h ?c" using c(1) by (simp add: con_inv_def)
  have "ends_ok h (?c\<lparr>m_read_flag := b\<rparr>)" for b
    by (rule ends_ok_cong [of _ ?c]) (use inv in \<open>simp_all add: con_inv_def\<close>)
  then have "con_inv h (handle_pause_reading ?c)"
    using inv by (simp add: handle_pause_reading_def con_inv_def)
  moreover have "con_inv h (handle_interrupt h ?c)"
    unfolding handle_interrupt_def
    using inv con_inv_log [OF inv, of Called_interrupt] assms(3)
    by (intro con_inv_call) (auto simp: calling_def is_incoming_def)
  moreover have "t_posted c ! i \<noteq> Run_resume_reading"
    using c(2) nth_mem [OF assms(2)] unfolding reads_ok_def by metis
  ultimately show ?thesis
    using con_inv_write_frame [OF inv] by (cases "t_posted c ! i") simp_all
qed

lemma con_inv_timer:
  assumes "con_inv h c" "calling h"
  shows "con_inv h (timer_expired h u ec c)"
proof (cases u)
  case (Pong_timer payload)
  then show ?thesis
    using assms con_inv_log [OF assms(1), of "Called_pong_timeout payload"]
    by (auto simp: handle_pong_timeout_def calling_def is_incoming_def intro!: con_inv_call split: option.splits)
qed (use assms con_inv_terminate in \<open>simp_all add: handle_open_handshake_timeout_def handle_close_handshake_timeout_def\<close>)

lemma con_do_keeps:
  assumes "calling h" "con_inv h c" "e \<noteq> Api Resume_reading"
  shows "\<exists>d. con_do h e c = Some d \<and> con_inv h d"
proof (cases e)
  case (Opened leftover)
  then show ?thesis using assms con_inv_opened by simp
next
  case (Api a)
  then show ?thesis using assms con_inv_grows [OF assms(2) grows_api] by simp
next
  case (Task i)
  then show ?thesis using assms con_inv_task by simp
next
  case (Write_done ec)
  then show ?thesis using assms con_inv_handle_write_frame by (auto split: list.splits)
next
  case (Read_done ec buf)
  then show ?thesis using assms con_inv_handle_read_frame by simp
next
  case (Timer i ec)
  then show ?thesis
    using assms con_inv_timer [OF con_inv_grows [OF assms(2) grows_cancel [OF grows_refl]] assms(1)]
    by (auto split: option.splits)
next
  case (Shutdown_done ec)
  then show ?thesis using assms con_inv_handle_terminate by (auto split: list.splits)
qed

interpretation con: guarded_component "con_do h" "\<lambda>c. calling h \<and> con_inv h c" "\<lambda>e. e \<noteq> Api Resume_reading" for h
  by unfold_locales (use con_do_keeps in blast)

lemma con_run:
  assumes "calling h" "Api Resume_reading \<notin> set es"
  shows "\<exists>c. run_ops (con_do h) es (new_connection server rng) = Some c \<and> con_inv h c"
  using con.run_guarded [of h "new_connection server rng" es] assms con_inv_new
  by (auto simp: list_all_iff)

subsection \<open>What every run guarantees\<close>

text \<open>C2. A connection whose user never resumes reading (and whose handlers do nothing but call its
  operations) is defined under every sequence of events: the messages queued are handed to the
  transport in order, none is lost, none follows a message marked terminal, at most one write and one
  read are outstanding, and the buffered amount is the size of what is still queued, modulo 2 to the 64.\<close>

theorem connection_safe:
  assumes "calling h" "Api Resume_reading \<notin> set es"
  shows "\<exists>c. run_ops (con_do h) es (new_connection server rng) = Some c \<and>
    (\<exists>w. t_pushed c = w @ m_send_queue c \<and> t_wire c = concat (map message_bytes w) \<and>
       (\<forall>m\<in>set (butlast w). \<not> m_terminal m)) \<and>
    length (t_writes c) \<le> 1 \<and> t_reads c \<le> 1 \<and>
    get_buffered_amount c = word_of_nat (\<Sum>m\<leftarrow>m_send_queue c. length (m_payload m))"
proof -
  obtain c where c: "run_ops (con_do h) es (new_connection server rng) = Some c" "writes_ok c" "reads_ok c"
    using con_run [OF assms] by (auto simp: con_inv_def)
  obtain w where w: "t_pushed c = w @ m_send_queue c" "t_wire c = concat (map message_bytes w)"
    "\<forall>m\<in>set (butlast w). \<not> m_terminal m"
    using c(2) unfolding writes_ok_def by blast
  have "length (t_writes c) \<le> 1"
    using c(2) by (auto simp: writes_ok_def split: if_splits)
  moreover have "size_of ms = word_of_nat (\<Sum>m\<leftarrow>ms. length (m_payload m))" for ms
    by (induction ms) simp_all
  ultimately show ?thesis
    using c w by (auto simp: writes_ok_def reads_ok_def get_buffered_amount_def)
qed

text \<open>A user who answers every message with the same message.\<close>

definition echo :: handlers where
  "echo = no_handlers\<lparr>h_message := Some (\<lambda>m c. snd (send_bytes (m_payload m) (m_opcode m) c)),
     h_close := Some (\<lambda>c. c)\<rparr>"

lemma calling_echo: "calling echo"
proof -
  have "only_calls echo (\<lambda>c. snd (send_bytes p op c))" for p op
    unfolding only_calls_def run_apis_def by (intro allI exI [of _ "[Send_bytes p op]"]) simp
  moreover have "only_calls echo (\<lambda>c. c)"
    unfolding only_calls_def run_apis_def by (intro allI exI [of _ "[]"]) simp
  ultimately show ?thesis by (simp add: calling_def echo_def no_handlers_def)
qed

theorem connection_safe_witness:
  "\<exists>c. run_ops (con_do echo) [Opened [0x81, 0x81, 0, 0, 0, 0, 0x68], Api (Send_text [0x69] op_text), Task 0]
       (new_connection True (\<lambda>n. [])) = Some c \<and> length (t_writes c) \<le> 1"
  using connection_safe [OF calling_echo, of
      "[Opened [0x81, 0x81, 0, 0, 0, 0, 0x68], Api (Send_text [0x69] op_text), Task 0]" True "\<lambda>n. []"]
  by auto


definition ending :: "event list" where
  "ending = [Opened [], Read_done (Some (Transport T_eof)) [], Shutdown_done None]"


end
