(* ===== verification/WsDelivery.thy ===== *)
theory WsDelivery
  imports WsSession
begin

text \<open>
  Two connections and a byte stream between them: what the user of one sends is what the message
  handler of the other is called with, in order, however the writes are scheduled and however the
  stream is cut into reads.
\<close>

subsection \<open>The reading loop and its messages\<close>

text \<open>Messages are delivered one after the other while the processor moves on.\<close>

inductive deliveries :: "handlers \<Rightarrow> connection \<Rightarrow> message list \<Rightarrow> connection \<Rightarrow> bool" for h where
  deliver_none: "m_server s = m_server (m_processor c) \<Longrightarrow> deliveries h c [] (c\<lparr>m_processor := s\<rparr>)"
| deliver_one: "m_server s = m_server (m_processor c) \<Longrightarrow>
     deliveries h (deliver h m (c\<lparr>m_processor := s\<rparr>)) ms d \<Longrightarrow> deliveries h c (m # ms) d"

inductive_cases deliveries_NilE: "deliveries h c [] d"
inductive_cases deliveries_ConsE: "deliveries h c (m # ms) d"

definition keeps_processor :: "handlers \<Rightarrow> bool" where
  "keeps_processor h \<longleftrightarrow> (\<forall>m c. m_processor (deliver h m c) = m_processor c)"

lemma deliveries_processor:
  "deliveries h (c\<lparr>m_processor := t\<rparr>) ms d \<Longrightarrow> m_server t = m_server (m_processor c) \<Longrightarrow> deliveries h c ms d"
  using deliver_none [of _ c h] deliver_one [of _ c h]
  by (cases ms) (auto elim!: deliveries_NilE deliveries_ConsE)

text \<open>The processor never changes its role.\<close>

lemma process_payload_server: "process_payload_bytes buf s = Some (t, ec) \<Longrightarrow> m_server t = m_server s"
  by (auto simp: process_payload_bytes_def byte_mask_circ_def Let_def split: option.splits prod.splits if_splits)

lemma finalize_server: "finalize_message s = Some (t, ec) \<Longrightarrow> m_server t = m_server s"
  by (auto simp: finalize_message_def Let_def split: option.splits prod.splits if_splits)

lemma start_message_server:
  "start_message s rest = Go t r \<Longrightarrow> m_server t = m_server s"
  "start_message s rest = Stop t r ec \<Longrightarrow> m_server t = m_server s"
  by (auto simp: start_message_def Let_def split: option.splits if_splits)

lemma application_server:
  assumes "application_step s rest = Go t r \<or> application_step s rest = Stop t r ec"
  shows "m_server t = m_server s"
  using assms
  by (auto simp: application_step_def Let_def dest!: process_payload_server finalize_server
      split: option.splits prod.splits if_splits)

lemma consume_step_server:
  assumes "consume_step s rest = Go t r \<or> consume_step s rest = Stop t r ec"
  shows "m_server t = m_server s"
proof (cases "m_state s")
  case HEADER_BASIC
  then show ?thesis
    using assms by (auto simp: consume_step_def Let_def copy_basic_header_bytes_def split: option.splits prod.splits if_splits)
next
  case HEADER_EXTENDED
  then show ?thesis
    using assms by (auto simp: consume_step_def Let_def copy_extended_header_bytes_def dest!: start_message_server
        split: option.splits prod.splits if_splits)
qed (use assms application_server in \<open>auto simp: consume_step_def\<close>)

lemma consume_server: "consume s buf = Consumed t n ec \<Longrightarrow> m_server t = m_server s"
proof -
  have "consume_from s buf p = Consumed t n ec \<Longrightarrow> m_server t = m_server s" for p
  proof (induction s buf p rule: consume_from.induct)
    case (1 s rest p)
    then show ?case
      by (auto simp: consume_from.simps [of s] split: if_splits step_result.splits dest: consume_step_server [OF disjI1] consume_step_server [OF disjI2])
  qed
  then show "consume s buf = Consumed t n ec \<Longrightarrow> m_server t = m_server s" by (simp add: consume_def)
qed

lemma get_message_server: "get_message s = Some (m, t) \<Longrightarrow> m_server t = m_server s"
  by (auto simp: get_message_def Let_def split: option.splits if_splits)

lemma read_loop_receive:
  assumes "receive s buf = Some r" "keeps_processor h" "m_processor c = s"
  shows "\<exists>d. deliveries h c (fst (snd r)) d \<and> m_processor d = fst r \<and>
    read_loop h c buf = Some (case snd (snd r) of None \<Rightarrow> read_frame d | Some e \<Rightarrow> protocol_error e d)"
  using assms(1,3)
proof (induction arbitrary: c rule: receive.raw_induct [rotated, consumes 1])
  case (1 receive s buf r)
  note IH = 1(1) and body = 1(2) and proc = 1(3)
  show ?case
  proof (cases "buf = []")
    case True
    have "deliveries h c [] c" using deliver_none [of "m_processor c" c h] by simp
    moreover have "r = (s, [], None)" using body True by simp
    ultimately show ?thesis using True proc by (intro exI [of _ c]) (simp add: read_loop.simps)
  next
    case False
    then obtain t n ec where c: "consume s buf = Consumed t n ec"
      using body by (cases "consume s buf") auto
    show ?thesis
    proof (cases ec)
      case (Some e)
      then show ?thesis
        using body False c proc deliver_none [of t c h] consume_server [OF c]
        by (auto simp: read_loop.simps [of h c] intro!: exI [of _ "c\<lparr>m_processor := t\<rparr>"])
    next
      case None
      show ?thesis
      proof (cases "ready t")
        case True
        then obtain o' u where u: "get_message t = Some (o', u)"
          using body False c None by (cases "get_message t") auto
        obtain v ms e where r': "receive u (drop n buf) = Some (v, ms, e)"
          "r = (v, case o' of None \<Rightarrow> ms | Some m \<Rightarrow> m # ms, e)"
          using body False c None True u by (auto split: Option.bind_splits)
        have same: "m_server u = m_server (m_processor c)"
          using get_message_server [OF u] consume_server [OF c] proc by simp
        show ?thesis
        proof (cases o')
          case None2: None
          from IH [OF r'(1), of "c\<lparr>m_processor := u\<rparr>"] show ?thesis
            using False c None True u None2 r'(2) proc
            by (auto simp: read_loop.simps [of h c] same dest: deliveries_processor)
        next
          case (Some m)
          let ?d = "deliver h m (c\<lparr>m_processor := u\<rparr>)"
          have "m_processor ?d = u" using assms(2) by (simp add: keeps_processor_def)
          from IH [OF r'(1) this] show ?thesis
            using False c None True u Some r'(2) proc
            by (auto simp: read_loop.simps [of h c] intro: deliver_one [OF same])
        qed
      next
        case not_ready: False
        then have "receive t (drop n buf) = Some r" using body False c None by simp
        from IH [OF this, of "c\<lparr>m_processor := t\<rparr>"] show ?thesis
          using False c None not_ready proc consume_server [OF c]
          by (auto simp: read_loop.simps [of h c] dest: deliveries_processor)
      qed
    qed
  qed
qed

text \<open>Handlers that only call operations leave the processor alone.\<close>

lemma send_close_frame_processor [simp]:
  "m_processor (snd (send_close_frame code reason ack ta c)) = m_processor c"
proof -
  define d where "d = choose_close code reason ack c"
  obtain ec out e where e: "prepare_with (\<lambda>key. prepare_close (m_processor d) key (m_local_close_code d)
      (m_local_close_reason d) (Some (new_message 0))) d = (ec, out, e)"
    by (metis prod_cases3)
  have "m_processor e = m_processor c"
    using grows_same(10) [OF grows_prepare [OF e]] grows_same(10) [OF grows_choose_close] by (simp add: d_def)
  then show ?thesis
    using e by (auto simp: send_close_frame_def Let_def set_timer_def push_and_write_def write_push_def dispatch_def
        simp flip: d_def split: option.splits)
qed

lemma call_processor:
  "(\<And>f. g = Some f \<Longrightarrow> only_calls h f) \<Longrightarrow> m_processor (call e g c) = m_processor c"
  using grows_same(10) [OF grows_only_calls] by (auto simp: call_def split: option.splits)

lemma handle_ping_processor:
  assumes "calling h"
  shows "m_processor (handle_ping h payload c) = m_processor c"
proof (cases "h_ping h")
  case None
  then show ?thesis using grows_same(10) [OF grows_pong] by (simp add: handle_ping_def)
next
  case (Some f)
  let ?c = "c\<lparr>t_calls := t_calls c @ [Called_ping payload]\<rparr>"
  have "only_calls h (\<lambda>c. snd (f payload c))" using assms Some by (simp add: calling_def)
  from grows_same(10) [OF grows_only_calls [OF this, of ?c]]
  have "m_processor (snd (f payload ?c)) = m_processor c" by simp
  then show ?thesis
    using Some grows_same(10) [OF grows_pong] by (auto simp: handle_ping_def Let_def split: prod.splits)
qed

lemma calling_keeps_processor:
  assumes "calling h"
  shows "keeps_processor h"
proof -
  have "m_processor (handle_pong h p c) = m_processor c" for p c
    unfolding handle_pong_def Let_def using assms grows_same(10) [OF grows_cancel [OF grows_refl]]
    by (auto simp: calling_def intro!: call_processor split: option.splits)
  moreover have "m_processor (handle_close_frame p c) = m_processor c" for p c
    by (simp add: handle_close_frame_def send_close_ack_def Let_def split: prod.splits)
  moreover have "m_processor (call (Called_message m) (case h_message h of None \<Rightarrow> None | Some f \<Rightarrow> Some (f m)) c) =
      m_processor c" for m c
    using assms by (auto simp: calling_def intro!: call_processor split: option.splits)
  ultimately show ?thesis
    using handle_ping_processor [OF assms]
    by (simp add: keeps_processor_def deliver_def process_control_frame_def Let_def)
qed

subsection \<open>A listener\<close>

text \<open>Operations after which the connection is as open as before.\<close>

definition keeps_open :: "api \<Rightarrow> bool" where
  "keeps_open a \<longleftrightarrow> a \<noteq> Resume_reading \<and> (\<forall>code reason. a \<noteq> Close code reason)"

definition listener :: "handlers \<Rightarrow> bool" where
  "listener h \<longleftrightarrow> calling h \<and> h_open h = None \<and>
     (\<exists>f. h_message h = Some f \<and> (\<forall>m c. \<exists>as. list_all keeps_open as \<and> f m c = run_apis h as c))"

lemma send_unlocked_session [simp]: "m_session (snd (send_unlocked m c)) = m_session c"
  by (auto simp: send_unlocked_def push_and_write_def write_push_def dispatch_def Let_def
      dest: prepare_session split: prod.splits option.splits)

lemma keeps_open_session:
  assumes "keeps_open a"
  shows "m_session (run_api h a c) = m_session c"
proof -
  have p: "m_session (push_and_write m c) = m_session c" for m c
    by (simp add: push_and_write_def write_push_def dispatch_def Let_def)
  have "m_session (start_pong_timer h payload c) = m_session c" for payload c
    by (auto simp: start_pong_timer_def cancel_timer_def set_timer_def Let_def split: option.splits)
  then show ?thesis
    using assms
    by (cases a) (auto simp: keeps_open_def send_text_def send_bytes_def send_def ping_def pong_def p
        interrupt_def pause_reading_def dispatch_def dest: prepare_session split: prod.splits option.splits)
qed

lemma keeps_open_apis:
  "list_all keeps_open as \<Longrightarrow> m_session (run_apis h as c) = m_session c \<and> grows c (run_apis h as c)"
proof (induction as arbitrary: c)
  case (Cons a as)
  then have "Resume_reading \<notin> set (a # as)" by (auto simp: keeps_open_def list_all_iff)
  from grows_apis [OF this] show ?case using Cons keeps_open_session by (simp add: run_apis_def)
qed (simp add: run_apis_def)

text \<open>A data message reaches the handler, and the connection goes on.\<close>

lemma deliver_data:
  assumes "listener h" "m_session c = Open" "\<not> op_is_control (m_opcode m)"
  shows "m_session (deliver h m c) = Open \<and> t_calls (deliver h m c) = t_calls c @ [Called_message m] \<and>
    m_processor (deliver h m c) = m_processor c \<and> t_reads (deliver h m c) = t_reads c \<and>
    m_read_flag (deliver h m c) = m_read_flag c \<and> m_internal_state (deliver h m c) = m_internal_state c"
proof -
  obtain f where f: "h_message h = Some f" "\<And>m c. \<exists>as. list_all keeps_open as \<and> f m c = run_apis h as c"
    using assms(1) unfolding listener_def by blast
  let ?c = "c\<lparr>t_calls := t_calls c @ [Called_message m]\<rparr>"
  obtain as where as: "list_all keeps_open as" "f m ?c = run_apis h as ?c" using f(2) by blast
  then have "deliver h m c = run_apis h as ?c" using f(1) assms by (simp add: deliver_def call_def)
  then show ?thesis using keeps_open_apis [OF as(1), of h ?c] assms(2) grows_same [of ?c "run_apis h as ?c"] by simp
qed

lemma deliveries_data:
  "deliveries h c ms d \<Longrightarrow> listener h \<Longrightarrow> m_session c = Open \<Longrightarrow> \<forall>m\<in>set ms. \<not> op_is_control (m_opcode m) \<Longrightarrow>
     m_session d = Open \<and> t_calls d = t_calls c @ map Called_message ms \<and> t_reads d = t_reads c \<and>
     m_read_flag d = m_read_flag c \<and> m_internal_state d = m_internal_state c"
proof (induction rule: deliveries.induct)
  case (deliver_one s c m ms d)
  then show ?case using deliver_data [of h "c\<lparr>m_processor := s\<rparr>" m] by simp
qed simp

text \<open>The connection waits for a read in the midst of the frames \<open>fs\<close>.\<close>

definition listens :: "nat \<Rightarrow> in_frame list \<Rightarrow> byte list \<Rightarrow> connection \<Rightarrow> bool" where
  "listens limit fs unread c \<longleftrightarrow>
     reading (m_is_server c) limit fs unread (m_processor c) \<and> m_session c = Open \<and>
     m_internal_state c = PROCESS_CONNECTION \<and> m_read_flag c"

lemma deliveries_server:
  assumes "deliveries h c ms d" "calling h" "m_session c = Open" "\<forall>m\<in>set ms. \<not> op_is_control (m_opcode m)" "listener h"
  shows "m_is_server d = m_is_server c"
  using assms
proof (induction rule: deliveries.induct)
  case (deliver_one s c m ms d)
  obtain f where f: "h_message h = Some f" "only_calls h (f m)"
    using deliver_one.prems by (auto simp: listener_def calling_def)
  let ?c = "c\<lparr>m_processor := s\<rparr>"
  have "deliver h m ?c = f m (?c\<lparr>t_calls := t_calls c @ [Called_message m]\<rparr>)"
    using deliver_one.prems f(1) by (simp add: deliver_def call_def)
  then have "m_is_server (deliver h m ?c) = m_is_server c"
    using grows_same(12) [OF grows_only_calls [OF f(2)]] by simp
  then show ?case
    using deliver_one deliver_data [of h ?c m] by simp
qed simp

lemma listens_read:
  assumes "listens limit fs (buf @ ahead) c" "list_all (good (m_is_server c) limit) fs" "listener h"
    "\<forall>f\<in>set fs. \<not> op_is_control (get_opcode (f_header f))" "t_reads c = 0"
  shows "\<exists>d fs1 fs2. handle_read_frame h None buf c = Some d \<and> fs = fs1 @ fs2 \<and> listens limit fs2 ahead d \<and>
    t_calls d = t_calls c @ map (Called_message \<circ> frame_message) fs1 \<and> m_is_server d = m_is_server c \<and> t_reads d = 1"
proof -
  have r: "reading (m_is_server c) limit fs (buf @ ahead) (m_processor c)" and c: "m_session c = Open"
    "m_internal_state c = PROCESS_CONNECTION" "m_read_flag c"
    using assms(1) by (simp_all add: listens_def)
  obtain t fs1 fs2 where t: "receive (m_processor c) buf = Some (t, map frame_message fs1, None)" "fs = fs1 @ fs2"
    "reading (m_is_server c) limit fs2 ahead t"
    using receive_stream [OF r assms(2)] by blast
  have h: "calling h" using assms(3) by (simp add: listener_def)
  obtain d where d: "deliveries h c (map frame_message fs1) d" "m_processor d = t" "read_loop h c buf = Some (read_frame d)"
    using read_loop_receive [OF t(1) calling_keeps_processor [OF h]] by auto
  have data: "\<forall>m\<in>set (map frame_message fs1). \<not> op_is_control (m_opcode m)"
    using assms(4) t(2) by (auto simp: frame_message_def append_payload_def new_message_def)
  note D = deliveries_data [OF d(1) assms(3) c(1) data] deliveries_server [OF d(1) h c(1) data assms(3)]
  then show ?thesis
    using c d t assms(5)
    by (intro exI [of _ "read_frame d"] exI [of _ fs1] exI [of _ fs2])
      (simp add: handle_read_frame_def listens_def read_frame_def async_read_def)
qed

lemma listens_reads:
  "listens limit fs (concat bufs) c \<Longrightarrow> list_all (good (m_is_server c) limit) fs \<Longrightarrow> listener h \<Longrightarrow>
     \<forall>f\<in>set fs. \<not> op_is_control (get_opcode (f_header f)) \<Longrightarrow> t_reads c = 1 \<Longrightarrow>
     \<exists>d. run_ops (con_do h) (map (Read_done None) bufs) c = Some d \<and>
       t_calls d = t_calls c @ map (Called_message \<circ> frame_message) fs \<and> m_session d = Open"
proof (induction bufs arbitrary: c fs)
  case Nil
  then show ?case using reading_end by (fastforce simp: listens_def)
next
  case (Cons b bs)
  have l: "listens limit fs (b @ concat bs) (c\<lparr>t_reads := 0\<rparr>)" using Cons.prems(1) by (simp add: listens_def)
  obtain d fs1 fs2 where d: "handle_read_frame h None b (c\<lparr>t_reads := 0\<rparr>) = Some d" "fs = fs1 @ fs2"
    "listens limit fs2 (concat bs) d" "t_calls d = t_calls c @ map (Called_message \<circ> frame_message) fs1"
    "m_is_server d = m_is_server c" "t_reads d = 1"
    using listens_read [OF l _ Cons.prems(3,4)] Cons.prems(2) by auto
  have "\<exists>e. run_ops (con_do h) (map (Read_done None) bs) d = Some e \<and>
      t_calls e = t_calls d @ map (Called_message \<circ> frame_message) fs2 \<and> m_session e = Open"
    using Cons.prems d by (intro Cons.IH) auto
  then show ?case using d Cons.prems(5) by auto
qed

subsection \<open>A sender\<close>

text \<open>Whole text and binary messages of an allowed size, and writes that succeed.\<close>

definition is_data :: "opcode \<Rightarrow> bool" where
  "is_data op \<longleftrightarrow> op = op_text \<or> op = op_binary"

definition sending :: "nat \<Rightarrow> event \<Rightarrow> bool" where
  "sending limit e \<longleftrightarrow>
     (case e of
        Api (Send_text pl op) \<Rightarrow> is_data op \<and> length pl \<le> limit
      | Api (Send_bytes pl op) \<Rightarrow> is_data op \<and> length pl \<le> limit
      | Task i \<Rightarrow> True
      | Write_done ec \<Rightarrow> ec = None
      | _ \<Rightarrow> False)"

text \<open>Text that is not UTF-8 is refused.\<close>

definition accepted_message :: "byte list \<Rightarrow> opcode \<Rightarrow> (opcode \<times> byte list) list" where
  "accepted_message pl op = (if op = op_text \<and> \<not> validate pl then [] else [(op, pl)])"

definition accepted_event :: "event \<Rightarrow> (opcode \<times> byte list) list" where
  "accepted_event e =
     (case e of
        Api (Send_text pl op) \<Rightarrow> accepted_message pl op
      | Api (Send_bytes pl op) \<Rightarrow> accepted_message pl op
      | _ \<Rightarrow> [])"

definition accepted :: "event list \<Rightarrow> (opcode \<times> byte list) list" where
  "accepted es = concat (map accepted_event es)"

definition item_bytes :: "hybi13 \<Rightarrow> byte list \<times> opcode \<times> byte list \<Rightarrow> byte list" where
  "item_bytes s i = message_bytes (the (snd (prepare_item s i)))"

definition sends :: "hybi13 \<Rightarrow> nat \<Rightarrow> (opcode \<times> byte list) list \<Rightarrow> connection \<Rightarrow> bool" where
  "sends s limit sent c \<longleftrightarrow> m_processor c = s \<and> con_inv no_handlers c \<and> m_session c = Open \<and> m_internal_state c = PROCESS_CONNECTION \<and>
     set (t_posted c) \<subseteq> {Run_write_frame} \<and> (\<forall>n. length (m_rng c n) = 4) \<and>
     (\<forall>m\<in>set (t_pushed c). \<not> m_terminal m) \<and>
     (\<exists>items. map snd items = sent \<and> list_all (sendable limit) items \<and>
        map message_bytes (t_pushed c) = map (item_bytes s) items)"

lemma calling_no_handlers: "calling no_handlers"
  by (simp add: calling_def no_handlers_def)

lemma compression_off:
  "prepare_data_frame s key (Some (m\<lparr>m_compressed := b\<rparr>)) out = prepare_data_frame s key (Some m) out"
  by (auto simp: prepare_data_frame_def Let_def split: option.splits)

lemma prepared_not_terminal:
  "prepare_data_frame s key (Some i) (Some (new_message 0)) = (None, Some m) \<Longrightarrow> \<not> m_terminal m"
  by (auto simp: prepare_data_frame_def Let_def new_message_def split: if_splits)

lemma prepare_data_frame_item:
  assumes "is_data op" "length pl \<le> limit" "length pl < 2 ^ 64" "length key = 4"
  shows "(if op = op_text \<and> \<not> validate pl
     then fst (prepare_data_frame s key (Some (append_payload pl (new_message op))) (Some (new_message 0))) \<noteq> None
     else sendable limit (key, op, pl) \<and>
       (\<exists>m. prepare_data_frame s key (Some (append_payload pl (new_message op))) (Some (new_message 0)) = (None, Some m) \<and>
          message_bytes m = item_bytes s (key, op, pl) \<and> \<not> m_terminal m))"
proof -
  have op: "\<not> op_is_control op" using assms(1) by (auto simp: is_data_def op_text_def op_binary_def op_is_control_def
        word_le_nat_alt)
  have item: "prepare_item s (key, op, pl) =
      prepare_data_frame s key (Some (append_payload pl (new_message op))) (Some (new_message 0))"
    using op by (simp add: prepare_item_def)
  show ?thesis
  proof (cases "op = op_text \<and> \<not> validate pl")
    case True
    then show ?thesis
      by (simp add: prepare_data_frame_def Let_def append_payload_def new_message_def op_text_def op_is_control_def)
  next
    case False
    then have send: "sendable limit (key, op, pl)" using assms by (auto simp: sendable_def is_data_def)
    then obtain m where "prepare_item s (key, op, pl) = (None, Some m)" using prepare_item_wire by blast
    then show ?thesis using False send item prepared_not_terminal by (auto simp: item_bytes_def)
  qed
qed

lemma sends_message:
  assumes "sends s limit sent c" "is_data op" "length pl \<le> limit" "length pl < 2 ^ 64"
    "d = snd (send ((append_payload pl (new_message op))\<lparr>m_compressed := b\<rparr>) c)" "con_inv no_handlers d"
  shows "sends s limit (sent @ accepted_message pl op) d"
proof -
  let ?key = "m_rng c 0"
  let ?prep = "prepare_data_frame (m_processor c) ?key (Some (append_payload pl (new_message op))) (Some (new_message 0))"
  have c: "m_session c = Open" "\<forall>n. length (m_rng c n) = 4" using assms(1) by (simp_all add: sends_def)
  obtain items where items: "map snd items = sent" "list_all (sendable limit) items"
    "map message_bytes (t_pushed c) = map (item_bytes (m_processor c)) items"
    using assms(1) by (auto simp: sends_def)
  have un: "\<not> m_prepared (append_payload pl (new_message op))" by (simp add: append_payload_def new_message_def)
  note prep = prepare_data_frame_item [OF assms(2-4), of ?key "m_processor c"] c(2)
  show ?thesis
  proof (cases "op = op_text \<and> \<not> validate pl")
    case True
    then obtain ec out where "?prep = (Some ec, out)" using prep by (cases ?prep) auto
    then have "d = c"
      using c(1) un by (simp add: assms(5) send_def send_unlocked_def compression_off prepare_with_def)
    then show ?thesis using assms(1) True by (simp add: accepted_message_def)
  next
    case False
    then obtain m where m: "?prep = (None, Some m)" "message_bytes m = item_bytes (m_processor c) (?key, op, pl)"
      "\<not> m_terminal m" "sendable limit (?key, op, pl)" using prep by auto
    have d: "t_pushed d = t_pushed c @ [m]" "m_session d = Open" "m_processor d = m_processor c"
      "m_internal_state d = m_internal_state c" "set (t_posted d) \<subseteq> set (t_posted c) \<union> {Run_write_frame}"
      "\<forall>n. length (m_rng d n) = 4"
      using c un m(1)
      by (auto simp: assms(5) send_def send_unlocked_def compression_off prepare_with_def push_and_write_def
          write_push_def dispatch_def Let_def)
    then show ?thesis
      using assms(1,6) False m items
      by (auto simp: sends_def accepted_message_def intro!: exI [of _ "items @ [(?key, op, pl)]"])
  qed
qed

text \<open>Writing changes nothing a sender's description looks at but its invariant.\<close>

lemma sends_cong:
  assumes "sends s limit sent c" "con_inv no_handlers d" "t_pushed d = t_pushed c" "m_session d = m_session c"
    "m_internal_state d = m_internal_state c" "m_processor d = m_processor c" "m_rng d = m_rng c"
    "set (t_posted d) \<subseteq> {Run_write_frame}"
  shows "sends s limit sent d"
  using assms by (simp add: sends_def)

lemma write_frame_fields:
  "t_pushed (write_frame c) = t_pushed c \<and> m_session (write_frame c) = m_session c \<and>
   m_internal_state (write_frame c) = m_internal_state c \<and> m_processor (write_frame c) = m_processor c \<and>
   m_rng (write_frame c) = m_rng c \<and> t_posted (write_frame c) = t_posted c"
proof -
  obtain ms q where "pop_ready (length (m_send_queue c)) c =
      (ms, c\<lparr>m_send_buffer_size := m_send_buffer_size c - size_of ms, m_send_queue := q\<rparr>)"
    using pop_ready_spec [of c "length (m_send_queue c)"] by auto
  then show ?thesis by (simp add: write_frame_def Let_def async_write_def)
qed

lemma sends_step:
  assumes "sends s limit sent c" "sending limit e" "limit < 2 ^ 64" "con_do no_handlers e c = Some d"
  shows "sends s limit (sent @ accepted [e]) d"
proof -
  have "e \<noteq> Api Resume_reading" using assms(2) by (auto simp: sending_def)
  then have inv: "con_inv no_handlers d"
    using con_do_keeps [OF calling_no_handlers, of c e] assms(1,4) by (auto simp: sends_def)
  have len: "length pl < 2 ^ 64" if "length pl \<le> limit" for pl :: "byte list" using that assms(3) by simp
  show ?thesis
  proof (cases e)
    case (Api a)
    then show ?thesis
    proof (cases a)
      case (Send_text pl op)
      then show ?thesis
        using assms Api inv len sends_message [OF assms(1), of op pl d True]
        by (simp add: sending_def send_text_def accepted_def accepted_event_def)
    next
      case (Send_bytes pl op)
      have "(append_payload pl (new_message op))\<lparr>m_compressed := False\<rparr> = append_payload pl (new_message op)"
        by (simp add: append_payload_def new_message_def)
      then show ?thesis
        using assms Api Send_bytes inv len sends_message [OF assms(1), of op pl d False]
        by (simp add: sending_def send_bytes_def accepted_def accepted_event_def)
    qed (use assms(2) in \<open>simp_all add: sending_def\<close>)
  next
    case (Task i)
    show ?thesis
    proof (cases "i < length (t_posted c)")
      case True
      let ?c = "c\<lparr>t_posted := take i (t_posted c) @ drop (Suc i) (t_posted c)\<rparr>"
      have posted: "set (t_posted c) \<subseteq> {Run_write_frame}" using assms(1) by (simp add: sends_def)
      then have "t_posted c ! i = Run_write_frame" using nth_mem [OF True] by blast
      then have "d = write_frame ?c" using assms(4) Task True by simp
      moreover have "set (t_posted ?c) \<subseteq> {Run_write_frame}"
        using posted set_take_subset [of i "t_posted c"] set_drop_subset [of "Suc i" "t_posted c"] by auto
      ultimately show ?thesis
        using sends_cong [OF assms(1) inv] write_frame_fields [of ?c] Task by (simp add: accepted_def accepted_event_def)
    qed (use assms Task in \<open>simp add: accepted_def accepted_event_def\<close>)
  next
    case (Write_done ec)
    show ?thesis
    proof (cases "t_writes c")
      case (Cons b bs)
      have c: "writes_ok c" "\<forall>m\<in>set (t_pushed c). \<not> m_terminal m" "set (t_posted c) \<subseteq> {Run_write_frame}"
        using assms(1) by (simp_all add: sends_def con_inv_def)
      then obtain v where v: "t_pushed c = (v @ m_current_msgs c) @ m_send_queue c" "m_current_msgs c \<noteq> []"
        using Cons by (auto simp: writes_ok_def split: if_splits)
      then have "\<not> m_terminal (last (m_current_msgs c))" using c(2) by simp
      then have "d = (if m_send_queue c \<noteq> [] then dispatch Run_write_frame else id)
          (c\<lparr>t_writes := bs, m_send_buffer := [], m_current_msgs := [], m_write_flag := False\<rparr>)"
        using assms(2,4) Write_done Cons v(2) by (auto simp: sending_def handle_write_frame_def Let_def)
      then have "sends s limit sent d"
        using c(3) by (intro sends_cong [OF assms(1) inv]) (auto simp: dispatch_def)
      then show ?thesis using Write_done by (simp add: accepted_def accepted_event_def)
    qed (use assms Write_done in \<open>simp add: accepted_def accepted_event_def\<close>)
  qed (use assms(2) in \<open>simp_all add: sending_def\<close>)
qed

lemma sends_run:
  "sends s limit sent c \<Longrightarrow> list_all (sending limit) es \<Longrightarrow> limit < 2 ^ 64 \<Longrightarrow>
     run_ops (con_do no_handlers) es c = Some d \<Longrightarrow> sends s limit (sent @ accepted es) d"
proof (induction es arbitrary: c sent)
  case (Cons e es)
  obtain c' where c': "con_do no_handlers e c = Some c'" "run_ops (con_do no_handlers) es c' = Some d"
    using Cons.prems(4) by (auto split: option.splits)
  have "sends s limit (sent @ accepted [e]) c'" using sends_step [OF Cons.prems(1) _ _ c'(1)] Cons.prems by simp
  from Cons.IH [OF this _ _ c'(2)] show ?case using Cons.prems by (simp add: accepted_def accepted_event_def)
qed (simp add: accepted_def accepted_event_def)

lemma opened_simple:
  "h_open h = None \<Longrightarrow> con_do h (Opened []) (new_connection server rng) =
     Some ((new_connection server rng)\<lparr>m_internal_state := PROCESS_CONNECTION, m_session := Open, t_reads := 1\<rparr>)"
  by (simp add: opened_def handle_read_frame_def read_loop.simps read_frame_def async_read_def call_def
      new_connection_def)

lemma sends_start:
  assumes "\<forall>n. length (rng n) = 4"
  shows "sends (new_hybi13 server) limit [] ((new_connection server rng)\<lparr>m_internal_state := PROCESS_CONNECTION, m_session := Open, t_reads := 1\<rparr>)"
    (is "sends _ _ _ ?c")
proof -
  have "con_do no_handlers (Opened []) (new_connection server rng) = Some ?c"
    by (rule opened_simple) (simp add: no_handlers_def)
  then have "con_inv no_handlers ?c"
    using con_do_keeps [OF calling_no_handlers con_inv_new, of "Opened []" server rng] by simp
  then show ?thesis using assms by (simp add: sends_def new_connection_def)
qed

text \<open>What has reached the wire are the first messages that were accepted.\<close>

lemma sends_wire:
  assumes "sends s limit sent c"
  shows "\<exists>items. map snd items = take (length sent - length (m_send_queue c)) sent \<and>
    list_all (sendable limit) items \<and> t_wire c = sent_stream s items"
proof -
  obtain items where items: "map snd items = sent" "list_all (sendable limit) items"
    "map message_bytes (t_pushed c) = map (item_bytes s) items"
    using assms by (auto simp: sends_def)
  obtain w where w: "t_pushed c = w @ m_send_queue c" "t_wire c = concat (map message_bytes w)"
    using assms by (auto simp: sends_def con_inv_def writes_ok_def)
  let ?k = "length sent - length (m_send_queue c)"
  have len: "length (t_pushed c) = length items" using items(3) by (metis length_map)
  have k: "?k = length w" using len w(1) arg_cong [OF items(1), of length] by simp
  have "map message_bytes w = take ?k (map message_bytes (t_pushed c))" using w(1) k by simp
  also have "\<dots> = map (item_bytes s) (take ?k items)" by (simp add: items(3) take_map)
  finally have "t_wire c = sent_stream s (take ?k items)"
    by (simp add: w(2) sent_stream_def item_bytes_def [abs_def])
  moreover have "map snd (take ?k items) = take ?k sent" by (simp add: items(1) flip: take_map)
  moreover have "list_all (sendable limit) (take ?k items)"
    using items(2) by (auto simp: list_all_iff dest: in_set_takeD)
  ultimately show ?thesis by blast
qed

definition received :: "connection \<Rightarrow> (opcode \<times> byte list) list" where
  "received c = concat (map (\<lambda>e. case e of Called_message m \<Rightarrow> [(m_opcode m, m_payload m)] | _ \<Rightarrow> []) (t_calls c))"

lemma received_messages: "t_calls c = map Called_message ms \<Longrightarrow> received c = map (\<lambda>m. (m_opcode m, m_payload m)) ms"
  by (simp add: received_def comp_def concat_map_singleton)

lemma accepted_event_data:
  assumes "sending limit e" "(op, pl) \<in> set (accepted_event e)"
  shows "is_data op"
proof (cases e)
  case (Api a)
  then show ?thesis
    using assms by (cases a) (auto simp: sending_def accepted_event_def accepted_message_def split: if_splits)
qed (use assms in \<open>simp_all add: accepted_event_def\<close>)

lemma accepted_data:
  assumes "list_all (sending limit) es" "(op, pl) \<in> set (accepted es)"
  shows "\<not> op_is_control op"
proof -
  have "is_data op" using assms accepted_event_data by (auto simp: accepted_def list_all_iff)
  then show ?thesis
    by (auto simp: is_data_def op_text_def op_binary_def op_is_control_def word_le_nat_alt)
qed

subsection \<open>From user to user\<close>

text \<open>C1. Two connections of opposite roles. The user of one sends text and binary messages (of a size
  the peer accepts) while its writes are scheduled in any way; the bytes handed to its transport arrive
  at the other, cut into reads in any way; its message handler may answer as it likes, without closing.
  Then the handler is called with exactly the messages accepted so far and no longer queued, in order:
  each whole, with its opcode and payload, and nothing else.\<close>

theorem stream_delivered:
  assumes "list_all (sending max_message_size) es" "\<forall>n. length (rng n) = 4"
    and "run_ops (con_do no_handlers) (Opened [] # es) (new_connection server rng) = Some a"
    and "listener h" "concat bufs = t_wire a"
  shows "\<exists>b. run_ops (con_do h) (Opened [] # map (Read_done None) bufs) (new_connection (\<not> server) rng') = Some b \<and>
    received b = take (length (accepted es) - length (m_send_queue a)) (accepted es) \<and> m_session b = Open"
proof -
  let ?start = "\<lambda>server rng. (new_connection server rng)\<lparr>m_internal_state := PROCESS_CONNECTION, m_session := Open, t_reads := 1\<rparr>"
  let ?c = "?start (\<not> server) rng'"
  have "run_ops (con_do no_handlers) es (?start server rng) = Some a"
    using assms(3) opened_simple [of no_handlers server rng] by (simp add: no_handlers_def)
  then have a: "sends (new_hybi13 server) max_message_size (accepted es) a"
    using sends_run [OF sends_start [OF assms(2)] assms(1)] by (simp add: max_message_size_def)
  obtain items where items: "map snd items = take (length (accepted es) - length (m_send_queue a)) (accepted es)"
    "list_all (sendable max_message_size) items" "t_wire a = sent_stream (new_hybi13 server) items"
    using sends_wire [OF a] by blast
  define fs where "fs = map (\<lambda>(key, op, pl). sent_frame op (\<not> server) key pl) items"
  have wire: "concat bufs = concat (map wire fs)"
    using sent_stream_wire [OF items(2), of "new_hybi13 server"] items(3) assms(5)
    by (simp add: fs_def new_hybi13_def reset_headers_def)
  have good: "list_all (good (m_is_server ?c) max_message_size) fs"
    using items(2) sent_good by (fastforce simp: fs_def list_all_iff new_connection_def)
  have msgs: "map (\<lambda>m. (m_opcode m, m_payload m)) (map frame_message fs) = map snd items"
    using items(2) sendable_opcode(1)
    by (fastforce simp: fs_def frame_message_def append_payload_def new_message_def sent_frame_def Let_def list_all_iff)
  have "\<forall>f\<in>set fs. \<not> op_is_control (get_opcode (f_header f))"
  proof
    fix f assume "f \<in> set fs"
    then have "(get_opcode (f_header f), m_payload (frame_message f)) \<in> set (map snd items)"
      unfolding msgs [symmetric]
      by (force simp: frame_message_def append_payload_def new_message_def)
    then have "(get_opcode (f_header f), m_payload (frame_message f)) \<in> set (accepted es)"
      unfolding items(1) by (rule in_set_takeD)
    then show "\<not> op_is_control (get_opcode (f_header f))" using accepted_data [OF assms(1)] by auto
  qed
  moreover have "listens max_message_size fs (concat bufs) ?c"
    using reading_start [OF new_hybi13_fresh, of "\<not> server" fs] wire
    by (simp add: listens_def new_connection_def)
  ultimately obtain b where b: "run_ops (con_do h) (map (Read_done None) bufs) ?c = Some b"
    "t_calls b = t_calls ?c @ map (Called_message \<circ> frame_message) fs" "m_session b = Open"
    using listens_reads [of max_message_size fs bufs ?c h] good assms(4) by auto
  have "t_calls b = map Called_message (map frame_message fs)" using b(2) by (simp add: new_connection_def)
  then have "received b = map snd items" using received_messages msgs by metis
  then show ?thesis
    using b items(1) opened_simple [of h "\<not> server" rng'] assms(4) by (simp add: listener_def)
qed

lemma listener_echo: "listener echo"
proof -
  define f where "f = (\<lambda>(m::message) c. snd (send_bytes (m_payload m) (m_opcode m) c))"
  have "\<exists>as. list_all keeps_open as \<and> f m c = run_apis echo as c" for m c
    by (rule exI [of _ "[Send_bytes (m_payload m) (m_opcode m)]"]) (simp add: f_def keeps_open_def run_apis_def)
  moreover have "h_message echo = Some f" "h_open echo = None" by (simp_all add: echo_def no_handlers_def f_def)
  ultimately show ?thesis using calling_echo unfolding listener_def by blast
qed

definition sending_example :: "event list" where
  "sending_example = [Api (Send_text [0x68] op_text), Task 0, Api (Send_bytes [1, 2] op_binary),
     Write_done None, Task 0, Write_done None]"

theorem stream_delivered_witness:
  "\<exists>a b. run_ops (con_do no_handlers) (Opened [] # sending_example) (new_connection True (\<lambda>n. [0, 0, 0, 0])) = Some a \<and>
     run_ops (con_do echo) (Opened [] # map (\<lambda>x. Read_done None [x]) (t_wire a)) (new_connection False (\<lambda>n. [])) = Some b \<and>
     received b = [(op_text, [0x68]), (op_binary, [1, 2])]"
proof -
  have es: "list_all (sending max_message_size) sending_example"
    by (simp add: sending_example_def sending_def is_data_def max_message_size_def)
  have "accepted sending_example = [(op_text, [0x68]), (op_binary, [1, 2])]"
    by (simp add: sending_example_def accepted_def accepted_event_def accepted_message_def validate_accepts
        next_state_def op_text_def op_binary_def)
  moreover obtain a where a: "run_ops (con_do no_handlers) (Opened [] # sending_example) (new_connection True (\<lambda>n. [0, 0, 0, 0])) = Some a"
    "m_send_queue a = []"
    by atomize_elim (simp add: sending_example_def opened_def handle_read_frame_def read_loop.simps
        read_frame_def async_read_def call_def no_handlers_def send_text_def send_bytes_def send_def send_unlocked_def new_connection_def
      append_payload_def new_message_def prepare_with_def prepare_data_frame_def Let_def op_text_def op_is_control_def
      validate_accepts next_state_def push_and_write_def write_push_def dispatch_def write_frame_def write_pop_def async_write_def
      new_hybi13_def reset_headers_def handle_write_frame_def op_binary_def message_bytes_def)
  ultimately show ?thesis
    using stream_delivered [OF es _ a(1) listener_echo, of "map (\<lambda>x. [x]) (t_wire a)" "\<lambda>n. []"]
    by (auto simp: comp_def concat_map_singleton)
qed

end
