(* ===== verification/WsClosing.thy ===== *)
theory WsClosing
  imports WsDelivery
begin

text \<open>
  How a connection is closed: the closing handshake of two connections, what a protocol error leads
  to, and the places where the closing goes wrong.
\<close>

subsection \<open>Close frames\<close>

definition close_payload :: "close_code \<Rightarrow> byte list \<Rightarrow> byte list" where
  "close_payload code reason = (if code \<noteq> cs_no_status then be_bytes 2 (unat code) @ reason else [])"

definition closable :: "close_code \<Rightarrow> byte list \<Rightarrow> bool" where
  "closable code reason \<longleftrightarrow> \<not> reserved code \<and> (\<not> invalid code \<or> code = cs_no_status \<and> reason = []) \<and>
     length reason \<le> close_reason_size"

lemma invalid_no_status [simp]: "invalid cs_no_status"
  by (simp add: invalid_def)

lemma closable_payload: "closable code reason \<Longrightarrow> length (close_payload code reason) \<le> payload_size_basic"
  by (simp add: closable_def close_payload_def close_reason_size_def payload_size_basic_def del: be_bytes_numeral)

lemma closable_sendable: "closable code reason \<Longrightarrow> length key = 4 \<Longrightarrow> sendable limit (key, op_close, close_payload code reason)"
  using closable_payload by (simp add: sendable_def)

lemma prepare_close_closable:
  assumes "closable code reason"
  shows "prepare_close s key code reason (Some (new_message 0)) = prepare_item s (key, op_close, close_payload code reason)"
proof -
  have "op_is_control op_close" by (simp add: op_is_control_def op_close_def)
  then show ?thesis
    using assms
    by (auto simp: prepare_close_def prepare_item_def closable_def close_payload_def close_reason_size_def
        payload_size_basic_def simp del: be_bytes_numeral)
qed

lemma prepare_close_wire:
  assumes "closable code reason" "length key = 4"
  shows "\<exists>m. prepare_close s key code reason (Some (new_message 0)) = (None, Some m) \<and>
    message_bytes m = wire (sent_frame op_close (\<not> m_server s) key (close_payload code reason)) \<and>
    m_opcode m = op_close \<and> \<not> m_terminal m"
proof -
  obtain m where m: "prepare_item s (key, op_close, close_payload code reason) = (None, Some m)"
    "message_bytes m = wire (sent_frame op_close (\<not> m_server s) key (close_payload code reason))"
    using prepare_item_wire [OF closable_sendable [OF assms]] by blast
  have "op_is_control op_close" by (simp add: op_is_control_def op_close_def)
  then have "m_opcode m = op_close \<and> \<not> m_terminal m"
    using m(1) by (auto simp: prepare_item_def prepare_control_def new_message_def Let_def split: if_splits)
  then show ?thesis using m prepare_close_closable [OF assms(1)] by simp
qed

text \<open>The frame comes out of the other processor.\<close>

lemma extract_closable:
  assumes "closable code reason" "validate reason"
  shows "extract_code (close_payload code reason) = (code, None)"
    "extract_reason (close_payload code reason) = (reason, None)"
proof -
  have "validate []" by (simp add: validate_accepts)
  then show "extract_code (close_payload code reason) = (code, None)"
    "extract_reason (close_payload code reason) = (reason, None)"
    using assms
    by (auto simp: close_payload_def closable_def extract_code_def [of "[]"] extract_reason_def Let_def
        simp del: be_bytes_numeral)
qed

lemma read_one_frame:
  assumes "fresh (m_is_server c) limit (m_processor c)" "good (m_is_server c) limit f" "calling h"
    "m_internal_state c = PROCESS_CONNECTION" "t_reads c = 1"
  shows "\<exists>s t. m_server s = m_is_server c \<and> fresh (m_is_server c) limit t \<and> con_do h (Read_done None (wire f)) c =
    Some (read_frame ((deliver h (frame_message f) (c\<lparr>t_reads := 0, m_processor := s\<rparr>))\<lparr>m_processor := t\<rparr>))"
proof -
  let ?c = "c\<lparr>t_reads := 0\<rparr>"
  have "reading (m_is_server c) limit [f] (wire f @ []) (m_processor c)"
    using reading_start [OF assms(1), of "[f]"] by simp
  from receive_stream [OF this] obtain t fs1 fs2 where t: "receive (m_processor c) (wire f) = Some (t, map frame_message fs1, None)"
    "[f] = fs1 @ fs2" "reading (m_is_server c) limit fs2 [] t" using assms(2) by auto
  have fs: "fs1 = [f]" "fresh (m_is_server c) limit t" using t(2) reading_end [OF t(3)] by simp_all
  obtain d where d: "deliveries h ?c [frame_message f] d" "m_processor d = t" "read_loop h ?c (wire f) = Some (read_frame d)"
    using read_loop_receive [OF t(1) calling_keeps_processor [OF assms(3)], of ?c] fs(1) by auto
  from d(1) obtain s u where s: "d = (deliver h (frame_message f) (?c\<lparr>m_processor := s\<rparr>))\<lparr>m_processor := u\<rparr>"
    "m_server s = m_server (m_processor c)"
    by (auto elim!: deliveries_ConsE deliveries_NilE)
  moreover have "m_server (m_processor c) = m_is_server c" using assms(1) by (simp add: fresh_def)
  ultimately show ?thesis
    using d assms(4,5) fs(2) by (auto simp: handle_read_frame_def)
qed

subsection \<open>The closing handshake\<close>

lemmas run_simps = Let_def dispatch_def push_and_write_def write_push_def set_timer_def prepare_with_def
  write_frame_def write_pop_def async_write_def

definition start_of :: "bool \<Rightarrow> (nat \<Rightarrow> byte list) \<Rightarrow> connection" where
  "start_of server rng =
     (new_connection server rng)\<lparr>m_internal_state := PROCESS_CONNECTION, m_session := Open, t_reads := 1\<rparr>"

lemma start_of_simps [simp]:
  "t_posted (start_of server rng) = []" "t_writes (start_of server rng) = []" "t_reads (start_of server rng) = 1"
  "t_timers (start_of server rng) = []" "t_next_timer (start_of server rng) = 0" "t_shutdowns (start_of server rng) = []"
  "t_pushed (start_of server rng) = []" "t_wire (start_of server rng) = []" "t_calls (start_of server rng) = []"
  "m_is_server (start_of server rng) = server" "m_session (start_of server rng) = Open"
  "m_internal_state (start_of server rng) = PROCESS_CONNECTION" "m_processor (start_of server rng) = new_hybi13 server"
  "m_rng (start_of server rng) = rng" "m_send_queue (start_of server rng) = []" "m_send_buffer_size (start_of server rng) = 0"
  "m_send_buffer (start_of server rng) = []" "m_current_msgs (start_of server rng) = []"
  "\<not> m_write_flag (start_of server rng)" "m_read_flag (start_of server rng)"
  "m_handshake_timer (start_of server rng) = None" "m_ping_timer (start_of server rng) = None"
  "m_close_handshake_timeout_dur (start_of server rng) = 5000" "m_ec (start_of server rng) = None"
  "\<not> m_is_http (start_of server rng)" "\<not> m_was_clean (start_of server rng)"
  by (simp_all add: start_of_def new_connection_def)

lemma run_opened:
  "h_open h = None \<Longrightarrow> run_ops (con_do h) (Opened [] # es) (new_connection server rng) =
     run_ops (con_do h) es (start_of server rng)"
  by (simp add: opened_simple start_of_def del: con_do.simps)

text \<open>The initiator: its close frame is on the wire.\<close>

definition wrote :: "message \<Rightarrow> connection \<Rightarrow> bool" where
  "wrote m c \<longleftrightarrow> m_current_msgs c = [m] \<and> t_writes c = [message_bytes m] \<and> t_wire c = message_bytes m \<and>
     m_send_queue c = [] \<and> m_write_flag c \<and> m_internal_state c = PROCESS_CONNECTION \<and>
     m_ec c = None \<and> m_session c = Closing \<and> m_read_flag c"

lemma closable_not_blank: "closable code reason \<Longrightarrow> code \<noteq> cs_blank"
  by (auto simp: closable_def invalid_def close_codes)

text \<open>A close frame is queued on a connection with nothing to write, and then written.\<close>

definition resting :: "bool \<Rightarrow> connection \<Rightarrow> bool" where
  "resting server c \<longleftrightarrow> m_send_queue c = [] \<and> \<not> m_write_flag c \<and> m_current_msgs c = [] \<and> m_send_buffer c = [] \<and>
     t_writes c = [] \<and> t_wire c = [] \<and> t_posted c = [] \<and> m_internal_state c = PROCESS_CONNECTION \<and>
     m_ec c = None \<and> m_read_flag c \<and> m_is_server c = server \<and> m_server (m_processor c) = server"

definition close_queued :: "message \<Rightarrow> connection \<Rightarrow> bool" where
  "close_queued m c \<longleftrightarrow> m_send_queue c = [m] \<and> \<not> m_write_flag c \<and> m_current_msgs c = [] \<and> m_send_buffer c = [] \<and>
     t_writes c = [] \<and> t_wire c = [] \<and> t_posted c = [Run_write_frame] \<and> m_internal_state c = PROCESS_CONNECTION \<and>
     m_ec c = None \<and> m_session c = Closing \<and> m_read_flag c"

definition same_peer :: "connection \<Rightarrow> connection \<Rightarrow> bool" where
  "same_peer c d \<longleftrightarrow> m_is_server d = m_is_server c \<and> m_processor d = m_processor c \<and> t_reads d = t_reads c \<and>
     m_remote_close_code d = m_remote_close_code c \<and> m_remote_close_reason d = m_remote_close_reason c"

lemma choose_close_resting: "resting server (choose_close code reason ack c) = resting server c"
  by (simp add: choose_close_def resting_def)

lemma choose_close_peer: "same_peer c (choose_close code reason ack c)" "m_rng (choose_close code reason ack c) = m_rng c"
  "m_was_clean (choose_close code reason ack c) = m_was_clean c"
  by (simp_all add: choose_close_def same_peer_def)

lemma send_close_frame_queued:
  assumes "resting server c" "length (m_rng c 0) = 4" "closable lc lr"
    "m_local_close_code (choose_close code reason ack c) = lc" "m_local_close_reason (choose_close code reason ack c) = lr"
  shows "\<exists>m d. send_close_frame code reason ack ta c = (None, d) \<and> close_queued m d \<and> same_peer c d \<and>
    message_bytes m = wire (sent_frame op_close (\<not> server) (m_rng c 0) (close_payload lc lr)) \<and> m_terminal m = ta \<and>
    m_was_clean d = (ack \<or> m_was_clean c) \<and> m_local_close_code d = lc \<and> m_local_close_reason d = lr"
proof -
  define b where "b = choose_close code reason ack c"
  have b: "resting server b" "same_peer c b" "m_rng b = m_rng c" "m_was_clean b = m_was_clean c"
    "m_local_close_code b = lc" "m_local_close_reason b = lr"
    using assms(1,4,5) choose_close_resting choose_close_peer by (simp_all add: b_def)
  obtain m where m: "prepare_close (m_processor b) (m_rng b 0) lc lr (Some (new_message 0)) = (None, Some m)"
    "message_bytes m = wire (sent_frame op_close (\<not> m_server (m_processor b)) (m_rng b 0) (close_payload lc lr))"
    "\<not> m_terminal m"
    using prepare_close_wire [OF assms(3), of "m_rng b 0" "m_processor b"] assms(2) b(3) by auto
  define m' where "m' = (if ta then m\<lparr>m_terminal := True\<rparr> else m)"
  have m': "message_bytes m' = message_bytes m" "m_terminal m' = ta"
    using m(3) by (simp_all add: m'_def message_bytes_def)
  define e where "e = snd (snd (prepare_with (\<lambda>key. prepare_close (m_processor b) key (m_local_close_code b)
      (m_local_close_reason b) (Some (new_message 0))) b))"
  have prep: "prepare_with (\<lambda>key. prepare_close (m_processor b) key (m_local_close_code b)
      (m_local_close_reason b) (Some (new_message 0))) b = (None, Some m, e)"
    using m(1) b(5,6) by (simp add: e_def prepare_with_def)
  have e: "resting server e" "same_peer c e" "m_was_clean e = m_was_clean c" "m_local_close_code e = lc" "m_local_close_reason e = lr"
    using b m(1) by (simp_all add: e_def prepare_with_def resting_def same_peer_def)
  define f where "f = (let c = e\<lparr>m_session := Closing\<rparr>; c = (if ack then c\<lparr>m_was_clean := True\<rparr> else c)
    in if m_close_handshake_timeout_dur c > 0
       then (let (t, c) = set_timer Close_handshake_timer c in c\<lparr>m_handshake_timer := Some t\<rparr>) else c)"
  have send: "send_close_frame code reason ack ta c = (None, push_and_write m' f)"
    unfolding send_close_frame_def Let_def b_def [symmetric] prep by (simp add: f_def m'_def Let_def)
  have f: "resting server f" "same_peer c f" "m_was_clean f = (ack \<or> m_was_clean c)" "m_local_close_code f = lc"
    "m_local_close_reason f = lr" "m_session f = Closing"
    using e by (simp_all add: f_def Let_def set_timer_def resting_def same_peer_def)
  have "close_queued m' (push_and_write m' f)"
    using f(1,6) by (simp add: close_queued_def resting_def push_and_write_def write_push_def dispatch_def Let_def)
  moreover have "same_peer c (push_and_write m' f)" "m_was_clean (push_and_write m' f) = m_was_clean f"
    "m_local_close_code (push_and_write m' f) = lc" "m_local_close_reason (push_and_write m' f) = lr"
    using f by (simp_all add: same_peer_def push_and_write_def write_push_def dispatch_def Let_def)
  ultimately show ?thesis
    using send m(2) m' f(3) b(1,3) by (auto simp: resting_def)
qed

lemma write_queued:
  assumes "close_queued m c"
  shows "\<exists>d. con_do h (Task 0) c = Some d \<and> wrote m d \<and> same_peer c d \<and> m_was_clean d = m_was_clean c \<and>
    m_local_close_code d = m_local_close_code c \<and> m_local_close_reason d = m_local_close_reason c"
  using assms
  by (simp add: close_queued_def wrote_def same_peer_def write_frame_def write_pop_def async_write_def Let_def message_bytes_def)

lemma resting_start: "resting server (start_of server rng)"
  by (simp add: resting_def new_hybi13_def reset_headers_def)

lemma initiator:
  assumes "closable code reason" "length (rng 0) = 4" "h_open h = None"
  shows "\<exists>m c. run_ops (con_do h) [Opened [], Api (Close code reason), Task 0] (new_connection server rng) = Some c \<and>
    wrote m c \<and> message_bytes m = wire (sent_frame op_close (\<not> server) (rng 0) (close_payload code reason)) \<and>
    m_terminal m = terminal code \<and> same_peer (start_of server rng) c \<and> \<not> m_was_clean c"
proof -
  let ?c = "start_of server rng"
  have len: "take (min (length reason) close_reason_size) reason = reason" using assms(1) by (simp add: closable_def)
  have choice: "m_local_close_code (choose_close code reason False ?c) = code"
    "m_local_close_reason (choose_close code reason False ?c) = reason"
    using closable_not_blank [OF assms(1)] by (simp_all add: choose_close_def)
  have key: "length (m_rng ?c 0) = 4" using assms(2) by simp
  obtain m d where d: "send_close_frame code reason False (terminal code) ?c = (None, d)" "close_queued m d" "same_peer ?c d"
    "message_bytes m = wire (sent_frame op_close (\<not> server) (rng 0) (close_payload code reason))"
    "m_terminal m = terminal code" "\<not> m_was_clean d"
    using send_close_frame_queued [OF resting_start key assms(1) choice, where ta = "terminal code"] by auto
  have "con_do h (Api (Close code reason)) ?c = Some d" using d(1) by (simp add: close_con_def len Let_def)
  moreover obtain e where "con_do h (Task 0) d = Some e" "wrote m e" "same_peer d e" "m_was_clean e = m_was_clean d"
    using write_queued [OF d(2)] by blast
  ultimately show ?thesis
    unfolding run_opened [OF assms(3)] using d by (auto simp: same_peer_def simp del: con_do.simps)
qed

text \<open>The other side: it has read the frame and its answer is on the wire.\<close>

definition echoed_code :: "close_code \<Rightarrow> close_code" where
  "echoed_code code = (if code = cs_no_status then cs_normal else code)"

lemma closable_echoed: "closable code reason \<Longrightarrow> closable (echoed_code code) reason"
  by (auto simp: closable_def echoed_code_def reserved_def invalid_def close_codes)

lemma frame_message_sent [simp]:
  "m_opcode (frame_message (sent_frame op masked key pl)) = op AND 0x0F"
  "m_payload (frame_message (sent_frame op masked key pl)) = pl"
  by (simp_all add: frame_message_def append_payload_def new_message_def sent_frame_def Let_def)

lemma handle_close_open:
  assumes "extract_code pl = (code, None)" "extract_reason pl = (reason, None)" "m_session c = Open"
  shows "handle_close_frame pl c =
    snd (send_close_ack cs_blank [] (c\<lparr>m_remote_close_code := code, m_remote_close_reason := reason\<rparr>))"
  using assms by (simp add: handle_close_frame_def Let_def)

lemma op_close_simps [simp]:
  "op_close AND 0x0F = op_close" "op_is_control op_close" "op_close \<noteq> op_ping" "op_close \<noteq> op_pong"
  by (simp_all add: op_close_def op_is_control_def op_ping_def op_pong_def)

lemma deliver_close:
  "m_opcode m = op_close \<Longrightarrow> m_session c \<noteq> Closed \<Longrightarrow> deliver h m c = handle_close_frame (m_payload m) c"
  by (simp add: deliver_def process_control_frame_def Let_def)

lemma answerer:
  assumes "closable code reason" "validate reason" "length key = 4" "length (rng 0) = 4" "calling h"
  shows "\<exists>m c. run_ops (con_do h) [Read_done None (wire (sent_frame op_close server key (close_payload code reason))), Task 0]
      (start_of server rng) = Some c \<and>
    message_bytes m = wire (sent_frame op_close (\<not> server) (rng 0) (close_payload (echoed_code code) reason)) \<and>
    m_terminal m = server \<and> wrote m c \<and> t_reads c = 1 \<and> m_was_clean c \<and>
    m_remote_close_code c = code \<and> m_remote_close_reason c = reason \<and>
    m_local_close_code c = echoed_code code \<and> m_local_close_reason c = reason \<and> m_is_server c = server"
proof -
  let ?f = "sent_frame op_close server key (close_payload code reason)" and ?c = "start_of server rng"
  have good: "good server max_message_size ?f" by (rule sent_good [OF closable_sendable [OF assms(1,3)]])
  obtain s t where st: "m_server s = server" "con_do h (Read_done None (wire ?f)) ?c =
      Some (read_frame ((deliver h (frame_message ?f) (?c\<lparr>t_reads := 0, m_processor := s\<rparr>))\<lparr>m_processor := t\<rparr>))"
    using read_one_frame [of ?c max_message_size ?f h] new_hybi13_fresh [of server] good assms(5) by auto
  let ?d = "?c\<lparr>t_reads := 0, m_processor := s, m_remote_close_code := code, m_remote_close_reason := reason\<rparr>"
  have delivered: "deliver h (frame_message ?f) (?c\<lparr>t_reads := 0, m_processor := s\<rparr>) =
      snd (send_close_frame cs_blank [] True server ?d)"
    using handle_close_open [OF extract_closable [OF assms(1,2)], of "?c\<lparr>t_reads := 0, m_processor := s\<rparr>"]
    by (simp add: deliver_close send_close_ack_def)
  have rest: "resting server ?d" using st(1) by (simp add: resting_def)
  have "code = cs_no_status \<Longrightarrow> reason = []" using assms(1) by (auto simp: closable_def)
  then have choice: "m_local_close_code (choose_close cs_blank [] True ?d) = echoed_code code"
    "m_local_close_reason (choose_close cs_blank [] True ?d) = reason"
    by (auto simp: choose_close_def echoed_code_def)
  have key: "length (m_rng ?d 0) = 4" using assms(4) by simp
  obtain m e where e: "send_close_frame cs_blank [] True server ?d = (None, e)" "close_queued m e" "same_peer ?d e"
    "message_bytes m = wire (sent_frame op_close (\<not> server) (rng 0) (close_payload (echoed_code code) reason))"
    "m_terminal m = server" "m_was_clean e" "m_local_close_code e = echoed_code code" "m_local_close_reason e = reason"
    using send_close_frame_queued [OF rest key closable_echoed [OF assms(1)] choice, where ta = server] by auto
  let ?e = "read_frame (e\<lparr>m_processor := t\<rparr>)"
  have e': "close_queued m ?e" "t_reads ?e = 1" "m_was_clean ?e" "m_remote_close_code ?e = code"
    "m_remote_close_reason ?e = reason" "m_local_close_code ?e = echoed_code code" "m_local_close_reason ?e = reason"
    "m_is_server ?e = server"
    using e(2,3,6-8) by (simp_all add: close_queued_def same_peer_def read_frame_def async_read_def)
  obtain g where "con_do h (Task 0) ?e = Some g" "wrote m g" "same_peer ?e g" "m_was_clean g = m_was_clean ?e"
    "m_local_close_code g = m_local_close_code ?e" "m_local_close_reason g = m_local_close_reason ?e"
    using write_queued [OF e'(1)] by blast
  then show ?thesis
    using st(2) delivered e(1,4,5) e' by (auto simp: same_peer_def simp del: con_do.simps)
qed

lemma terminate_none:
  "m_was_clean (terminate None c) = m_was_clean c \<and> m_remote_close_code (terminate None c) = m_remote_close_code c \<and>
   m_remote_close_reason (terminate None c) = m_remote_close_reason c \<and> m_ec (terminate None c) = m_ec c"
  by (simp add: terminate_def Let_def async_shutdown_def cancel_timer_def split: option.splits session_state.splits)

text \<open>The initiator again: it reads the answer.\<close>

lemma initiator_done:
  assumes "closable code reason" "validate reason" "length key = 4" "calling h"
    "wrote m c" "\<not> m_terminal m" "m_is_server c = server" "m_processor c = new_hybi13 server" "\<not> m_was_clean c"
    "t_reads c = 1"
  shows "\<exists>d. run_ops (con_do h) [Write_done None, Read_done None (wire (sent_frame op_close server key (close_payload code reason)))] c =
      Some d \<and> m_remote_close_code d = code \<and> m_remote_close_reason d = reason \<and> m_was_clean d \<and> m_ec d = None \<and>
      m_session d = (if server then Closed else Closing) \<and> t_reads d = 1 \<and> m_is_server d = server"
proof -
  let ?f = "sent_frame op_close server key (close_payload code reason)"
  let ?c = "c\<lparr>t_writes := [], m_send_buffer := [], m_current_msgs := [], m_write_flag := False\<rparr>"
  have written: "con_do h (Write_done None) c = Some ?c"
    using assms(5,6) by (simp add: wrote_def handle_write_frame_def Let_def)
  have fresh: "fresh server max_message_size (new_hybi13 server)" by (rule new_hybi13_fresh)
  have good: "good server max_message_size ?f" by (rule sent_good [OF closable_sendable [OF assms(1,3)]])
  obtain s t where st: "con_do h (Read_done None (wire ?f)) ?c =
      Some (read_frame ((deliver h (frame_message ?f) (?c\<lparr>t_reads := 0, m_processor := s\<rparr>))\<lparr>m_processor := t\<rparr>))"
    using read_one_frame [of ?c max_message_size ?f h] fresh good assms(4,5,7,8,10) by (auto simp: wrote_def)
  have op: "op_close AND 0x0F = op_close" "op_is_control op_close" "op_close \<noteq> op_ping" "op_close \<noteq> op_pong"
    by (simp_all add: op_close_def op_is_control_def op_ping_def op_pong_def)
  let ?d = "?c\<lparr>t_reads := 0, m_processor := s, m_remote_close_code := code, m_remote_close_reason := reason, m_was_clean := True\<rparr>"
  have "deliver h (frame_message ?f) (?c\<lparr>t_reads := 0, m_processor := s\<rparr>) = (if server then terminate None ?d else ?d)"
    using extract_closable [OF assms(1,2)] assms(5,7,9)
    by (simp add: deliver_close wrote_def) (simp add: handle_close_frame_def)
  then show ?thesis
    using written st assms(5,7) terminate_none [of ?d]
    by (auto simp: wrote_def read_frame_def async_read_def)
qed

lemma eof_ends:
  assumes "m_session c = Closing" "\<not> m_is_server c" "t_reads c = 1" "m_ec c = None"
  shows "\<exists>d. con_do h (Read_done (Some (Transport T_eof)) []) c = Some d \<and> m_session d = Closed \<and> m_ec d = None"
  using assms
  by (auto simp: handle_read_frame_def read_failed_def terminate_def cancel_timer_def async_shutdown_def Let_def
      split: option.splits)

text \<open>C6. The closing handshake. One connection closes with a valid code and reason (not one of the
  codes after which the connection is dropped at once); the frames travel to the other and back. Both
  ends then count the closing as clean, the other end has received the code and reason, and the
  initiator has received the echo of them (normal closure for no code). The server is the one who drops
  the connection: as the initiator when the answer arrives, otherwise when its answer is written; the
  client stays until the end of the stream, and then it is closed without an error.\<close>

theorem closing_handshake:
  assumes "closable code reason" "validate reason" "\<not> terminal code"
    and "\<forall>n. length (rng n) = 4" "\<forall>n. length (rng' n) = 4"
    and "calling h" "h_open h = None" "calling h'" "h_open h' = None"
  shows "\<exists>a b a' b'.
    run_ops (con_do h) [Opened [], Api (Close code reason), Task 0] (new_connection server rng) = Some a \<and>
    run_ops (con_do h') [Opened [], Read_done None (t_wire a), Task 0] (new_connection (\<not> server) rng') = Some b \<and>
    run_ops (con_do h') [Write_done None] b = Some b' \<and>
    run_ops (con_do h) [Write_done None, Read_done None (t_wire b)] a = Some a' \<and>
    m_was_clean a' \<and> m_remote_close_code a' = echoed_code code \<and> m_remote_close_reason a' = reason \<and>
    m_was_clean b' \<and> m_remote_close_code b' = code \<and> m_remote_close_reason b' = reason \<and>
    m_session a' = (if server then Closed else Closing) \<and> m_session b' = (if server then Closing else Closed) \<and>
    (\<exists>d. con_do h'' (Read_done (Some (Transport T_eof)) []) (if server then b' else a') = Some d \<and>
       m_session d = Closed \<and> m_ec d = None)"
proof -
  have key: "length (rng 0) = 4" "length (rng' 0) = 4" using assms(4,5) by simp_all
  obtain m a where a: "run_ops (con_do h) [Opened [], Api (Close code reason), Task 0] (new_connection server rng) = Some a"
    "wrote m a" "message_bytes m = wire (sent_frame op_close (\<not> server) (rng 0) (close_payload code reason))"
    "\<not> m_terminal m" "m_is_server a = server" "m_processor a = new_hybi13 server" "\<not> m_was_clean a" "t_reads a = 1"
    using initiator [where rng = rng, OF assms(1) key(1) assms(7), where server = server] assms(3) by (auto simp: same_peer_def simp del: con_do.simps)
  have wire: "t_wire a = wire (sent_frame op_close (\<not> server) (rng 0) (close_payload code reason))"
    using a(2,3) by (simp add: wrote_def)
  obtain m' b where b: "run_ops (con_do h') [Opened [], Read_done None (t_wire a), Task 0] (new_connection (\<not> server) rng') = Some b"
    "message_bytes m' = wire (sent_frame op_close server (rng' 0) (close_payload (echoed_code code) reason))"
    "m_terminal m' = (\<not> server)" "wrote m' b" "m_was_clean b" "t_reads b = 1"
    "m_remote_close_code b = code" "m_remote_close_reason b = reason" "m_is_server b = (\<not> server)"
    unfolding run_opened [OF assms(9)] wire
    using answerer [where rng = rng', OF assms(1,2) key assms(8), where server = "\<not> server"] by (auto simp del: con_do.simps run_ops.simps)
  let ?b = "b\<lparr>t_writes := [], m_send_buffer := [], m_current_msgs := []\<rparr>"
  define b' where "b' = (if server then ?b\<lparr>m_write_flag := False\<rparr> else terminate None ?b)"
  have b': "run_ops (con_do h') [Write_done None] b = Some b'"
    using b(3,4) by (auto simp: b'_def wrote_def handle_write_frame_def Let_def)
  have fields: "m_was_clean b'" "m_remote_close_code b' = code" "m_remote_close_reason b' = reason"
    "m_session b' = (if server then Closing else Closed)" "t_reads b' = 1" "m_ec b' = None" "m_is_server b' = (\<not> server)"
    using b terminate_none [of ?b] by (auto simp: b'_def wrote_def)
  have wire': "t_wire b = wire (sent_frame op_close server (rng' 0) (close_payload (echoed_code code) reason))"
    using b(2,4) by (simp add: wrote_def)
  obtain a' where a': "run_ops (con_do h) [Write_done None, Read_done None (t_wire b)] a = Some a'"
    "m_remote_close_code a' = echoed_code code" "m_remote_close_reason a' = reason" "m_was_clean a'" "m_ec a' = None"
    "m_session a' = (if server then Closed else Closing)" "t_reads a' = 1" "m_is_server a' = server"
    using initiator_done [OF closable_echoed [OF assms(1)] assms(2) key(2) assms(6) a(2,4,5,6,7,8)] unfolding wire' by blast
  have "\<exists>d. con_do h'' (Read_done (Some (Transport T_eof)) []) (if server then b' else a') = Some d \<and>
      m_session d = Closed \<and> m_ec d = None"
    using eof_ends [of b' h''] eof_ends [of a' h''] a' fields by (cases server) simp_all
  then show ?thesis
    using a(1) b(1) b' fields a'
    by (intro exI [of _ a] exI [of _ b] exI [of _ a'] exI [of _ b']) (simp del: run_ops.simps con_do.simps)
qed

theorem closing_handshake_witness:
  "\<exists>a b a' b'. run_ops (con_do no_handlers) [Opened [], Api (Close cs_normal [0x62, 0x79, 0x65]), Task 0]
       (new_connection True (\<lambda>n. [0, 0, 0, 0])) = Some a \<and>
     run_ops (con_do no_handlers) [Opened [], Read_done None (t_wire a), Task 0]
       (new_connection False (\<lambda>n. [1, 2, 3, 4])) = Some b \<and>
     run_ops (con_do no_handlers) [Write_done None, Read_done None (t_wire b)] a = Some a' \<and>
     run_ops (con_do no_handlers) [Write_done None] b = Some b' \<and>
     m_session a' = Closed \<and> m_remote_close_code a' = cs_normal \<and> m_remote_close_reason b' = [0x62, 0x79, 0x65]"
proof -
  have "closable cs_normal [0x62, 0x79, 0x65]" "\<not> terminal cs_normal"
    by (simp_all add: closable_def reserved_def invalid_def terminal_def close_codes close_reason_size_def)
  moreover have "validate [0x62, 0x79, 0x65]" by (simp add: validate_accepts next_state_def)
  moreover have "echoed_code cs_normal = cs_normal" by (simp add: echoed_code_def cs_normal_def cs_no_status_def)
  moreover have "h_open no_handlers = None" by (simp add: no_handlers_def)
  ultimately show ?thesis
    using closing_handshake [of cs_normal "[0x62, 0x79, 0x65]" "\<lambda>n. [0, 0, 0, 0]" "\<lambda>n. [1, 2, 3, 4]" no_handlers
        no_handlers True no_handlers] calling_no_handlers
    by (simp del: run_ops.simps con_do.simps) blast
qed

subsection \<open>Protocol errors\<close>

lemma processor_message_short: "length (processor_message e) \<le> close_reason_size"
  by (cases e) (simp_all add: close_reason_size_def)

lemma to_ws_closable: "closable (to_ws (Processor e)) (error_message (Processor e)) \<and> terminal (to_ws (Processor e))"
  using processor_message_short [of e]
  by (auto simp: to_ws_def closable_def terminal_def reserved_def invalid_def close_codes error_message_def)

lemma protocol_error_read:
  assumes "resting server c" "m_session c = Open" "length (m_rng c 0) = 4" "buf \<noteq> []"
    and "consume (m_processor c) buf = Consumed s n (Some (Processor e))" "t_reads c = 1"
  shows "\<exists>d m. con_do h (Read_done None buf) c = Some d \<and> close_queued m d \<and> m_terminal m \<and> t_reads d = 0 \<and>
    m_processor d = s \<and> m_is_server d = server \<and>
    message_bytes m = wire (sent_frame op_close (\<not> server) (m_rng c 0)
      (close_payload (to_ws (Processor e)) (error_message (Processor e))))"
proof -
  let ?c = "c\<lparr>t_reads := 0, m_processor := s\<rparr>"
  let ?code = "to_ws (Processor e)" and ?reason = "error_message (Processor e)"
  have role: "m_server s = server" using consume_server [OF assms(5)] assms(1) by (simp add: resting_def)
  have rest: "resting server ?c" using assms(1) role by (simp add: resting_def)
  have good: "closable ?code ?reason" "terminal ?code" using to_ws_closable by simp_all
  have choice: "m_local_close_code (choose_close ?code ?reason False ?c) = ?code"
    "m_local_close_reason (choose_close ?code ?reason False ?c) = ?reason"
    using closable_not_blank [OF good(1)] by (simp_all add: choose_close_def)
  have key: "length (m_rng ?c 0) = 4" using assms(3) by simp
  obtain m d where d: "send_close_frame ?code ?reason False True ?c = (None, d)" "close_queued m d" "same_peer ?c d"
    "message_bytes m = wire (sent_frame op_close (\<not> server) (m_rng c 0) (close_payload ?code ?reason))" "m_terminal m"
    using send_close_frame_queued [OF rest key good(1) choice, where ta = True] by auto
  have len: "take (min (length ?reason) close_reason_size) ?reason = ?reason" using good(1) by (simp add: closable_def)
  have "protocol_error (Processor e) ?c = d"
    using d(1) assms(2) good(2) by (simp add: protocol_error_def close_con_def len Let_def)
  then have read: "con_do h (Read_done None buf) c = Some d"
    using assms by (simp add: handle_read_frame_def read_loop.simps [of h "c\<lparr>t_reads := 0\<rparr>"] resting_def)
  then show ?thesis using d rest by (auto simp: same_peer_def resting_def simp del: con_do.simps)
qed


lemmas header_steps = consume_step_def consuming_def copy_basic_header_bytes_def copy_extended_header_bytes_def Let_def
  validate_incoming_basic_header_def get_opcode_def BHB0_OPCODE_def op_is_control_def get_rsv1_def get_rsv2_def
  get_rsv3_def op_reserved_def op_invalid_def get_fin_def get_masked_def op_continuation_def BHB0_RSV1_def
  BHB0_RSV2_def BHB0_RSV3_def BHB0_FIN_def BHB1_MASK_def BHB1_PAYLOAD_def get_header_len_def
  get_masking_key_offset_def get_basic_size_def copy_at_def validate_incoming_extended_header_def
  get_payload_size_def get_jumbo_size_def ntohll_le_word start_message_def payload_size_basic_def
  payload_size_extended_def new_hybi13_def reset_headers_def no_msg_def

lemma reserved_opcode_refused:
  "\<exists>s n. consume (new_hybi13 True) [0x8F, 0x80] = Consumed s n (Some (Processor P_invalid_opcode))"
proof -
  have "\<exists>s. consume_step (new_hybi13 True) [0x8F, 0x80] = Stop s [] (Processor P_invalid_opcode)"
    by (simp add: header_steps)
  then obtain s where "consume_step (new_hybi13 True) [0x8F, 0x80] = Stop s [] (Processor P_invalid_opcode)" by blast
  moreover have "consuming (new_hybi13 True) [0x8F, 0x80]" by (simp add: consuming_def new_hybi13_def reset_headers_def)
  ultimately show ?thesis by (simp add: consume_def consume_from.simps [of "new_hybi13 True"])
qed


subsection \<open>Where closing goes wrong\<close>

text \<open>
  The header of a binary message of 32000001 bytes, one more than the limit: the processor stops in
  the middle of the frame, before the message exists.
\<close>

definition oversized :: "byte list" where
  "oversized = [0x82, 0xFF, 0, 0, 0, 0, 1, 0xE8, 0x48, 1, 0, 0, 0, 0]"

definition header_read :: hybi13 where
  "header_read = (new_hybi13 True)\<lparr>m_state := HEADER_EXTENDED, m_basic_header := \<lparr>b0 = 0x82, b1 = 0xFF\<rparr>, m_bytes_needed := 12\<rparr>"

definition stuck :: hybi13 where
  "stuck = header_read\<lparr>m_state := APPLICATION, m_bytes_needed := 32000001, m_cursor := 12, m_extended_header := drop 2 oversized\<rparr>"

lemma oversized_refused: "consume (new_hybi13 True) oversized = Consumed stuck 14 (Some (Processor P_message_too_big))"
proof -
  have s1: "consume_step (new_hybi13 True) oversized = Go header_read (drop 2 oversized)"
    by (simp add: header_steps oversized_def header_read_def)
  have s2: "consume_step header_read (drop 2 oversized) = Stop stuck [] (Processor P_message_too_big)"
    by (simp add: header_steps oversized_def stuck_def header_read_def max_message_size_def)
  have "consuming (new_hybi13 True) oversized" "consuming header_read (drop 2 oversized)"
    by (simp_all add: consuming_def header_read_def new_hybi13_def reset_headers_def oversized_def)
  then show ?thesis
    using s1 s2 by (simp add: consume_def consume_from.simps [of "new_hybi13 True"] consume_from.simps [of header_read])
      (simp add: oversized_def)
qed

lemma stuck_crashes: "consume stuck (x # xs) = Crashed"
  by (simp add: consume_def consume_from.simps consuming_def stuck_def header_read_def consume_step_def
      application_step_def process_payload_bytes_def current_msg_def new_hybi13_def reset_headers_def no_msg_def)

text \<open>After a protocol error the processor must not see another byte: when the peer of a server has
  announced a message that is too big, and the user then resumes reading (as after a pause), the next
  byte of the peer makes the connection go through a null message pointer.\<close>

theorem resume_reading_crashes:
  "run_ops (con_do no_handlers) [Opened [], Read_done None oversized, Api Resume_reading, Task 1, Read_done None [x]]
     (new_connection True (\<lambda>n. [0, 0, 0, 0])) = None"
proof -
  let ?c = "start_of True (\<lambda>n. [0, 0, 0, 0])"
  have no_open: "h_open no_handlers = None" by (simp add: no_handlers_def)
  have refused: "consume (m_processor ?c) oversized = Consumed stuck 14 (Some (Processor P_message_too_big))"
    by (simp add: oversized_refused)
  have "oversized \<noteq> []" by (simp add: oversized_def)
  then obtain d m where d: "con_do no_handlers (Read_done None oversized) ?c = Some d" "close_queued m d" "t_reads d = 0"
    "m_processor d = stuck"
    using protocol_error_read [OF resting_start _ _ _ refused, of no_handlers] by (auto simp del: con_do.simps)
  let ?d = "d\<lparr>t_posted := [Run_write_frame, Run_resume_reading]\<rparr>"
  let ?e = "d\<lparr>m_read_flag := True, t_reads := 1\<rparr>"
  have "con_do no_handlers (Api Resume_reading) d = Some ?d"
    using d(2) by (simp add: resume_reading_def dispatch_def close_queued_def)
  moreover have "con_do no_handlers (Task 1) ?d = Some (?e\<lparr>t_posted := [Run_write_frame]\<rparr>)"
    using d(3) by (simp add: handle_resume_reading_def read_frame_def async_read_def)
  moreover have "con_do no_handlers (Read_done None [x]) (?e\<lparr>t_posted := [Run_write_frame]\<rparr>) = None"
    using d(2,4) by (simp add: close_queued_def handle_read_frame_def read_loop.simps stuck_crashes)
  ultimately show ?thesis
    unfolding run_opened [OF no_open]
    using d(1) by (simp del: con_do.simps)
qed

text \<open>
  A second close frame. An endpoint that has sent its close frame answers an invalid one of the peer
  with another close frame, and counts the closing as clean.
\<close>

definition close_frames :: "connection \<Rightarrow> nat" where
  "close_frames c = length (filter (\<lambda>m. m_opcode m = op_close) (t_pushed c))"

lemma send_close_frame_pushed:
  assumes "closable lc lr" "length (m_rng c 0) = 4"
    "m_local_close_code (choose_close code reason ack c) = lc" "m_local_close_reason (choose_close code reason ack c) = lr"
  shows "\<exists>m d. send_close_frame code reason ack ta c = (None, d) \<and> t_pushed d = t_pushed c @ [m] \<and>
    m_opcode m = op_close \<and> m_terminal m = ta \<and> m_session d = Closing \<and> m_was_clean d = (ack \<or> m_was_clean c)"
proof -
  define b where "b = choose_close code reason ack c"
  have b: "m_rng b = m_rng c" "m_was_clean b = m_was_clean c" "m_local_close_code b = lc" "m_local_close_reason b = lr"
    "t_pushed b = t_pushed c"
    using assms(3,4) choose_close_peer by (simp_all add: b_def choose_close_def)
  obtain m where m: "prepare_close (m_processor b) (m_rng b 0) lc lr (Some (new_message 0)) = (None, Some m)"
    "m_opcode m = op_close" "\<not> m_terminal m"
    using prepare_close_wire [OF assms(1), of "m_rng b 0" "m_processor b"] assms(2) b(1) by auto
  show ?thesis
    unfolding send_close_frame_def Let_def b_def [symmetric]
    using b m
    by (intro exI [of _ "if ta then m\<lparr>m_terminal := True\<rparr> else m"])
      (simp add: prepare_with_def set_timer_def push_and_write_def write_push_def dispatch_def Let_def)
qed

text \<open>A close frame whose code is not allowed (or whose payload is one byte), arriving while an endpoint is itself
  closing and waits for the answer, makes it send a second close frame after its own, marks the closing as
  clean and, at a server, ends the connection when the second one is written.\<close>

theorem second_close_frame:
  assumes "m_session c = Closing" "m_opcode m = op_close" "snd (extract_code (m_payload m)) \<noteq> None"
    and "length (m_rng c 0) = 4"
  shows "close_frames (deliver h m c) = close_frames c + 1 \<and> m_was_clean (deliver h m c) \<and>
    m_session (deliver h m c) = Closing \<and> m_terminal (last (t_pushed (deliver h m c))) = m_is_server c"
proof -
  let ?c = "c\<lparr>m_remote_close_code := fst (extract_code (m_payload m))\<rparr>"
  let ?reason = "bytes_of ''Invalid close code''"
  have ok: "closable cs_protocol_error ?reason"
    by (simp add: closable_def reserved_def invalid_def close_codes close_reason_size_def)
  have choice: "m_local_close_code (choose_close cs_protocol_error ?reason True ?c) = cs_protocol_error"
    "m_local_close_reason (choose_close cs_protocol_error ?reason True ?c) = ?reason"
    using closable_not_blank [OF ok] by (simp_all add: choose_close_def)
  have key: "length (m_rng ?c 0) = 4" using assms(4) by simp
  have "deliver h m c = snd (send_close_frame cs_protocol_error ?reason True (m_is_server c) ?c)"
    using assms(1,2,3)
    by (cases "extract_code (m_payload m)") (simp add: deliver_close handle_close_frame_def send_close_ack_def Let_def)
  then show ?thesis
    using send_close_frame_pushed [OF ok key choice, where ta = "m_is_server c"]
    by (auto simp: close_frames_def)
qed

theorem second_close_frame_witness:
  "let c = (start_of False (\<lambda>n. [0, 0, 0, 0]))\<lparr>m_session := Closing\<rparr>;
       d = deliver no_handlers (append_payload [0, 0] (new_message op_close)) c
   in close_frames d = close_frames c + 1 \<and> m_was_clean d"
proof -
  have "extract_code [0, 0] = (0, Some (Library W_invalid_close_code))"
    by (simp add: extract_code_def invalid_def reserved_def close_codes)
  then show ?thesis
    using second_close_frame [of "(start_of False (\<lambda>n. [0, 0, 0, 0]))\<lparr>m_session := Closing\<rparr>"
        "append_payload [0, 0] (new_message op_close)" no_handlers]
    by (simp add: append_payload_def new_message_def Let_def)
qed

end
