(* ===== verification/WsHttpText.thy ===== *)
theory WsHttpText
  imports Prelude "HOL-Library.List_Lexorder" "HOL-Library.Sublist"
begin

text \<open>
  The text of HTTP headers (websocketpp/websocket/utilities.hpp, http/constants.hpp, http/parser.hpp): classes
  of characters, comparison without regard to case, searching, tokens, quoted strings, white space, attribute
  and parameter lists. A \<open>std::string\<close> is a list of bytes; an iterator into a range is the rest of the range
  from there, so that two iterators of one range are equal when the rests are. The locale is the one of C.
\<close>

type_synonym str = "byte list"

subsection \<open>Characters\<close>

definition tolower :: "byte \<Rightarrow> byte" where
  "tolower c = (if 65 \<le> c \<and> c \<le> 90 then c + 32 else c)"

definition toupper :: "byte \<Rightarrow> byte" where
  "toupper c = (if 97 \<le> c \<and> c \<le> 122 then c - 32 else c)"

definition to_lower :: "str \<Rightarrow> str" where
  "to_lower s = map tolower s"

definition header_token :: "nat list" where
  "header_token =
    [0,0,0,0,0,0,0,0,0,0,0,0,0,0,0,0, 0,0,0,0,0,0,0,0,0,0,0,0,0,0,0,0,
     0,1,0,1,1,1,1,1,0,0,1,1,0,1,1,0, 1,1,1,1,1,1,1,1,1,1,0,0,0,0,0,0,
     0,1,1,1,1,1,1,1,1,1,1,1,1,1,1,1, 1,1,1,1,1,1,1,1,1,1,1,0,0,0,1,1,
     1,1,1,1,1,1,1,1,1,1,1,1,1,1,1,1, 1,1,1,1,1,1,1,1,1,1,1,0,1,0,1,0,
     0,0,0,0,0,0,0,0,0,0,0,0,0,0,0,0, 0,0,0,0,0,0,0,0,0,0,0,0,0,0,0,0,
     0,0,0,0,0,0,0,0,0,0,0,0,0,0,0,0, 0,0,0,0,0,0,0,0,0,0,0,0,0,0,0,0,
     0,0,0,0,0,0,0,0,0,0,0,0,0,0,0,0, 0,0,0,0,0,0,0,0,0,0,0,0,0,0,0,0,
     0,0,0,0,0,0,0,0,0,0,0,0,0,0,0,0, 0,0,0,0,0,0,0,0,0,0,0,0,0,0,0,0]"

definition is_token_char :: "byte \<Rightarrow> bool" where
  "is_token_char c \<longleftrightarrow> header_token ! unat c = 1"

definition is_not_token_char :: "byte \<Rightarrow> bool" where
  "is_not_token_char c \<longleftrightarrow> header_token ! unat c = 0"

definition is_whitespace_char :: "byte \<Rightarrow> bool" where
  "is_whitespace_char c \<longleftrightarrow> c = 9 \<or> c = 32"

definition is_not_whitespace_char :: "byte \<Rightarrow> bool" where
  "is_not_whitespace_char c \<longleftrightarrow> c \<noteq> 9 \<and> c \<noteq> 32"

subsection \<open>Searching\<close>

text \<open>\<open>std::search\<close>: where the first occurrence begins, or the length of the text.\<close>

fun find_sub :: "(byte \<Rightarrow> byte \<Rightarrow> bool) \<Rightarrow> str \<Rightarrow> str \<Rightarrow> nat" where
  "find_sub eq needle [] = 0"
| "find_sub eq needle (c # cs) =
     (if length needle \<le> length (c # cs) \<and> list_all2 eq (take (length needle) (c # cs)) needle then 0
      else Suc (find_sub eq needle cs))"

definition my_equal :: "byte \<Rightarrow> byte \<Rightarrow> bool" where
  "my_equal a b \<longleftrightarrow> toupper a = toupper b"

definition ci_find_substr :: "str \<Rightarrow> str \<Rightarrow> nat" where
  "ci_find_substr haystack needle = find_sub my_equal needle haystack"

text \<open>\<open>std::map\<close> with the keys in the order of \<open>f\<close> of them; equal keys are those that \<open>f\<close> sends to one.\<close>

definition ci_less :: "str \<Rightarrow> str \<Rightarrow> bool" where
  "ci_less s1 s2 \<longleftrightarrow> to_lower s1 < to_lower s2"

type_synonym ordered = "(str \<times> str) list"

fun map_find :: "(str \<Rightarrow> str \<Rightarrow> bool) \<Rightarrow> str \<Rightarrow> ordered \<Rightarrow> str option" where
  "map_find lt k [] = None"
| "map_find lt k ((k', v) # m) = (if \<not> lt k k' \<and> \<not> lt k' k then Some v else map_find lt k m)"

fun map_set :: "(str \<Rightarrow> str \<Rightarrow> bool) \<Rightarrow> str \<Rightarrow> str \<Rightarrow> ordered \<Rightarrow> ordered" where
  "map_set lt k v [] = [(k, v)]"
| "map_set lt k v ((k', v') # m) =
     (if lt k k' then (k, v) # (k', v') # m
      else if lt k' k then (k', v') # map_set lt k v m
      else (k', v) # m)"

fun map_erase :: "(str \<Rightarrow> str \<Rightarrow> bool) \<Rightarrow> str \<Rightarrow> ordered \<Rightarrow> ordered" where
  "map_erase lt k [] = []"
| "map_erase lt k ((k', v') # m) = (if \<not> lt k k' \<and> \<not> lt k' k then m else (k', v') # map_erase lt k m)"

subsection \<open>Tokens, quoted strings and white space\<close>

definition extract_token :: "str \<Rightarrow> str \<times> str" where
  "extract_token rng = (takeWhile (\<lambda>c. \<not> is_not_token_char c) rng, dropWhile (\<lambda>c. \<not> is_not_token_char c) rng)"

text \<open>The loop over the quotes; \<open>m\<close> is the text from the marker to the cursor.\<close>

fun quoted_loop :: "str \<Rightarrow> str \<Rightarrow> str \<Rightarrow> (str \<times> str) option" where
  "quoted_loop s m [] = None"
| "quoted_loop s m (c # cs) =
     (if c = 34 then
        if m \<noteq> [] \<and> last m = 92 then quoted_loop (s @ butlast m @ [34]) [] cs
        else Some (s @ m, cs)
      else quoted_loop s (m @ [c]) cs)"

definition extract_quoted_string :: "str \<Rightarrow> str \<times> str" where
  "extract_quoted_string rng =
     (if rng = [] then ([], rng)
      else if hd rng \<noteq> 34 then ([], rng)
      else (case quoted_loop [] [] (tl rng) of None \<Rightarrow> ([], rng) | Some r \<Rightarrow> r))"

definition extract_lws :: "str \<Rightarrow> str" where
  "extract_lws rng =
     (let it = (if length rng > 2 \<and> rng ! 0 = 13 \<and> rng ! 1 = 10 \<and> is_whitespace_char (rng ! 2)
                then drop 3 rng else rng)
      in dropWhile (\<lambda>c. \<not> is_not_whitespace_char c) it)"

lemma extract_lws_suffix: "suffix (extract_lws rng) rng"
  unfolding extract_lws_def Let_def
  by (auto intro: suffix_dropWhile suffix_order.trans [OF suffix_dropWhile suffix_drop])

lemma length_extract_lws: "length (extract_lws rng) \<le> length rng"
  using extract_lws_suffix by (rule suffix_length_le)

lemma extract_lws_less: "extract_lws rng \<noteq> rng \<Longrightarrow> length (extract_lws rng) < length rng"
  using extract_lws_suffix [of rng] by (simp add: suffix_length_less strict_suffix_def)

function extract_all_lws :: "str \<Rightarrow> str" where
  "extract_all_lws old_it =
     (let new_it = extract_lws old_it
      in if new_it \<noteq> [] \<and> old_it \<noteq> new_it then extract_all_lws new_it else new_it)"
  by pat_completeness auto
termination by (relation "measure length") (auto intro!: extract_lws_less)

declare extract_all_lws.simps [simp del]

lemma length_extract_all_lws: "length (extract_all_lws rng) \<le> length rng"
proof (induction rng rule: extract_all_lws.induct)
  case (1 r)
  then show ?case
    using length_extract_lws [of r] by (subst extract_all_lws.simps) (auto simp: Let_def intro: le_trans)
qed

lemma length_extract_token: "extract_token r = (t, r') \<Longrightarrow> length r' + length t = length r"
  unfolding extract_token_def by (metis length_append prod.inject takeWhile_dropWhile_id add.commute)

lemma length_quoted_loop: "quoted_loop s m cs = Some (r, cs') \<Longrightarrow> length cs' < length cs"
  by (induction s m cs rule: quoted_loop.induct) (auto split: if_splits)

lemma length_extract_quoted_string: "length (snd (extract_quoted_string r)) \<le> length r"
proof (cases "quoted_loop [] [] (tl r)")
  case (Some p)
  then show ?thesis
    using length_quoted_loop [of "[]" "[]" "tl r" "fst p" "snd p"] by (auto simp: extract_quoted_string_def)
qed (simp add: extract_quoted_string_def)

subsection \<open>Attribute and parameter lists\<close>

text \<open>
  The result is where the reading ended and what was read; an error gives the beginning of the range. The maps
  of attributes are ordered by \<open>std::string\<close>.
\<close>

definition str_less :: "str \<Rightarrow> str \<Rightarrow> bool" where
  "str_less s t \<longleftrightarrow> s < t"

text \<open>One attribute: its name, its value, blank if there is no equals sign, and the rest.\<close>

definition read_attribute :: "str \<Rightarrow> (str \<times> str \<times> str) option" where
  "read_attribute cursor =
     (let cursor = extract_all_lws cursor; (name, cursor) = extract_token cursor
      in if name = [] then None
         else (let cursor = extract_all_lws cursor
               in if cursor = [] \<or> hd cursor \<noteq> 61 then Some (name, [], cursor)
                  else (let cursor = extract_all_lws (tl cursor)
                        in if cursor = [] then None
                           else (let (v, after) = extract_quoted_string cursor
                                 in if after \<noteq> cursor then Some (name, v, after)
                                    else (let (v, after) = extract_token cursor
                                          in if v = [] then None else Some (name, v, after))))))"

lemma read_attribute_less: "read_attribute cursor = Some (name, v, after) \<Longrightarrow> length after < length cursor"
proof -
  assume a: "read_attribute cursor = Some (name, v, after)"
  define c1 where "c1 = extract_all_lws cursor"
  obtain n c2 where t: "extract_token c1 = (n, c2)" by fastforce
  define c3 where "c3 = extract_all_lws c2"
  define c4 where "c4 = extract_all_lws (tl c3)"
  have n: "n \<noteq> []" using a by (auto simp: read_attribute_def t simp flip: c1_def)
  then have "length c2 < length c1" using length_extract_token [OF t] by (cases n) auto
  moreover have "length c1 \<le> length cursor" "length c3 \<le> length c2" "length c4 \<le> length (tl c3)"
    unfolding c1_def c3_def c4_def by (rule length_extract_all_lws)+
  ultimately have less: "length c3 < length cursor" "length c4 < length cursor" by auto
  have "length after \<le> length c3 \<or> length after \<le> length c4"
    using a n length_extract_quoted_string [of c4] length_extract_token [of c4]
    by (auto simp: read_attribute_def t Let_def simp flip: c1_def c3_def c4_def split: if_splits prod.splits)
  with less show ?thesis by linarith
qed

lemma attribute_advances:
  "read_attribute (if first then extract_all_lws cursor else tl (extract_all_lws cursor)) = Some (name, v, after)
   \<Longrightarrow> length after < length cursor"
  using length_extract_all_lws [of cursor] by (auto dest!: read_attribute_less split: if_splits)

function attributes_loop :: "str \<Rightarrow> str \<Rightarrow> bool \<Rightarrow> ordered \<Rightarrow> str \<times> ordered" where
  "attributes_loop begin cursor first attributes =
     (let cursor = extract_all_lws cursor
      in if cursor = [] then (cursor, attributes)
         else if \<not> first \<and> hd cursor \<noteq> 59 then (cursor, attributes)
         else (case read_attribute (if first then cursor else tl cursor) of
                 None \<Rightarrow> (begin, attributes)
               | Some (name, v, cursor) \<Rightarrow> attributes_loop begin cursor False (map_set str_less name v attributes)))"
  by pat_completeness auto
termination by (relation "measure (\<lambda>(begin, cursor, first, attributes). length cursor)") (auto dest: attribute_advances)

declare attributes_loop.simps [simp del]

definition extract_attributes :: "str \<Rightarrow> str \<times> ordered" where
  "extract_attributes begin = attributes_loop begin begin True []"

type_synonym parameter_list = "(str \<times> ordered) list"

text \<open>One parameter with its attributes: \<open>None\<close> is an error; the flag says whether the list may go on.\<close>

definition read_parameter :: "str \<Rightarrow> ((str \<times> ordered) \<times> str) option" where
  "read_parameter cursor =
     (let (parameter_name, cursor) = extract_token cursor
      in if parameter_name = [] then None
         else (let cursor = extract_all_lws cursor
               in if cursor = [] then Some ((parameter_name, []), cursor)
                  else if hd cursor = 59
                  then (let cursor = tl cursor; (acursor, attributes) = extract_attributes cursor
                        in if acursor = cursor then None else Some ((parameter_name, attributes), acursor))
                  else Some ((parameter_name, []), cursor)))"


lemma length_attributes_loop: "length (fst (attributes_loop b cursor first attributes)) \<le> max (length b) (length cursor)"
proof (induction b cursor first attributes rule: attributes_loop.induct)
  case (1 b cursor first attributes)
  let ?c = "extract_all_lws cursor"
  have c: "length ?c \<le> length cursor" by (rule length_extract_all_lws)
  show ?case
  proof (cases "?c = [] \<or> \<not> first \<and> hd ?c \<noteq> 59")
    case True
    then show ?thesis using c by (subst attributes_loop.simps) (auto simp: Let_def)
  next
    case False
    show ?thesis
    proof (cases "read_attribute (if first then ?c else tl ?c)")
      case None
      with False show ?thesis by (subst attributes_loop.simps) (auto simp: Let_def)
    next
      case (Some r)
      obtain name v after where r: "r = (name, v, after)" by (cases r)
      have "length after < length cursor" using Some r attribute_advances by blast
      moreover have "length (fst (attributes_loop b after False (map_set str_less name v attributes))) \<le> max (length b) (length after)"
        using 1 [OF refl _ _ Some r [symmetric] refl] False by blast
      moreover have "attributes_loop b cursor first attributes = attributes_loop b after False (map_set str_less name v attributes)"
        using False Some r by (subst attributes_loop.simps) (auto simp: Let_def)
      ultimately show ?thesis by simp
    qed
  qed
qed

lemma read_parameter_less: "read_parameter cursor = Some (p, after) \<Longrightarrow> length after < length cursor"
proof -
  assume p: "read_parameter cursor = Some (p, after)"
  obtain n c2 where t: "extract_token cursor = (n, c2)" by fastforce
  then have "n \<noteq> []" using p by (auto simp: read_parameter_def)
  then have "length c2 < length cursor" using length_extract_token [OF t] by (cases n) auto
  moreover have "length after \<le> length (extract_all_lws c2)"
    using p t length_attributes_loop [of "tl (extract_all_lws c2)" "tl (extract_all_lws c2)" True "[]"]
    by (auto simp: read_parameter_def extract_attributes_def Let_def split: if_splits prod.splits)
  ultimately show ?thesis using length_extract_all_lws [of c2] by linarith
qed

lemma parameter_advances:
  "read_parameter (extract_all_lws cursor) = Some (p, after) \<Longrightarrow> length (tl (extract_all_lws after)) < length cursor"
  using length_extract_all_lws [of cursor] length_extract_all_lws [of after]
  by (fastforce dest: read_parameter_less)

function parameters_loop :: "str \<Rightarrow> str \<Rightarrow> parameter_list \<Rightarrow> str \<times> parameter_list" where
  "parameters_loop begin cursor parameters =
     (let cursor = extract_all_lws cursor
      in if cursor = [] then (cursor, parameters)
         else (case read_parameter cursor of
                 None \<Rightarrow> (begin, parameters)
               | Some (p, cursor) \<Rightarrow>
                   (let parameters = parameters @ [p]; cursor = extract_all_lws cursor
                    in if cursor = [] \<or> hd cursor \<noteq> 44 then (cursor, parameters)
                       else if tl cursor = [] then (begin, parameters)
                       else parameters_loop begin (tl cursor) parameters)))"
  by pat_completeness auto
termination by (relation "measure (\<lambda>(begin, cursor, parameters). length cursor)") (auto dest: parameter_advances)

declare parameters_loop.simps [simp del]

definition extract_parameters :: "str \<Rightarrow> parameter_list \<Rightarrow> str \<times> parameter_list" where
  "extract_parameters begin parameters =
     (if begin = [] then (begin, parameters) else parameters_loop begin begin parameters)"

text \<open>The flag of the code is set when the reading ended where it began, on an error.\<close>

definition parse_parameter_list :: "str \<Rightarrow> parameter_list \<Rightarrow> bool \<times> parameter_list" where
  "parse_parameter_list input out =
     (if input = [] then (False, out)
      else (let (it, out) = extract_parameters input out in (it = input, out)))"

text \<open>White space at both ends; \<open>None\<close> is a range that ends before it begins.\<close>

definition strip_lws :: "str \<Rightarrow> str option" where
  "strip_lws input =
     (let begin = extract_all_lws input
      in if begin = [] then Some []
         else (let rbegin = extract_all_lws (rev input); i = length input - length begin; j = length rbegin
               in if rbegin = [] then Some []
                  else if j < i then None else Some (drop i (take j input))))"

end
