(* ===== verification/WsHttp.thy ===== *)
theory WsHttp
  imports WsHttpText
begin

text \<open>
  HTTP messages (websocketpp/websocket/http/parser.hpp, request.hpp, response.hpp and their impl/ files): the
  header map, the reading of a request and of a response from the bytes of several reads, and their writing.
  An exception is a value that carries the status of the answer. \<open>Undefined\<close> stands for a use of the line
  buffer after it was freed and for a range that ends before it begins.
\<close>

subsection \<open>Status codes\<close>

definition status_string :: "int \<Rightarrow> string" where
  "status_string c =
     (case map_of
        [(0, ''Uninitialized''), (100, ''Continue''), (101, ''Switching Protocols''), (200, ''OK''),
         (201, ''Created''), (202, ''Accepted''), (203, ''Non Authoritative Information''),
         (204, ''No Content''), (205, ''Reset Content''), (206, ''Partial Content''),
         (300, ''Multiple Choices''), (301, ''Moved Permanently''), (302, ''Found''), (303, ''See Other''),
         (304, ''Not Modified''), (305, ''Use Proxy''), (307, ''Temporary Redirect''), (400, ''Bad Request''),
         (401, ''Unauthorized''), (402, ''Payment Required''), (403, ''Forbidden''), (404, ''Not Found''),
         (405, ''Method Not Allowed''), (406, ''Not Acceptable''), (407, ''Proxy Authentication Required''),
         (408, ''Request Timeout''), (409, ''Conflict''), (410, ''Gone''), (411, ''Length Required''),
         (412, ''Precondition Failed''), (413, ''Request Entity Too Large''), (414, ''Request-URI Too Long''),
         (415, ''Unsupported Media Type''), (416, ''Requested Range Not Satisfiable''),
         (417, ''Expectation Failed''), (418, ''I'' @ [CHR 0x27] @ ''m a teapot''), (426, ''Upgrade Required''),
         (428, ''Precondition Required''), (429, ''Too Many Requests''),
         (431, ''Request Header Fields Too Large''), (500, ''Internal Server Error''),
         (501, ''Not Implemented''), (502, ''Bad Gateway''), (503, ''Service Unavailable''),
         (504, ''Gateway Timeout''), (505, ''HTTP Version Not Supported''), (510, ''Not Extended''),
         (511, ''Network Authentication Required'')] c of
        Some s \<Rightarrow> s
      | None \<Rightarrow> ''Unknown'')"

datatype http_stop = Http_exception int | Undefined

subsection \<open>Numbers\<close>

definition is_digit :: "byte \<Rightarrow> bool" where
  "is_digit c \<longleftrightarrow> 48 \<le> c \<and> c \<le> 57"

definition is_space :: "byte \<Rightarrow> bool" where
  "is_space c \<longleftrightarrow> c = 32 \<or> (9 \<le> c \<and> c \<le> 13)"

definition digits_val :: "str \<Rightarrow> nat" where
  "digits_val ds = foldl (\<lambda>v c. v * 10 + (unat c - 48)) 0 ds"

fun print_nat :: "nat \<Rightarrow> str" where
  "print_nat n = (if n < 10 then [word_of_nat (48 + n)] else print_nat (n div 10) @ [word_of_nat (48 + n mod 10)])"

declare print_nat.simps [simp del]

definition print_int :: "int \<Rightarrow> str" where
  "print_int i = (if i < 0 then 45 # print_nat (nat (- i)) else print_nat (nat i))"

text \<open>An optional sign and the digits after white space; \<open>None\<close> when there is no digit.\<close>

definition signed_digits :: "str \<Rightarrow> (bool \<times> nat) option" where
  "signed_digits s =
     (let s = dropWhile is_space s;
          neg = (s \<noteq> [] \<and> hd s = 45);
          s = (if s \<noteq> [] \<and> (hd s = 43 \<or> hd s = 45) then tl s else s);
          ds = takeWhile is_digit s
      in if ds = [] then None else Some (neg, digits_val ds))"

text \<open>
  \<open>strtoul\<close> in base 10 with 64 bit, and \<open>>>\<close> of a string stream into \<open>int\<close> and \<open>size_t\<close>, where a failure is
  \<open>None\<close>.
\<close>

definition strtoul :: "str \<Rightarrow> nat" where
  "strtoul s =
     (case signed_digits s of
        None \<Rightarrow> 0
      | Some (neg, v) \<Rightarrow>
          if v \<ge> 2 ^ 64 then 2 ^ 64 - 1 else if neg \<and> v \<noteq> 0 then 2 ^ 64 - v else v)"

definition scan_int :: "str \<Rightarrow> int option" where
  "scan_int s =
     (case signed_digits s of
        None \<Rightarrow> None
      | Some (neg, v) \<Rightarrow>
          (let i = (if neg then - int v else int v) in if - (2 ^ 31) \<le> i \<and> i < 2 ^ 31 then Some i else None))"

definition scan_size :: "str \<Rightarrow> nat option" where
  "scan_size s =
     (case signed_digits s of
        None \<Rightarrow> None
      | Some (neg, v) \<Rightarrow>
          if v \<ge> 2 ^ 64 then None else if neg \<and> v \<noteq> 0 then Some (2 ^ 64 - v) else Some v)"

subsection \<open>The base of requests and responses\<close>

datatype body_encoding = Body_unknown | Body_plain | Body_chunked

record http_parser =
  m_version :: str
  m_headers :: ordered
  m_header_bytes :: nat
  m_body :: str
  m_body_bytes_needed :: nat
  m_body_bytes_max :: nat
  m_body_encoding :: body_encoding

definition max_header_size :: nat where "max_header_size = 16000"
definition max_body_size :: nat where "max_body_size = 32000000"

definition header_delimiter :: str where "header_delimiter = [13, 10]"

definition set_version :: "str \<Rightarrow> 'a http_parser_scheme \<Rightarrow> 'a http_parser_scheme" where
  "set_version v p = p\<lparr>m_version := v\<rparr>"

definition get_header :: "'a http_parser_scheme \<Rightarrow> str \<Rightarrow> str" where
  "get_header p key = (case map_find ci_less key (m_headers p) of None \<Rightarrow> [] | Some v \<Rightarrow> v)"

definition get_header_as_plist :: "'a http_parser_scheme \<Rightarrow> str \<Rightarrow> bool \<times> parameter_list" where
  "get_header_as_plist p key =
     (case map_find ci_less key (m_headers p) of
        None \<Rightarrow> (False, [])
      | Some v \<Rightarrow> if v = [] then (False, []) else parse_parameter_list v [])"

definition append_header :: "str \<Rightarrow> str \<Rightarrow> 'a http_parser_scheme \<Rightarrow> http_stop + 'a http_parser_scheme" where
  "append_header key val p =
     (if list_ex is_not_token_char key then Inl (Http_exception 400)
      else if get_header p key = [] then Inr (p\<lparr>m_headers := map_set ci_less key val (m_headers p)\<rparr>)
      else Inr (p\<lparr>m_headers := map_set ci_less key (get_header p key @ bytes_of '', '' @ val) (m_headers p)\<rparr>))"

definition replace_header :: "str \<Rightarrow> str \<Rightarrow> 'a http_parser_scheme \<Rightarrow> 'a http_parser_scheme" where
  "replace_header key val p = p\<lparr>m_headers := map_set ci_less key val (m_headers p)\<rparr>"

definition remove_header :: "str \<Rightarrow> 'a http_parser_scheme \<Rightarrow> 'a http_parser_scheme" where
  "remove_header key p = p\<lparr>m_headers := map_erase ci_less key (m_headers p)\<rparr>"

definition h_content_length :: str where "h_content_length = bytes_of ''Content-Length''"

definition set_body :: "str \<Rightarrow> 'a http_parser_scheme \<Rightarrow> 'a http_parser_scheme" where
  "set_body val p =
     (if val = [] then (remove_header h_content_length p)\<lparr>m_body := []\<rparr>
      else (replace_header h_content_length (print_nat (length val)) p)\<lparr>m_body := val\<rparr>)"

definition prepare_body :: "'a http_parser_scheme \<Rightarrow> http_stop + bool \<times> 'a http_parser_scheme" where
  "prepare_body p =
     (if get_header p h_content_length \<noteq> [] then
        (let p = p\<lparr>m_body_bytes_needed := strtoul (get_header p h_content_length)\<rparr>
         in if m_body_bytes_needed p > m_body_bytes_max p then Inl (Http_exception 413)
            else Inr (True, p\<lparr>m_body_encoding := Body_plain\<rparr>))
      else Inr (False, p))"

definition body_ready :: "'a http_parser_scheme \<Rightarrow> bool" where
  "body_ready p \<longleftrightarrow> m_body_bytes_needed p = 0"

definition process_body :: "str \<Rightarrow> 'a http_parser_scheme \<Rightarrow> http_stop + nat \<times> 'a http_parser_scheme" where
  "process_body buf p =
     (if m_body_encoding p = Body_plain then
        (let processed = min (m_body_bytes_needed p) (length buf)
         in Inr (processed, p\<lparr>m_body := m_body p @ take processed buf,
                              m_body_bytes_needed := m_body_bytes_needed p - processed\<rparr>))
      else Inl (Http_exception 500))"

definition header_separator :: str where "header_separator = [58]"

definition process_header :: "str \<Rightarrow> 'a http_parser_scheme \<Rightarrow> http_stop + 'a http_parser_scheme" where
  "process_header line p =
     (let cursor = find_sub (=) header_separator line
      in if cursor = length line then Inl (Http_exception 400)
         else (case (strip_lws (take cursor line), strip_lws (drop (cursor + 1) line)) of
                 (Some key, Some val) \<Rightarrow> append_header key val p
               | _ \<Rightarrow> Inl Undefined))"

definition raw_headers :: "'a http_parser_scheme \<Rightarrow> str" where
  "raw_headers p = concat (map (\<lambda>(k, v). k @ [58, 32] @ v @ header_delimiter) (m_headers p))"

subsection \<open>Requests\<close>

record http_request = http_parser +
  m_method :: str
  m_uri :: str
  m_buf :: "str option"
  m_ready :: bool

definition new_request :: http_request where
  "new_request =
     \<lparr>m_version = [], m_headers = [], m_header_bytes = 0, m_body = [], m_body_bytes_needed = 0,
      m_body_bytes_max = max_body_size, m_body_encoding = Body_unknown,
      m_method = [], m_uri = [], m_buf = Some [], m_ready = False\<rparr>"

definition set_method :: "str \<Rightarrow> http_request \<Rightarrow> http_stop + http_request" where
  "set_method method r =
     (if list_ex is_not_token_char method then Inl (Http_exception 400) else Inr (r\<lparr>m_method := method\<rparr>))"

definition set_uri :: "str \<Rightarrow> http_request \<Rightarrow> http_request" where
  "set_uri u r = r\<lparr>m_uri := u\<rparr>"

text \<open>The first line; the rest of a list from the first space on, without it.\<close>

definition split_space :: "str \<Rightarrow> (str \<times> str) option" where
  "split_space s =
     (let i = find_sub (=) [32] s in if i = length s then None else Some (take i s, drop (i + 1) s))"

definition process :: "str \<Rightarrow> http_request \<Rightarrow> http_stop + http_request" where
  "process line r =
     (case split_space line of
        None \<Rightarrow> Inl (Http_exception 400)
      | Some (method, line) \<Rightarrow>
          (case set_method method r of
             Inl e \<Rightarrow> Inl e
           | Inr r \<Rightarrow>
               (case split_space line of
                  None \<Rightarrow> Inl (Http_exception 400)
                | Some (u, line) \<Rightarrow> Inr (set_version line (set_uri u r)))))"

text \<open>The end of the headers: \<open>rest\<close> is the buffer from the blank line on, \<open>buf\<close> the read.\<close>

definition h_host :: str where "h_host = bytes_of ''Host''"

definition headers_done :: "str \<Rightarrow> str \<Rightarrow> http_request \<Rightarrow> http_stop + nat \<times> http_request" where
  "headers_done buf rest r =
     (if m_method r = [] \<or> get_header r h_host = [] then Inl (Http_exception 400)
      else (let bytes_processed = length buf + 2 - length rest; r = r\<lparr>m_buf := None\<rparr>
            in case prepare_body r of
                 Inl e \<Rightarrow> Inl e
               | Inr (False, r) \<Rightarrow> Inr (bytes_processed, r\<lparr>m_ready := True\<rparr>)
               | Inr (True, r) \<Rightarrow>
                   (case process_body (drop bytes_processed buf) r of
                      Inl e \<Rightarrow> Inl e
                    | Inr (n, r) \<Rightarrow>
                        Inr (bytes_processed + n, if body_ready r then r\<lparr>m_ready := True\<rparr> else r))))"

lemma find_sub_le: "find_sub eq needle s \<le> length s"
  by (induction s) auto

lemma line_less: "0 < find_sub eq needle s \<Longrightarrow> length s - Suc n < length s"
  using find_sub_le [of eq needle s] by simp

function request_lines :: "str \<Rightarrow> str \<Rightarrow> http_request \<Rightarrow> http_stop + nat \<times> http_request" where
  "request_lines buf rest r =
     (let n = find_sub (=) header_delimiter rest; r = r\<lparr>m_header_bytes := m_header_bytes r + n + 3\<rparr>
      in if m_header_bytes r > max_header_size then Inl (Http_exception 431)
         else if n = length rest
         then Inr (length buf, r\<lparr>m_buf := Some rest, m_header_bytes := m_header_bytes r - length rest\<rparr>)
         else if n = 0 then headers_done buf rest r
         else (case (if m_method r = [] then process (take n rest) r else process_header (take n rest) r) of
                 Inl e \<Rightarrow> Inl e
               | Inr r \<Rightarrow> request_lines buf (drop (n + 2) rest) r))"
  by pat_completeness auto
termination
  by (relation "measure (\<lambda>(buf, rest, r). length rest)")
    (auto simp: Let_def intro: line_less)

declare request_lines.simps [simp del]

definition request_consume :: "str \<Rightarrow> http_request \<Rightarrow> http_stop + nat \<times> http_request" where
  "request_consume buf r =
     (if m_ready r then Inr (0, r)
      else if m_body_bytes_needed r > 0 then
        (case process_body buf r of
           Inl e \<Rightarrow> Inl e
         | Inr (n, r) \<Rightarrow> Inr (n, if body_ready r then r\<lparr>m_ready := True\<rparr> else r))
      else (case m_buf r of
              None \<Rightarrow> Inl Undefined
            | Some b \<Rightarrow> request_lines buf (b @ buf) r))"

definition request_raw :: "http_request \<Rightarrow> str" where
  "request_raw r =
     m_method r @ [32] @ m_uri r @ [32] @ m_version r @ header_delimiter @ raw_headers r @ header_delimiter @ m_body r"

definition request_raw_head :: "http_request \<Rightarrow> str" where
  "request_raw_head r =
     m_method r @ [32] @ m_uri r @ [32] @ m_version r @ header_delimiter @ raw_headers r @ header_delimiter"


subsection \<open>Responses\<close>

datatype response_state = RESPONSE_LINE | HEADERS | BODY | DONE

record http_response = http_parser +
  m_status_msg :: str
  m_read :: nat
  m_rbuf :: "str option"
  m_status_code :: int
  m_rstate :: response_state

definition new_response :: http_response where
  "new_response =
     \<lparr>m_version = [], m_headers = [], m_header_bytes = 0, m_body = [], m_body_bytes_needed = 0,
      m_body_bytes_max = max_body_size, m_body_encoding = Body_unknown,
      m_status_msg = [], m_read = 0, m_rbuf = Some [], m_status_code = 0, m_rstate = RESPONSE_LINE\<rparr>"

definition headers_ready :: "http_response \<Rightarrow> bool" where
  "headers_ready r \<longleftrightarrow> m_rstate r = BODY \<or> m_rstate r = DONE"

definition set_status_msg :: "int \<Rightarrow> str \<Rightarrow> http_response \<Rightarrow> http_response" where
  "set_status_msg code msg r = r\<lparr>m_status_code := code, m_status_msg := msg\<rparr>"

definition set_status :: "int \<Rightarrow> http_response \<Rightarrow> http_response" where
  "set_status code r = set_status_msg code (bytes_of (status_string code)) r"

definition response_process :: "str \<Rightarrow> http_response \<Rightarrow> http_stop + http_response" where
  "response_process line r =
     (case split_space line of
        None \<Rightarrow> Inl (Http_exception 400)
      | Some (version, line) \<Rightarrow>
          (case split_space line of
             None \<Rightarrow> Inl (Http_exception 400)
           | Some (number, msg) \<Rightarrow>
               (case scan_int number of
                  None \<Rightarrow> Inl (Http_exception 400)
                | Some code \<Rightarrow> Inr (set_status_msg code msg (set_version version r)))))"

definition response_body :: "str \<Rightarrow> http_response \<Rightarrow> nat \<times> http_response" where
  "response_body buf r =
     (if m_read r = 0 then (0, r\<lparr>m_rstate := DONE\<rparr>)
      else (let to_read = min (m_read r) (length buf);
                r = (if length buf \<ge> m_read r then r\<lparr>m_rstate := DONE\<rparr> else r)
            in (to_read, r\<lparr>m_body := m_body r @ take to_read buf, m_read := m_read r - to_read\<rparr>)))"

definition response_headers_done :: "str \<Rightarrow> str \<Rightarrow> http_response \<Rightarrow> http_stop + nat \<times> http_response" where
  "response_headers_done buf rest r =
     (if m_rstate r = RESPONSE_LINE then Inl (Http_exception 400)
      else (let len = get_header r h_content_length
            in case (if len = [] then Some 0 else scan_size len) of
                 None \<Rightarrow> Inl (Http_exception 400)
               | Some n \<Rightarrow>
                   (let r = r\<lparr>m_read := n, m_rstate := BODY\<rparr>;
                        bytes_read = length buf + 2 - length rest;
                        (k, r) = (if bytes_read < length buf then response_body (drop bytes_read buf) r else (0, r))
                    in Inr (bytes_read + k, r\<lparr>m_rbuf := None\<rparr>))))"

function response_lines :: "str \<Rightarrow> str \<Rightarrow> http_response \<Rightarrow> http_stop + nat \<times> http_response" where
  "response_lines buf rest r =
     (let n = find_sub (=) header_delimiter rest; r = r\<lparr>m_header_bytes := m_header_bytes r + n + 3\<rparr>
      in if m_header_bytes r > max_header_size then Inl (Http_exception 431)
         else if n = length rest
         then Inr (length buf, r\<lparr>m_rbuf := Some rest, m_read := m_read r + length buf,
                                 m_header_bytes := m_header_bytes r - length rest\<rparr>)
         else if n = 0 then response_headers_done buf rest r
         else (case (if m_rstate r = RESPONSE_LINE
                     then (case response_process (take n rest) r of
                             Inl e \<Rightarrow> Inl e | Inr r \<Rightarrow> Inr (r\<lparr>m_rstate := HEADERS\<rparr>))
                     else process_header (take n rest) r) of
                 Inl e \<Rightarrow> Inl e
               | Inr r \<Rightarrow> response_lines buf (drop (n + 2) rest) r))"
  by pat_completeness auto
termination
  by (relation "measure (\<lambda>(buf, rest, r). length rest)")
    (auto simp: Let_def intro: line_less)

declare response_lines.simps [simp del]

definition response_consume :: "str \<Rightarrow> http_response \<Rightarrow> http_stop + nat \<times> http_response" where
  "response_consume buf r =
     (if m_rstate r = DONE then Inr (0, r)
      else if m_rstate r = BODY then Inr (response_body buf r)
      else (case m_rbuf r of
              None \<Rightarrow> Inl Undefined
            | Some b \<Rightarrow> response_lines buf (b @ buf) r))"

definition response_raw :: "http_response \<Rightarrow> str" where
  "response_raw r =
     m_version r @ [32] @ print_int (m_status_code r) @ [32] @ m_status_msg r @ header_delimiter @ raw_headers r @ header_delimiter @ m_body r"

text \<open>
  The same from a stream that ends. \<open>getline\<close> takes a line with its newline, which the code puts back, or what is
  left before the end of the stream, or fails after 511 characters without a newline; after the last two the loop
  ends.
\<close>

definition istream_buffer :: nat where "istream_buffer = 512"

function response_consume_stream :: "str \<Rightarrow> nat \<Rightarrow> http_response \<Rightarrow> http_stop + nat \<times> http_response" where
  "response_consume_stream s tot r =
     (let i = find_sub (=) [10] s; newline = i < length s \<and> i < istream_buffer;
          n = (if newline then i + 1 else min (length s) (istream_buffer - 1))
      in case response_consume (take n s) r of
           Inl e \<Rightarrow> Inl e
         | Inr (k, r) \<Rightarrow>
             if \<not> newline \<or> k \<noteq> n then Inr (tot + k, r) else response_consume_stream (drop n s) (tot + k) r)"
  by pat_completeness auto
termination
  by (relation "measure (\<lambda>(s, tot, r). length s)") (auto simp: Let_def split: if_splits)

declare response_consume_stream.simps [simp del]

end
