(* ===== verification/WsHttpWire.thy ===== *)
theory WsHttpWire
  imports WsHttp
begin

text \<open>
  What the readers of HTTP messages do with the bytes that the writers make: the maps of headers stay sorted,
  a header line is read as it was written, and a whole request or response is read back, with the bytes that
  follow it left for the caller.
\<close>

subsection \<open>Ordered maps\<close>

definition wf_map :: "(str \<Rightarrow> str \<Rightarrow> bool) \<Rightarrow> ordered \<Rightarrow> bool" where
  "wf_map lt m \<longleftrightarrow> sorted_wrt lt (map fst m)"

text \<open>The contract of the comparison that \<open>std::map\<close> asks for: a strict weak order.\<close>

locale weak_order =
  fixes lt :: "str \<Rightarrow> str \<Rightarrow> bool"
  assumes irrefl: "\<not> lt a a"
    and less_trans: "lt a b \<Longrightarrow> lt b c \<Longrightarrow> lt a c"
    and neither: "\<not> lt a b \<Longrightarrow> \<not> lt b a \<Longrightarrow> lt a c = lt b c \<and> lt c a = lt c b"
begin

lemma asym: "lt a b \<Longrightarrow> \<not> lt b a"
  using irrefl less_trans by blast

lemma set_keys: "set (map fst (map_set lt k v m)) \<subseteq> insert k (set (map fst m))"
  by (induction lt k v m rule: map_set.induct) auto

lemma set_keeps: "wf_map lt m \<Longrightarrow> wf_map lt (map_set lt k v m)"
proof (induction m)
  case (Cons p m)
  obtain k' v' where p: "p = (k', v')" by (cases p)
  consider "lt k k'" | "\<not> lt k k'" "lt k' k" | "\<not> lt k k'" "\<not> lt k' k" by blast
  then show ?case
  proof cases
    case 1
    then show ?thesis using Cons.prems less_trans by (auto simp: wf_map_def p)
  next
    case 2
    then show ?thesis using Cons set_keys [of k v m] by (fastforce simp: wf_map_def p)
  next
    case 3
    then show ?thesis using Cons.prems by (simp add: wf_map_def p)
  qed
qed (simp add: wf_map_def)

lemma erase_subset: "set (map_erase lt k m) \<subseteq> set m"
  by (induction m) (auto split: if_splits)

lemma erase_keeps: "wf_map lt m \<Longrightarrow> wf_map lt (map_erase lt k m)"
proof (induction m)
  case (Cons p m)
  then show ?case using erase_subset [of k m] by (cases p) (fastforce simp: wf_map_def)
qed (simp add: wf_map_def)

text \<open>What is set is found, under every spelling of the key, and nothing else changes.\<close>

lemma find_set:
  assumes "wf_map lt m"
  shows "map_find lt j (map_set lt k v m) = (if \<not> lt j k \<and> \<not> lt k j then Some v else map_find lt j m)"
  using assms
proof (induction m)
  case (Cons p m)
  obtain k' v' where p: "p = (k', v')" by (cases p)
  have m: "wf_map lt m" "\<And>x y. (x, y) \<in> set m \<Longrightarrow> lt k' x"
    using Cons.prems by (auto simp: wf_map_def p)
  consider "lt k k'" | "\<not> lt k k'" "lt k' k" | "\<not> lt k k'" "\<not> lt k' k" by blast
  then show ?case
  proof cases
    case 2
    then show ?thesis using Cons.IH [OF m(1)] neither [of j k' k] by (auto simp: p)
  next
    case 3
    then show ?thesis using neither [of k k' j] by (auto simp: p)
  qed (auto simp: p)
qed simp

lemma find_none: "list_all (\<lambda>p. lt (fst p) k) m \<Longrightarrow> map_find lt k m = None"
  by (induction m) auto

lemma set_last: "list_all (\<lambda>p. lt (fst p) k) m \<Longrightarrow> map_set lt k v m = m @ [(k, v)]"
  by (induction m) (auto dest: asym)

end

interpretation ci: weak_order ci_less
  by unfold_locales (auto simp: ci_less_def)

interpretation st: weak_order str_less
  by unfold_locales (auto simp: str_less_def)

subsection \<open>White space and lines\<close>

abbreviation lws_char :: "byte \<Rightarrow> bool" where
  "lws_char c \<equiv> \<not> is_not_whitespace_char c"

lemma extract_lws_plain: "\<not> prefix header_delimiter s \<Longrightarrow> extract_lws s = dropWhile lws_char s"
  by (cases s; cases "tl s") (auto simp: extract_lws_def Let_def header_delimiter_def)

lemma dropWhile_fix: "dropWhile P (dropWhile P s) = dropWhile P s"
  by (induction s) auto

lemma all_lws_plain: "\<not> sublist header_delimiter s \<Longrightarrow> extract_all_lws s = dropWhile lws_char s"
proof -
  assume a: "\<not> sublist header_delimiter s"
  have "suffix (dropWhile lws_char s) s" by (rule suffix_dropWhile)
  then have "\<not> prefix header_delimiter (dropWhile lws_char s)" "\<not> prefix header_delimiter s"
    using a by (meson prefix_imp_sublist sublist_order.order.trans suffix_imp_sublist)+
  then show ?thesis
    by (subst extract_all_lws.simps, subst extract_all_lws.simps)
      (simp add: Let_def extract_lws_plain dropWhile_fix)
qed

text \<open>Reading white space ends at the end or at another character.\<close>

lemma all_lws_hd: "extract_all_lws s = [] \<or> \<not> lws_char (hd (extract_all_lws s))"
proof (induction s rule: extract_all_lws.induct)
  case (1 s)
  show ?case
  proof (cases "extract_lws s \<noteq> [] \<and> s \<noteq> extract_lws s")
    case True
    with 1 [OF refl] show ?thesis by (subst (1 2) extract_all_lws.simps) (simp add: Let_def)
  next
    case False
    then have "extract_all_lws s = extract_lws s" by (subst extract_all_lws.simps) (auto simp: Let_def)
    then show ?thesis unfolding extract_lws_def Let_def by (metis hd_dropWhile)
  qed
qed

lemma all_lws_suffix: "suffix (extract_all_lws s) s"
proof (induction s rule: extract_all_lws.induct)
  case (1 s)
  then show ?case
    using extract_lws_suffix [of s] suffix_order.trans
    by (subst extract_all_lws.simps) (auto simp: Let_def)
qed

text \<open>In a line the range never ends before it begins.\<close>

lemma strip_lws_line: "\<not> sublist header_delimiter s \<Longrightarrow> strip_lws s \<noteq> None"
proof -
  assume a: "\<not> sublist header_delimiter s"
  let ?w = "takeWhile lws_char s" and ?b = "dropWhile lws_char s" and ?r = "extract_all_lws (rev s)"
  have s: "rev s = rev ?b @ rev ?w" by (metis rev_append takeWhile_dropWhile_id)
  have w: "length s - length ?b = length ?w" by (metis add_diff_cancel_right' length_append takeWhile_dropWhile_id)
  have "?r = [] \<or> length ?w \<le> length ?r"
  proof (rule ccontr)
    assume n: "\<not> (?r = [] \<or> length ?w \<le> length ?r)"
    then have "suffix ?r (rev ?w)"
      using all_lws_suffix [of "rev s"] s by (metis nat_le_linear length_rev suffix_length_suffix suffix_appendI suffix_order.refl)
    then have "hd ?r \<in> set ?w" using n by (metis hd_in_set set_mono_suffix set_rev subsetD)
    then have "lws_char (hd ?r)" by (rule set_takeWhileD [THEN conjunct2])
    with all_lws_hd [of "rev s"] n show False by blast
  qed
  then show ?thesis
    using w by (auto simp: strip_lws_def Let_def all_lws_plain [OF a])
qed


lemma no_cr: "13 \<notin> set s \<Longrightarrow> \<not> sublist header_delimiter s"
  by (auto simp: sublist_def header_delimiter_def)

lemma list_all2_eq_iff: "list_all2 (=) xs ys \<longleftrightarrow> xs = ys"
  by (simp add: list.rel_eq)

lemma find_crlf: "13 \<notin> set line \<Longrightarrow> find_sub (=) header_delimiter (line @ header_delimiter @ rest) = length line"
  by (induction line) (auto simp: header_delimiter_def list_all2_eq_iff)

lemma find_crlf_hd: "find_sub (=) header_delimiter (header_delimiter @ rest) = 0"
  using find_crlf [of "[]"] by simp

lemma find_char: "c \<notin> set s \<Longrightarrow> find_sub (=) [c] (s @ c # rest) = length s"
  by (induction s) (auto simp: list_all2_eq_iff)

lemma find_char_none: "c \<notin> set s \<Longrightarrow> find_sub (=) [c] s = length s"
  by (induction s) (auto simp: list_all2_eq_iff)

definition trimmed :: "str \<Rightarrow> bool" where
  "trimmed s \<longleftrightarrow> 13 \<notin> set s \<and> (s = [] \<or> \<not> lws_char (hd s) \<and> \<not> lws_char (last s))"

lemma strip_clean:
  assumes "trimmed s"
  shows "strip_lws s = Some s" "strip_lws (32 # s) = Some s"
proof -
  have cr: "13 \<notin> set s" "13 \<notin> set (32 # s)" "13 \<notin> set (rev s)" "13 \<notin> set (rev (32 # s))"
    using assms by (auto simp: trimmed_def)
  have b: "lws_char 32" by (simp add: is_not_whitespace_char_def)
  show "strip_lws s = Some s"
  proof (cases "s = []")
    case False
    with assms have "dropWhile lws_char s = s" "dropWhile lws_char (rev s) = rev s"
      by (simp_all add: trimmed_def dropWhile_eq_self_iff hd_rev)
    with False cr show ?thesis by (simp add: strip_lws_def Let_def all_lws_plain no_cr)
  qed (use cr b in \<open>simp add: strip_lws_def Let_def all_lws_plain no_cr\<close>)
  show "strip_lws (32 # s) = Some s"
  proof (cases "s = []")
    case False
    with assms have "dropWhile lws_char s = s" "dropWhile lws_char (rev s @ [32]) = rev s @ [32]"
      by (simp_all add: trimmed_def dropWhile_eq_self_iff hd_rev)
    with False cr b show ?thesis by (simp add: strip_lws_def Let_def all_lws_plain no_cr)
  qed (use cr b in \<open>simp add: strip_lws_def Let_def all_lws_plain no_cr\<close>)
qed

definition token :: "str \<Rightarrow> bool" where
  "token s \<longleftrightarrow> \<not> list_ex is_not_token_char s"

lemma not_token: "c \<in> {58, 32, 13, 9} \<Longrightarrow> is_not_token_char c"
  by (auto simp: is_not_token_char_def header_token_def)

lemma token_chars: "token s \<Longrightarrow> c \<in> {58, 32, 13, 9} \<Longrightarrow> c \<notin> set s"
  using not_token by (auto simp: token_def list_ex_iff)

lemma token_clean: "token s \<Longrightarrow> trimmed s"
proof -
  assume t: "token s"
  have "\<not> lws_char c" if "c \<in> set s" for c
    using token_chars [OF t, of 32] token_chars [OF t, of 9] that by (auto simp: is_not_whitespace_char_def)
  then show ?thesis using token_chars [OF t, of 13] by (cases "s = []") (simp_all add: trimmed_def)
qed

text \<open>A header line, read as it is written.\<close>

definition header_line :: "str \<times> str \<Rightarrow> str" where
  "header_line kv = fst kv @ [58, 32] @ snd kv"

definition header_ok :: "str \<times> str \<Rightarrow> bool" where
  "header_ok kv \<longleftrightarrow> token (fst kv) \<and> trimmed (snd kv)"

lemma read_header_line:
  assumes ok: "header_ok (k, v)" and less: "list_all (\<lambda>p. ci_less (fst p) k) (m_headers p)"
  shows "process_header (header_line (k, v)) p = Inr (p\<lparr>m_headers := m_headers p @ [(k, v)]\<rparr>)"
proof -
  have k: "token k" and v: "trimmed v" using ok by (simp_all add: header_ok_def)
  have c: "find_sub (=) header_separator (header_line (k, v)) = length k"
    using find_char [of 58 k "32 # v"] token_chars [OF k, of 58] by (simp add: header_line_def header_separator_def)
  have "strip_lws (take (length k) (header_line (k, v))) = Some k"
    "strip_lws (drop (length k + 1) (header_line (k, v))) = Some v"
    using strip_clean [OF v] strip_clean [OF token_clean [OF k]] by (simp_all add: header_line_def)
  moreover have "length k \<noteq> length (header_line (k, v))" by (simp add: header_line_def)
  ultimately show ?thesis
    using k ci.find_none [OF less] ci.set_last [OF less]
    by (simp add: process_header_def c append_header_def get_header_def token_def del: One_nat_def)
qed

lemma header_line_cr: "header_ok kv \<Longrightarrow> 13 \<notin> set (header_line kv)"
  using token_chars [of "fst kv" 13] by (auto simp: header_ok_def header_line_def trimmed_def)


subsection \<open>A section of headers\<close>

text \<open>
  What the readers of requests and of responses have in common: they take the buffer apart into lines, count
  the bytes of each with three for its end, and give a header line to the base class.
\<close>

definition lines_size :: "str list \<Rightarrow> nat" where
  "lines_size ls = sum_list (map (\<lambda>l. length l + 3) ls)"

lemma lines_size_simps [simp]: "lines_size [] = 0" "lines_size (l # ls) = length l + 3 + lines_size ls"
  by (simp_all add: lines_size_def)

locale header_section =
  fixes read_lines :: "str \<Rightarrow> str \<Rightarrow> 'a http_parser_scheme \<Rightarrow> http_stop + nat \<times> 'a http_parser_scheme"
    and in_headers :: "'a http_parser_scheme \<Rightarrow> bool"
  assumes header_step: "in_headers r \<Longrightarrow> line \<noteq> [] \<Longrightarrow> 13 \<notin> set line \<Longrightarrow>
      m_header_bytes r + length line + 3 \<le> max_header_size \<Longrightarrow>
      process_header line (r\<lparr>m_header_bytes := m_header_bytes r + length line + 3\<rparr>) = Inr r' \<Longrightarrow>
      read_lines buf (line @ header_delimiter @ rest) r = read_lines buf rest r'"
    and only_headers: "in_headers r \<Longrightarrow> in_headers (r\<lparr>m_header_bytes := n, m_headers := hs\<rparr>)"
begin

lemma headers_read:
  "in_headers r \<Longrightarrow> list_all header_ok hs \<Longrightarrow> wf_map ci_less (m_headers r @ hs) \<Longrightarrow>
   m_header_bytes r + lines_size (map header_line hs) \<le> max_header_size \<Longrightarrow>
   read_lines buf (concat (map (\<lambda>h. header_line h @ header_delimiter) hs) @ rest) r =
   read_lines buf rest (r\<lparr>m_header_bytes := m_header_bytes r + lines_size (map header_line hs),
                          m_headers := m_headers r @ hs\<rparr>)"
proof (induction hs arbitrary: r)
  case (Cons h hs)
  obtain k v where h: "h = (k, v)" by (cases h)
  let ?n = "m_header_bytes r + length (header_line h) + 3"
  let ?r = "r\<lparr>m_header_bytes := ?n\<rparr>"
  have "list_all (\<lambda>p. ci_less (fst p) k) (m_headers ?r)"
    using Cons.prems(3) by (auto simp: wf_map_def h list_all_iff sorted_wrt_append)
  with Cons.prems(2) have "process_header (header_line h) ?r = Inr (?r\<lparr>m_headers := m_headers r @ [h]\<rparr>)"
    using read_header_line [of k v ?r] by (simp add: h)
  moreover have "header_line h \<noteq> []" by (simp add: header_line_def)
  moreover have "13 \<notin> set (header_line h)" using Cons.prems(2) header_line_cr by simp
  ultimately have "read_lines buf (header_line h @ header_delimiter @ rest') r = read_lines buf rest' (?r\<lparr>m_headers := m_headers r @ [h]\<rparr>)" for rest'
    using Cons.prems(1,4) by (intro header_step) simp_all
  moreover have "in_headers (?r\<lparr>m_headers := m_headers r @ [h]\<rparr>)" using only_headers [OF Cons.prems(1)] .
  ultimately show ?case using Cons.prems Cons.IH [of "?r\<lparr>m_headers := m_headers r @ [h]\<rparr>"] by (simp add: ac_simps)
qed simp

end

lemma crlf_nonempty [simp]: "header_delimiter \<noteq> []" "length header_delimiter = 2" "header_delimiter = [] \<longleftrightarrow> False"
  by (simp_all add: header_delimiter_def)

lemma find_line:
  assumes "13 \<notin> set line"
  shows "find_sub (=) header_delimiter (line @ header_delimiter @ rest) = length line" "length line \<noteq> length (line @ header_delimiter @ rest)"
    "take (length line) (line @ header_delimiter @ rest) = line" "drop (length line + 2) (line @ header_delimiter @ rest) = rest"
  using find_crlf [OF assms] by (simp_all add: header_delimiter_def)

interpretation req: header_section request_lines "\<lambda>r. m_method r \<noteq> []"
proof
  fix r r' :: http_request and line buf rest
  assume a: "m_method r \<noteq> []" "line \<noteq> []" "13 \<notin> set line" "m_header_bytes r + length line + 3 \<le> max_header_size"
    "process_header line (r\<lparr>m_header_bytes := m_header_bytes r + length line + 3\<rparr>) = Inr r'"
  then show "request_lines buf (line @ header_delimiter @ rest) r = request_lines buf rest r'"
    using find_line [OF a(3), of rest] by (subst request_lines.simps) (simp add: Let_def del: take_append drop_append append_assoc)
qed simp

interpretation res: header_section response_lines "\<lambda>r. m_rstate r = HEADERS"
proof
  fix r r' :: http_response and line buf rest
  assume a: "m_rstate r = HEADERS" "line \<noteq> []" "13 \<notin> set line" "m_header_bytes r + length line + 3 \<le> max_header_size"
    "process_header line (r\<lparr>m_header_bytes := m_header_bytes r + length line + 3\<rparr>) = Inr r'"
  then show "response_lines buf (line @ header_delimiter @ rest) r = response_lines buf rest r'"
    using find_line [OF a(3), of rest] by (subst response_lines.simps) (simp add: Let_def del: take_append drop_append append_assoc)
qed simp

subsection \<open>A request is read back\<close>

definition request_line :: "http_request \<Rightarrow> str" where
  "request_line r = m_method r @ [32] @ m_uri r @ [32] @ m_version r"

text \<open>
  A request that can be written on the wire: a method that is a token, a URI without space, no carriage return,
  headers that are trimmed and in the order of the map, a host, a body that the header announces, and a head
  that is not too long.
\<close>

definition writable_headers :: "'a http_parser_scheme \<Rightarrow> bool" where
  "writable_headers p \<longleftrightarrow> wf_map ci_less (m_headers p) \<and> list_all header_ok (m_headers p)"

definition writable_request :: "http_request \<Rightarrow> bool" where
  "writable_request r \<longleftrightarrow>
     m_method r \<noteq> [] \<and> token (m_method r) \<and> 32 \<notin> set (m_uri r) \<and> 13 \<notin> set (m_uri r) \<and> 13 \<notin> set (m_version r) \<and>
     writable_headers r \<and> get_header r h_host \<noteq> [] \<and>
     (if get_header r h_content_length = [] then m_body r = []
      else strtoul (get_header r h_content_length) = length (m_body r) \<and> length (m_body r) \<le> max_body_size) \<and>
     lines_size (request_line r # map header_line (m_headers r)) + 3 \<le> max_header_size"

lemma raw_headers_lines: "raw_headers p = concat (map (\<lambda>h. header_line h @ header_delimiter) (m_headers p))"
  by (simp add: raw_headers_def header_line_def case_prod_unfold)

lemma split_space: "32 \<notin> set s \<Longrightarrow> split_space (s @ 32 # t) = Some (s, t)"
  using find_char [of 32 s t] by (simp add: split_space_def Let_def)

lemma read_request_line:
  assumes "token (m_method r)" "32 \<notin> set (m_uri r)"
  shows "process (request_line r) q = Inr (q\<lparr>m_method := m_method r, m_uri := m_uri r, m_version := m_version r\<rparr>)"
proof -
  have "32 \<notin> set (m_method r)" using token_chars [OF assms(1), of 32] by simp
  then have "split_space (request_line r) = Some (m_method r, m_uri r @ 32 # m_version r)"
    using split_space [of "m_method r"] by (simp add: request_line_def)
  then show ?thesis
    using assms split_space [of "m_uri r"]
    by (simp add: process_def set_method_def set_uri_def set_version_def token_def)
qed

lemma get_header_cong: "m_headers p = m_headers q \<Longrightarrow> get_header p k = get_header q k"
  by (simp add: get_header_def)

lemma request_blank_line:
  assumes "m_header_bytes r + 3 \<le> max_header_size"
  shows "request_lines buf (header_delimiter @ rest) r = headers_done buf (header_delimiter @ rest) (r\<lparr>m_header_bytes := m_header_bytes r + 3\<rparr>)"
  using assms find_crlf_hd [of rest] by (subst request_lines.simps) (simp add: Let_def)

lemma request_head_read:
  assumes w: "writable_request r"
  shows "request_lines buf (request_line r @ header_delimiter @ raw_headers r @ header_delimiter @ rest) new_request =
    headers_done buf (header_delimiter @ rest)
      (new_request\<lparr>m_method := m_method r, m_uri := m_uri r, m_version := m_version r, m_headers := m_headers r,
         m_header_bytes := lines_size (request_line r # map header_line (m_headers r)) + 3\<rparr>)"
proof -
  let ?r1 = "new_request\<lparr>m_header_bytes := length (request_line r) + 3, m_method := m_method r,
     m_uri := m_uri r, m_version := m_version r\<rparr>"
  have cr: "13 \<notin> set (request_line r)"
    using w token_chars [of "m_method r" 13] by (auto simp: writable_request_def request_line_def)
  have fits: "lines_size (request_line r # map header_line (m_headers r)) + 3 \<le> max_header_size"
    using w unfolding writable_request_def by simp
  have line: "request_lines buf (request_line r @ header_delimiter @ rest') new_request = request_lines buf rest' ?r1" for rest'
    using find_line [OF cr, of rest'] fits w read_request_line [of r]
    by (subst request_lines.simps)
      (simp add: Let_def new_request_def writable_request_def request_line_def
         del: take_append drop_append append_assoc append_Cons)
  have "request_lines buf (concat (map (\<lambda>h. header_line h @ header_delimiter) (m_headers r)) @ header_delimiter @ rest) ?r1
      = request_lines buf (header_delimiter @ rest) (?r1\<lparr>m_header_bytes := m_header_bytes ?r1 + lines_size (map header_line (m_headers r)),
          m_headers := m_headers ?r1 @ m_headers r\<rparr>)"
    using w fits by (intro req.headers_read) (simp_all add: writable_request_def writable_headers_def new_request_def)
  then show ?thesis
    unfolding raw_headers_lines line using fits by (simp add: request_blank_line new_request_def ac_simps)
qed


lemma headers_done_read:
  assumes q: "m_method q \<noteq> []" "get_header q h_host \<noteq> []" "m_body q = []" "m_body_bytes_needed q = 0"
      "m_body_bytes_max q = max_body_size"
    and body: "if get_header q h_content_length = [] then b = []
      else strtoul (get_header q h_content_length) = length b \<and> length b \<le> max_body_size"
  shows "\<exists>q'. headers_done (head @ header_delimiter @ b @ extra) (header_delimiter @ b @ extra) q = Inr (length head + 2 + length b, q')
    \<and> m_ready q' \<and> m_method q' = m_method q \<and> m_uri q' = m_uri q \<and> m_version q' = m_version q
    \<and> m_headers q' = m_headers q \<and> m_body q' = b"
proof -
  have n: "length (head @ header_delimiter @ b @ extra) + 2 - length (header_delimiter @ b @ extra) = length head + 2" by simp
  have d: "drop (length head + 2) (head @ header_delimiter @ b @ extra) = b @ extra" by (simp add: header_delimiter_def)
  have h: "get_header (q\<lparr>m_buf := None\<rparr>) k = get_header q k"
    "get_header (q\<lparr>m_buf := None, m_body_bytes_needed := i\<rparr>) k = get_header q k" for k i
    by (simp_all add: get_header_def)
  show ?thesis
  proof (cases "get_header q h_content_length = []")
    case True
    then show ?thesis
      unfolding headers_done_def n Let_def using q body by (simp add: h prepare_body_def)
  next
    case False
    then have "strtoul (get_header q h_content_length) = length b" "length b \<le> max_body_size" using body by simp_all
    with False show ?thesis
      unfolding headers_done_def n Let_def d using q by (simp add: h prepare_body_def process_body_def body_ready_def Let_def)
  qed
qed

lemma request_read_back:
  assumes "writable_request r"
  shows "\<exists>q. request_consume (request_raw r @ extra) new_request = Inr (length (request_raw r), q) \<and> m_ready q
    \<and> m_method q = m_method r \<and> m_uri q = m_uri r \<and> m_version q = m_version r \<and> m_headers q = m_headers r
    \<and> m_body q = m_body r"
proof -
  let ?q = "new_request\<lparr>m_method := m_method r, m_uri := m_uri r, m_version := m_version r, m_headers := m_headers r,
         m_header_bytes := lines_size (request_line r # map header_line (m_headers r)) + 3\<rparr>"
  let ?head = "request_line r @ header_delimiter @ raw_headers r"
  have raw: "request_raw r = ?head @ header_delimiter @ m_body r" by (simp add: request_raw_def request_line_def)
  have "\<exists>q. headers_done (?head @ header_delimiter @ m_body r @ extra) (header_delimiter @ m_body r @ extra) ?q
      = Inr (length ?head + 2 + length (m_body r), q)
    \<and> m_ready q \<and> m_method q = m_method ?q \<and> m_uri q = m_uri ?q \<and> m_version q = m_version ?q
    \<and> m_headers q = m_headers ?q \<and> m_body q = m_body r"
    by (rule headers_done_read) (use assms in \<open>simp_all add: get_header_def writable_request_def new_request_def cong: if_cong\<close>)
  moreover have "request_consume (request_raw r @ extra) new_request
      = request_lines (?head @ header_delimiter @ m_body r @ extra) (request_line r @ header_delimiter @ raw_headers r @ header_delimiter @ (m_body r @ extra)) new_request"
    unfolding raw request_consume_def by (simp add: new_request_def)
  ultimately show ?thesis using request_head_read [OF assms] by (simp add: raw add.assoc)
qed

text \<open>
  C4. A request is read back: the reader, given the bytes that the writer makes of a request and whatever
  follows them, takes exactly those bytes, is ready, and has the method, the URI, the version, the headers and
  the body of the request.
\<close>

theorem request_round_trip:
  assumes "writable_request r"
  shows "\<exists>q. request_consume (request_raw r @ extra) new_request = Inr (length (request_raw r), q) \<and> m_ready q
    \<and> m_method q = m_method r \<and> m_uri q = m_uri r \<and> m_version q = m_version r \<and> m_headers q = m_headers r
    \<and> m_body q = m_body r"
  using request_read_back [OF assms] .

definition sample_request :: http_request where
  "sample_request = new_request\<lparr>m_method := bytes_of ''GET'', m_uri := bytes_of ''/live'', m_version := bytes_of ''HTTP/1.1'',
     m_headers := [(bytes_of ''Content-Length'', bytes_of ''2''), (bytes_of ''Host'', bytes_of ''cam:9002'')], m_body := [1, 2]\<rparr>"

lemma writable_sample: "writable_request sample_request"
  by (simp add: writable_request_def sample_request_def writable_headers_def new_request_def wf_map_def header_ok_def
      token_def trimmed_def bytes_of_def is_not_token_char_def header_token_def is_not_whitespace_char_def ci_less_def
      to_lower_def tolower_def get_header_def h_host_def h_content_length_def strtoul_def signed_digits_def is_space_def
      is_digit_def digits_val_def request_line_def header_line_def max_header_size_def max_body_size_def Let_def)

lemma request_round_trip_witness:
  "\<exists>q. request_consume (request_raw sample_request @ [129, 0]) new_request = Inr (length (request_raw sample_request), q)
    \<and> m_ready q \<and> m_method q = m_method sample_request \<and> m_uri q = m_uri sample_request
    \<and> m_version q = m_version sample_request \<and> m_headers q = m_headers sample_request \<and> m_body q = m_body sample_request"
  by (rule request_round_trip [OF writable_sample])

subsection \<open>A response is read back\<close>

lemma print_nat_small: "n < 10 \<Longrightarrow> print_nat n = [word_of_nat (48 + n)]"
  by (simp add: print_nat.simps)

lemma digit_byte: "d < 10 \<Longrightarrow> is_digit (word_of_nat (48 + d)) \<and> unat (word_of_nat (48 + d) :: byte) - 48 = d"
proof -
  assume "d < 10"
  then have "unat (word_of_nat (48 + d) :: byte) = 48 + d" by (simp add: unat_of_nat del: of_nat_add)
  with \<open>d < 10\<close> show ?thesis by (simp add: is_digit_def word_le_nat_alt del: of_nat_add)
qed

lemma print_nat_digits: "list_all is_digit (print_nat n) \<and> print_nat n \<noteq> [] \<and> digits_val (print_nat n) = n"
proof (induction n rule: print_nat.induct)
  case (1 n)
  show ?case
  proof (cases "n < 10")
    case True
    then show ?thesis using digit_byte [OF True] by (simp add: print_nat_small digits_val_def)
  next
    case False
    have "n mod 10 < 10" by simp
    from digit_byte [OF this] 1 [OF False] False show ?thesis
      by (subst (1 2 3) print_nat.simps) (simp add: digits_val_def)
  qed
qed

lemma digit_chars: "is_digit c \<Longrightarrow> \<not> is_space c \<and> c \<noteq> 43 \<and> c \<noteq> 45 \<and> c \<noteq> 32 \<and> c \<noteq> 13"
  by (auto simp: is_digit_def is_space_def word_le_nat_alt)

lemma signed_digits_print: "signed_digits (print_nat n) = Some (False, n)"
proof -
  obtain d ds where d: "print_nat n = d # ds" using print_nat_digits [of n] by (cases "print_nat n") auto
  have all: "list_all is_digit (d # ds)" "digits_val (d # ds) = n" using print_nat_digits [of n] d by simp_all
  then have t: "takeWhile is_digit (d # ds) = d # ds"
    by (simp only: takeWhile_eq_all_conv list_all_iff)
  show ?thesis using all digit_chars [of d] by (simp add: d t signed_digits_def Let_def del: takeWhile.simps)
qed

lemma scan_print_int: "0 \<le> i \<Longrightarrow> i < 2 ^ 31 \<Longrightarrow> scan_int (print_int i) = Some i"
  by (simp add: scan_int_def print_int_def signed_digits_print)


definition response_line :: "http_response \<Rightarrow> str" where
  "response_line r = m_version r @ [32] @ print_int (m_status_code r) @ [32] @ m_status_msg r"

definition writable_response :: "http_response \<Rightarrow> bool" where
  "writable_response r \<longleftrightarrow>
     32 \<notin> set (m_version r) \<and> 13 \<notin> set (m_version r) \<and> 13 \<notin> set (m_status_msg r) \<and>
     0 \<le> m_status_code r \<and> m_status_code r < 2 ^ 31 \<and> writable_headers r \<and>
     (if get_header r h_content_length = [] then m_body r = []
      else scan_size (get_header r h_content_length) = Some (length (m_body r))) \<and>
     lines_size (response_line r # map header_line (m_headers r)) + 3 \<le> max_header_size"

lemma print_int_chars: "0 \<le> i \<Longrightarrow> c \<in> {13, 32} \<Longrightarrow> c \<notin> set (print_int i)"
  using print_nat_digits [of "nat i"] digit_chars by (auto simp: print_int_def list_all_iff)

lemma read_response_line:
  assumes "32 \<notin> set (m_version r)" "0 \<le> m_status_code r" "m_status_code r < 2 ^ 31"
  shows "response_process (response_line r) q
    = Inr (q\<lparr>m_version := m_version r, m_status_code := m_status_code r, m_status_msg := m_status_msg r\<rparr>)"
proof -
  have "split_space (response_line r) = Some (m_version r, print_int (m_status_code r) @ 32 # m_status_msg r)"
    using split_space [OF assms(1)] by (simp add: response_line_def)
  then show ?thesis
    using assms split_space [OF print_int_chars [OF assms(2), of 32]]
    by (simp add: response_process_def set_status_msg_def set_version_def scan_print_int)
qed

lemma response_blank_line:
  assumes "m_header_bytes r + 3 \<le> max_header_size"
  shows "response_lines buf (header_delimiter @ rest) r
    = response_headers_done buf (header_delimiter @ rest) (r\<lparr>m_header_bytes := m_header_bytes r + 3\<rparr>)"
  using assms find_crlf_hd [of rest] by (subst response_lines.simps) (simp add: Let_def)

lemma response_head_read:
  assumes w: "writable_response r"
  shows "response_lines buf (response_line r @ header_delimiter @ raw_headers r @ header_delimiter @ rest) new_response =
    response_headers_done buf (header_delimiter @ rest)
      (new_response\<lparr>m_version := m_version r, m_status_code := m_status_code r, m_status_msg := m_status_msg r,
         m_rstate := HEADERS, m_headers := m_headers r,
         m_header_bytes := lines_size (response_line r # map header_line (m_headers r)) + 3\<rparr>)"
proof -
  let ?r1 = "new_response\<lparr>m_header_bytes := length (response_line r) + 3, m_version := m_version r,
     m_status_code := m_status_code r, m_status_msg := m_status_msg r, m_rstate := HEADERS\<rparr>"
  have cr: "13 \<notin> set (response_line r)"
    using w print_int_chars [of "m_status_code r" 13] by (auto simp: writable_response_def response_line_def)
  have fits: "lines_size (response_line r # map header_line (m_headers r)) + 3 \<le> max_header_size"
    using w unfolding writable_response_def by simp
  have line: "response_lines buf (response_line r @ header_delimiter @ rest') new_response = response_lines buf rest' ?r1" for rest'
    using find_line [OF cr, of rest'] fits w read_response_line [of r]
    by (subst response_lines.simps)
      (simp add: Let_def new_response_def writable_response_def response_line_def
         del: take_append drop_append append_assoc append_Cons)
  have "response_lines buf (concat (map (\<lambda>h. header_line h @ header_delimiter) (m_headers r)) @ header_delimiter @ rest) ?r1
      = response_lines buf (header_delimiter @ rest) (?r1\<lparr>m_header_bytes := m_header_bytes ?r1 + lines_size (map header_line (m_headers r)),
          m_headers := m_headers ?r1 @ m_headers r\<rparr>)"
    using w fits by (intro res.headers_read) (simp_all add: writable_response_def writable_headers_def new_response_def)
  then show ?thesis
    unfolding raw_headers_lines line using fits by (simp add: response_blank_line new_response_def ac_simps)
qed

lemma response_headers_done_read:
  assumes q: "m_rstate q = HEADERS" "m_body q = []"
    and body: "if get_header q h_content_length = [] then b = []
      else scan_size (get_header q h_content_length) = Some (length b)"
  shows "\<exists>q'. response_headers_done (head @ header_delimiter @ b @ extra) (header_delimiter @ b @ extra) q = Inr (length head + 2 + length b, q')
    \<and> headers_ready q' \<and> m_status_code q' = m_status_code q \<and> m_status_msg q' = m_status_msg q
    \<and> m_version q' = m_version q \<and> m_headers q' = m_headers q \<and> m_body q' = b"
proof -
  have n: "length (head @ header_delimiter @ b @ extra) + 2 - length (header_delimiter @ b @ extra) = length head + 2" by simp
  have d: "drop (length head + 2) (head @ header_delimiter @ b @ extra) = b @ extra" by (simp add: header_delimiter_def)
  have s: "(if get_header q h_content_length = [] then Some 0 else scan_size (get_header q h_content_length))
      = Some (length b)" using body by (simp split: if_splits)
  show ?thesis
    unfolding response_headers_done_def Let_def s n d using q
    by (auto simp: response_body_def headers_ready_def Let_def)
qed

lemma response_round_trip:
  assumes "writable_response r"
  shows "\<exists>q. response_consume (response_raw r @ extra) new_response = Inr (length (response_raw r), q) \<and> headers_ready q
    \<and> m_status_code q = m_status_code r \<and> m_status_msg q = m_status_msg r \<and> m_version q = m_version r
    \<and> m_headers q = m_headers r \<and> m_body q = m_body r"
proof -
  let ?q = "new_response\<lparr>m_version := m_version r, m_status_code := m_status_code r, m_status_msg := m_status_msg r,
         m_rstate := HEADERS, m_headers := m_headers r,
         m_header_bytes := lines_size (response_line r # map header_line (m_headers r)) + 3\<rparr>"
  let ?head = "response_line r @ header_delimiter @ raw_headers r"
  have raw: "response_raw r = ?head @ header_delimiter @ m_body r" by (simp add: response_raw_def response_line_def)
  have "\<exists>q. response_headers_done (?head @ header_delimiter @ m_body r @ extra) (header_delimiter @ m_body r @ extra) ?q
      = Inr (length ?head + 2 + length (m_body r), q)
    \<and> headers_ready q \<and> m_status_code q = m_status_code ?q \<and> m_status_msg q = m_status_msg ?q
    \<and> m_version q = m_version ?q \<and> m_headers q = m_headers ?q \<and> m_body q = m_body r"
    by (rule response_headers_done_read)
      (use assms in \<open>simp_all add: get_header_def writable_response_def new_response_def cong: if_cong\<close>)
  moreover have "response_consume (response_raw r @ extra) new_response
      = response_lines (?head @ header_delimiter @ m_body r @ extra) (response_line r @ header_delimiter @ raw_headers r @ header_delimiter @ (m_body r @ extra)) new_response"
    unfolding raw response_consume_def by (simp add: new_response_def)
  ultimately show ?thesis using response_head_read [OF assms] by (simp add: raw add.assoc)
qed


subsection \<open>The reader of requests is safe\<close>

lemma find_sub_spec:
  assumes "find_sub (=) header_delimiter s \<noteq> length s"
  shows "s = take (find_sub (=) header_delimiter s) s @ header_delimiter @ drop (find_sub (=) header_delimiter s + 2) s"
  using assms
proof (induction s)
  case (Cons c s)
  show ?case
  proof (cases "2 \<le> length (c # s) \<and> take 2 (c # s) = header_delimiter")
    case True
    then have "find_sub (=) header_delimiter (c # s) = 0" by (simp add: list_all2_eq_iff)
    with True show ?thesis by (metis add_0 append_Nil append_take_drop_id take0)
  next
    case False
    then have "find_sub (=) header_delimiter (c # s) = Suc (find_sub (=) header_delimiter s)" by (auto simp: list_all2_eq_iff)
    with Cons show ?thesis by simp
  qed
qed simp

lemma find_sub_first: "\<not> sublist header_delimiter (take (find_sub (=) header_delimiter s) s)"
proof (induction s)
  case (Cons c s)
  show ?case
  proof (cases "2 \<le> length (c # s) \<and> take 2 (c # s) = header_delimiter")
    case False
    then have f: "find_sub (=) header_delimiter (c # s) = Suc (find_sub (=) header_delimiter s)" by (auto simp: list_all2_eq_iff)
    have "\<not> prefix header_delimiter (c # take (find_sub (=) header_delimiter s) s)"
    proof
      assume "prefix header_delimiter (c # take (find_sub (=) header_delimiter s) s)"
      then have "prefix header_delimiter (c # s)" by (metis prefix_order.trans take_Suc_Cons take_is_prefix)
      with False show False by (auto simp: prefix_def header_delimiter_def)
    qed
    then show ?thesis using Cons by (simp add: f sublist_Cons_right)
  qed (simp add: list_all2_eq_iff)
qed simp

lemma process_header_safe:
  assumes "\<not> sublist header_delimiter line" "wf_map ci_less (m_headers p)"
  shows "case process_header line p of
     Inl e \<Rightarrow> e = Http_exception 400 | Inr q \<Rightarrow> wf_map ci_less (m_headers q) \<and> (\<exists>hs. q = p\<lparr>m_headers := hs\<rparr>)"
proof -
  let ?c = "find_sub (=) header_separator line"
  have "\<not> sublist header_delimiter (take ?c line)" "\<not> sublist header_delimiter (drop (?c + 1) line)"
    using assms(1) by (meson sublist_order.order.trans sublist_take sublist_drop)+
  then obtain k v where "strip_lws (take ?c line) = Some k" "strip_lws (drop (?c + 1) line) = Some v"
    using strip_lws_line by blast
  then show ?thesis
    using ci.set_keeps [OF assms(2)] by (auto simp: process_header_def Let_def append_header_def)
qed

lemma process_safe: "case process line r of
     Inl e \<Rightarrow> e = Http_exception 400
   | Inr q \<Rightarrow> \<exists>m u v. q = r\<lparr>m_method := m, m_uri := u, m_version := v\<rparr>"
  by (auto simp: process_def set_method_def set_uri_def set_version_def split: option.splits sum.splits if_splits)

text \<open>
  Between two reads: the headers are in order, the counter of header bytes and the body are within their
  limits, the buffer holds the beginning of one line, and it is freed only when a body is being read or the
  request is ready.
\<close>

definition request_inv :: "http_request \<Rightarrow> bool" where
  "request_inv r \<longleftrightarrow>
     wf_map ci_less (m_headers r) \<and> m_header_bytes r \<le> max_header_size \<and>
     m_body_bytes_max r = max_body_size \<and> length (m_body r) + m_body_bytes_needed r \<le> max_body_size \<and>
     (case m_buf r of
        None \<Rightarrow> m_ready r \<or> m_body_bytes_needed r > 0 \<and> m_body_encoding r = Body_plain
      | Some b \<Rightarrow> \<not> sublist header_delimiter b \<and> m_body_bytes_needed r = 0 \<and> m_body r = [] \<and> \<not> m_ready r)"

definition stops_well :: "http_stop \<Rightarrow> bool" where
  "stops_well e \<longleftrightarrow> e \<in> {Http_exception 400, Http_exception 413, Http_exception 431}"

definition reads_well :: "str \<Rightarrow> http_stop + nat \<times> http_request \<Rightarrow> bool" where
  "reads_well buf res \<longleftrightarrow>
     (case res of Inl e \<Rightarrow> stops_well e
      | Inr (n, r) \<Rightarrow> request_inv r \<and> n \<le> length buf \<and> (m_ready r \<or> n = length buf))"

lemma headers_done_safe:
  assumes r: "wf_map ci_less (m_headers r)" "m_header_bytes r \<le> max_header_size" "m_body r = []" "\<not> m_ready r"
      "m_body_bytes_needed r = 0" "m_body_bytes_max r = max_body_size"
    and rest: "2 \<le> length rest" "length rest \<le> length buf + 2"
  shows "reads_well buf (headers_done buf rest r)"
proof -
  let ?n = "length buf + 2 - length rest"
  have n: "?n \<le> length buf" using rest by linarith
  show ?thesis
    using r n
    by (auto simp: headers_done_def reads_well_def stops_well_def prepare_body_def process_body_def body_ready_def
        request_inv_def get_header_def Let_def min_def)
qed


lemma request_lines_safe:
  assumes "wf_map ci_less (m_headers r)" "m_header_bytes r \<le> max_header_size" "m_body r = []" "\<not> m_ready r"
    "m_body_bytes_needed r = 0" "m_body_bytes_max r = max_body_size" "suffix rest (b @ buf)" "\<not> sublist header_delimiter b"
  shows "reads_well buf (request_lines buf rest r)"
  using assms
proof (induction buf rest r rule: request_lines.induct)
  case (1 buf rest r)
  let ?n = "find_sub (=) header_delimiter rest"
  let ?r = "r\<lparr>m_header_bytes := m_header_bytes r + ?n + 3\<rparr>"
  consider "m_header_bytes ?r > max_header_size" | "m_header_bytes ?r \<le> max_header_size" "?n = length rest"
    | "m_header_bytes ?r \<le> max_header_size" "?n \<noteq> length rest" by linarith
  then show ?case
  proof cases
    case 1
    then show ?thesis by (subst request_lines.simps) (simp add: Let_def reads_well_def stops_well_def)
  next
    case 2
    then show ?thesis
      using 1(2-7) find_sub_first [of rest]
      by (subst request_lines.simps) (simp add: Let_def reads_well_def request_inv_def)
  next
    case 3
    let ?line = "take ?n rest" and ?rest = "drop (?n + 2) rest"
    have rest: "rest = ?line @ header_delimiter @ ?rest" by (rule find_sub_spec [OF 3(2)])
    obtain u where u: "b @ buf = u @ ?line @ header_delimiter @ ?rest" using 1(8) rest by (auto simp: suffix_def)
    have len: "length ?rest \<le> length buf"
    proof (rule ccontr)
      assume "\<not> length ?rest \<le> length buf"
      moreover have "suffix buf (b @ buf)" by (simp add: suffix_def)
      moreover have "suffix ?rest (b @ buf)" unfolding u by (intro suffix_appendI suffix_order.refl)
      ultimately obtain v where "?rest = v @ buf"
        by (meson nat_le_linear suffix_def suffix_length_suffix)
      then have "b = (u @ ?line) @ header_delimiter @ v" using u by simp
      then show False using 1(9) unfolding sublist_def by blast
    qed
    have "length rest = length ?line + (length header_delimiter + length ?rest)" using arg_cong [OF rest, of length] by (simp only: length_append)
    moreover have "length ?line = ?n" using find_sub_le [of "(=)" header_delimiter rest] by simp
    ultimately have lenrest: "length rest = ?n + 2 + length ?rest" by (simp only: crlf_nonempty add.assoc)
    show ?thesis
    proof (cases "?n = 0")
      case True
      have two: "2 \<le> length rest" "length rest \<le> length buf + 2" using lenrest len True by linarith+
      have "reads_well buf (headers_done buf rest ?r)"
        by (rule headers_done_safe [OF _ _ _ _ _ _ two]) (use 3(1) 1(2-7) in simp_all)
      moreover have "request_lines buf rest r = headers_done buf rest ?r"
        using 3 True by (subst request_lines.simps) (simp add: Let_def)
      ultimately show ?thesis by simp
    next
      case False
      have noline: "\<not> sublist header_delimiter ?line" by (rule find_sub_first)
      let ?step = "if m_method ?r = [] then process ?line ?r else process_header ?line ?r"
      show ?thesis
      proof (cases ?step)
        case (Inl e)
        then have "stops_well e"
          using process_safe [of ?r ?line] process_header_safe [OF noline, of ?r] 1(2)
          by (auto simp: stops_well_def split: if_splits)
        with Inl 3 False show ?thesis by (subst request_lines.simps) (simp add: Let_def reads_well_def)
      next
        case (Inr r')
        then have r': "wf_map ci_less (m_headers r')" "m_header_bytes r' = m_header_bytes ?r" "m_body r' = []"
          "\<not> m_ready r'" "m_body_bytes_needed r' = 0" "m_body_bytes_max r' = max_body_size"
          using process_safe [of ?r ?line] process_header_safe [OF noline, of ?r] 1(2-7)
          by (auto split: if_splits)
        have "suffix ?rest (b @ buf)" using u by (auto simp: suffix_def)
        then have "reads_well buf (request_lines buf ?rest r')"
          using 1(1) [OF refl refl _ 3(2) False Inr] 3(1) r' 1(9) by simp
        moreover have "request_lines buf rest r = request_lines buf ?rest r'"
          using 3 False Inr by (subst request_lines.simps) (simp add: Let_def)
        ultimately show ?thesis by simp
      qed
    qed
  qed
qed

lemma request_consume_safe: "request_inv r \<Longrightarrow> reads_well buf (request_consume buf r)"
proof -
  assume inv: "request_inv r"
  show ?thesis
  proof (cases "m_ready r \<or> m_body_bytes_needed r > 0")
    case True
    then show ?thesis
      using inv by (auto simp: request_consume_def process_body_def reads_well_def request_inv_def body_ready_def Let_def
          min_def split: option.splits)
  next
    case False
    then obtain b where "m_buf r = Some b" using inv by (auto simp: request_inv_def split: option.splits)
    then show ?thesis
      using False inv request_lines_safe [of r "b @ buf" b buf] by (simp add: request_consume_def request_inv_def)
  qed
qed


text \<open>Successive reads, until an exception ends the reading.\<close>

fun feed :: "str list \<Rightarrow> http_request \<Rightarrow> http_stop + http_request" where
  "feed [] r = Inr r"
| "feed (b # bs) r = (case request_consume b r of Inl e \<Rightarrow> Inl e | Inr (n, r) \<Rightarrow> feed bs r)"

lemma feed_safe: "request_inv r \<Longrightarrow> case feed bs r of Inl e \<Rightarrow> stops_well e | Inr q \<Rightarrow> request_inv q"
proof (induction bs arbitrary: r)
  case (Cons b bs)
  note safe = request_consume_safe [OF Cons.prems, of b]
  show ?case
  proof (cases "request_consume b r")
    case (Inl e)
    with safe show ?thesis by (simp add: reads_well_def)
  next
    case (Inr nr)
    with safe Cons.IH [of "snd nr"] show ?thesis by (simp add: reads_well_def case_prod_unfold)
  qed
qed simp

text \<open>
  C17. Whatever bytes arrive in whatever reads, the reader of requests ends with one of the three statuses 400,
  413 and 431 or in a state where the headers are in the order of the map, at most 16000 header bytes are
  counted, the body and what is missing of it are at most 32000000 bytes, and the line buffer is freed exactly
  when the request is ready or a body is being read. It never uses a freed buffer.
\<close>

theorem request_reader_safe:
  "case feed reads new_request of
     Inl e \<Rightarrow> e \<in> {Http_exception 400, Http_exception 413, Http_exception 431}
   | Inr r \<Rightarrow> sorted_wrt ci_less (map fst (m_headers r)) \<and> m_header_bytes r \<le> 16000
       \<and> length (m_body r) + m_body_bytes_needed r \<le> 32000000
       \<and> (m_buf r = None) = (m_ready r \<or> 0 < m_body_bytes_needed r)"
proof -
  have "request_inv new_request" by (simp add: request_inv_def new_request_def wf_map_def max_header_size_def header_delimiter_def)
  from feed_safe [OF this, of reads] show ?thesis
    by (auto simp: request_inv_def stops_well_def wf_map_def max_header_size_def max_body_size_def split: sum.splits option.splits)
qed


text \<open>
  The limit of the headers depends on the reads: a line that comes byte by byte is refused after 4000 bytes, in one
  read it may have 15997, because every read counts three bytes more.
\<close>

lemma line_read:
  assumes "13 \<notin> set (b @ buf)" "m_buf r = Some b" "\<not> m_ready r" "m_body_bytes_needed r = 0"
  shows "request_consume buf r =
    (if m_header_bytes r + length (b @ buf) + 3 > max_header_size then Inl (Http_exception 431)
     else Inr (length buf, r\<lparr>m_buf := Some (b @ buf), m_header_bytes := m_header_bytes r + 3\<rparr>))"
proof -
  have "find_sub (=) header_delimiter s = length s" if "13 \<notin> set s" for s
    using that by (induction s) (auto simp: header_delimiter_def)
  with assms show ?thesis
    by (simp add: request_consume_def request_lines.simps [of buf "b @ buf"] Let_def)
qed

lemma feed_snoc: "feed (bs @ [b]) r = (case feed bs r of Inl e \<Rightarrow> Inl e | Inr r \<Rightarrow> feed [b] r)"
  by (induction bs arbitrary: r) (auto split: sum.splits)

lemma request_line_in_pieces:
  assumes "13 \<notin> set line"
  shows "feed (map (\<lambda>c. [c]) line) new_request =
      (if length line \<le> 4000 then Inr (new_request\<lparr>m_buf := Some line, m_header_bytes := 3 * length line\<rparr>)
       else Inl (Http_exception 431))"
    and "feed [line] new_request =
      (if length line \<le> 15997 then Inr (new_request\<lparr>m_buf := Some line, m_header_bytes := 3\<rparr>)
       else Inl (Http_exception 431))"
proof -
  show "feed (map (\<lambda>c. [c]) line) new_request =
      (if length line \<le> 4000 then Inr (new_request\<lparr>m_buf := Some line, m_header_bytes := 3 * length line\<rparr>)
       else Inl (Http_exception 431))"
    using assms
  proof (induction line rule: rev_induct)
    case Nil
    then show ?case by (simp add: new_request_def)
  next
    case (snoc c line)
    then show ?case
      using line_read [of line "[c]" "new_request\<lparr>m_buf := Some line, m_header_bytes := 3 * length line\<rparr>"]
      by (auto simp: feed_snoc max_header_size_def new_request_def)
  qed
  show "feed [line] new_request =
      (if length line \<le> 15997 then Inr (new_request\<lparr>m_buf := Some line, m_header_bytes := 3\<rparr>)
       else Inl (Http_exception 431))"
    using line_read [of "[]" line new_request] assms by (auto simp: max_header_size_def new_request_def)
qed

end
