(* ===== verification/WsBase64.thy ===== *)
theory WsBase64
  imports Prelude
begin

text \<open>
  Base64 (websocketpp/websocket/base64/base64.hpp): encoding in groups of three bytes, decoding in groups of
  four characters up to the first one outside the alphabet. Characters are bytes; the arrays of three and four
  characters are lists that fill up. Arithmetic on \<open>unsigned char\<close> is that of bytes: what the code
  computes in \<open>int\<close> is stored back into a byte.
\<close>

definition base64_chars :: "byte list" where
  "base64_chars = bytes_of ''ABCDEFGHIJKLMNOPQRSTUVWXYZabcdefghijklmnopqrstuvwxyz0123456789+/''"

definition is_base64 :: "byte \<Rightarrow> bool" where
  "is_base64 c \<longleftrightarrow> c = 43 \<or> (c \<ge> 47 \<and> c \<le> 57) \<or> (c \<ge> 65 \<and> c \<le> 90) \<or> (c \<ge> 97 \<and> c \<le> 122)"

subsection \<open>Encoding\<close>

definition pack4 :: "byte list \<Rightarrow> byte list" where
  "pack4 a =
     [drop_bit 2 (a ! 0 AND 0xFC),
      push_bit 4 (a ! 0 AND 0x03) + drop_bit 4 (a ! 1 AND 0xF0),
      push_bit 2 (a ! 1 AND 0x0F) + drop_bit 6 (a ! 2 AND 0xC0),
      a ! 2 AND 0x3F]"

definition base64_char :: "byte \<Rightarrow> byte" where
  "base64_char x = base64_chars ! unat x"

definition pad_char :: byte where "pad_char = 61"

definition encode_rest :: "byte list \<Rightarrow> byte list \<Rightarrow> byte list" where
  "encode_rest a ret =
     (if a = [] then ret
      else (let i = length a; char_array_4 = pack4 (a @ replicate (3 - i) 0)
            in ret @ map base64_char (take (i + 1) char_array_4) @ replicate (3 - i) pad_char))"

fun encode_loop :: "byte list \<Rightarrow> byte list \<Rightarrow> byte list \<Rightarrow> byte list" where
  "encode_loop [] a ret = encode_rest a ret"
| "encode_loop (x # xs) a ret =
     (let a = a @ [x]
      in if length a = 3 then encode_loop xs [] (ret @ map base64_char (pack4 a))
         else encode_loop xs a ret)"

definition base64_encode :: "byte list \<Rightarrow> byte list" where
  "base64_encode input = encode_loop input [] []"

subsection \<open>Decoding\<close>

text \<open>\<open>std::string::find\<close>, cast to a byte: 255 for a character that is not there.\<close>

fun find_from :: "byte \<Rightarrow> byte list \<Rightarrow> nat \<Rightarrow> nat option" where
  "find_from c [] n = None"
| "find_from c (x # xs) n = (if x = c then Some n else find_from c xs (n + 1))"

definition base64_index :: "byte \<Rightarrow> byte" where
  "base64_index c = (case find_from c base64_chars 0 of Some n \<Rightarrow> word_of_nat n | None \<Rightarrow> 255)"

definition unpack3 :: "byte list \<Rightarrow> byte list" where
  "unpack3 a =
     [push_bit 2 (a ! 0) + drop_bit 4 (a ! 1 AND 0x30),
      push_bit 4 (a ! 1 AND 0x0F) + drop_bit 2 (a ! 2 AND 0x3C),
      push_bit 6 (a ! 2 AND 0x03) + a ! 3]"

definition decode_rest :: "byte list \<Rightarrow> byte list \<Rightarrow> byte list" where
  "decode_rest a ret =
     (if a = [] then ret
      else (let i = length a; char_array_4 = map base64_index (a @ replicate (4 - i) 0)
            in ret @ take (i - 1) (unpack3 char_array_4)))"

fun decode_loop :: "byte list \<Rightarrow> byte list \<Rightarrow> byte list \<Rightarrow> byte list" where
  "decode_loop [] a ret = decode_rest a ret"
| "decode_loop (x # xs) a ret =
     (if x \<noteq> pad_char \<and> is_base64 x then
        (let a = a @ [x]
         in if length a = 4 then decode_loop xs [] (ret @ unpack3 (map base64_index a))
            else decode_loop xs a ret)
      else decode_rest a ret)"

definition base64_decode :: "byte list \<Rightarrow> byte list" where
  "base64_decode input = decode_loop input [] []"

subsection \<open>The alphabet\<close>

lemma length_chars [simp]: "length base64_chars = 64"
  by (simp add: base64_chars_def)

lemma find_from_nth: "distinct xs \<Longrightarrow> k < length xs \<Longrightarrow> find_from (xs ! k) xs n = Some (n + k)"
  by (induction xs arbitrary: k n) (auto simp: nth_Cons split: nat.splits)

lemma alphabet:
  assumes "k < 64"
  shows "base64_index (base64_chars ! k) = word_of_nat k \<and> is_base64 (base64_chars ! k) \<and> base64_chars ! k \<noteq> pad_char"
proof -
  have "distinct base64_chars" by (simp add: base64_chars_def bytes_of_def)
  moreover have "list_all (\<lambda>c. is_base64 c \<and> c \<noteq> pad_char) base64_chars"
    by (simp add: base64_chars_def bytes_of_def is_base64_def pad_char_def)
  ultimately show ?thesis
    using assms find_from_nth [of base64_chars k 0] by (simp add: base64_index_def list_all_length)
qed

lemma base64_char_index:
  assumes "unat x < 64"
  shows "base64_index (base64_char x) = x" "is_base64 (base64_char x)" "base64_char x \<noteq> pad_char"
  using alphabet [OF assms] by (simp_all add: base64_char_def)

subsection \<open>Three bytes are four characters\<close>

text \<open>The sums of the code add numbers without a common bit.\<close>

lemma byte_eq_iff:
  "(x :: byte) = y \<longleftrightarrow> bit x 0 = bit y 0 \<and> bit x 1 = bit y 1 \<and> bit x 2 = bit y 2 \<and> bit x 3 = bit y 3
     \<and> bit x 4 = bit y 4 \<and> bit x 5 = bit y 5 \<and> bit x 6 = bit y 6 \<and> bit x 7 = bit y 7" (is "_ \<longleftrightarrow> ?bits")
proof
  assume b: ?bits
  show "x = y"
  proof (rule bit_eqI)
    fix n
    assume "possible_bit TYPE(8 word) n"
    then have "n \<in> {0, 1, 2, 3, 4, 5, 6, 7}" by (auto simp: possible_bit_word)
    with b show "bit x n = bit y n" by auto
  qed
qed auto

lemma pack4_or:
  "pack4 [a, b, c] =
     [drop_bit 2 (a AND 0xFC), push_bit 4 (a AND 0x03) OR drop_bit 4 (b AND 0xF0),
      push_bit 2 (b AND 0x0F) OR drop_bit 6 (c AND 0xC0), c AND 0x3F]"
proof -
  have "push_bit 4 (a AND 0x03) AND drop_bit 4 (b AND 0xF0) = 0"
       "push_bit 2 (b AND 0x0F) AND drop_bit 6 (c AND 0xC0) = 0"
    by (simp_all add: byte_eq_iff bit_simps)
  then show ?thesis by (simp add: pack4_def disjunctive_add_eq_or)
qed

lemma unpack3_or:
  assumes "z AND 0xC0 = 0"
  shows "unpack3 [w, x, y, z] =
     [push_bit 2 w OR drop_bit 4 (x AND 0x30), push_bit 4 (x AND 0x0F) OR drop_bit 2 (y AND 0x3C),
      push_bit 6 (y AND 0x03) OR z]"
proof -
  have "push_bit 2 w AND drop_bit 4 (x AND 0x30) = 0" "push_bit 4 (x AND 0x0F) AND drop_bit 2 (y AND 0x3C) = 0"
    by (simp_all add: byte_eq_iff bit_simps)
  moreover have "push_bit 6 (y AND 0x03) AND z = 0"
    using assms by (simp add: byte_eq_iff bit_simps)
  ultimately show ?thesis by (simp add: unpack3_def disjunctive_add_eq_or)
qed

lemma unpack3_pack4: "unpack3 (pack4 [a, b, c]) = [a, b, c]"
proof -
  have z: "(c AND 0x3F) AND 0xC0 = 0" by (simp add: byte_eq_iff bit_simps)
  show ?thesis
    unfolding pack4_or unpack3_or [OF z] by (simp add: byte_eq_iff bit_simps)
qed

text \<open>Every number that \<open>pack4\<close> makes has a character.\<close>

lemma six_pow: "(2 :: nat) ^ 6 = 64" by simp

lemma unat_take: "unat (take_bit n x) = take_bit n (unat (x :: byte))"
  by (simp add: unsigned_take_bit_eq)

lemma six_bits: "unat (x :: byte) < 64 \<longleftrightarrow> x AND 0xC0 = 0"
proof -
  have "unat x < 64 \<longleftrightarrow> take_bit 6 x = x"
    using take_bit_nat_eq_self_iff [of 6 "unat x"] by (metis word_unat_eq_iff unat_take six_pow)
  also have "\<dots> \<longleftrightarrow> x AND 0xC0 = 0" by (auto simp: byte_eq_iff bit_simps)
  finally show ?thesis .
qed

lemma pack4_bound: "x \<in> set (pack4 [a, b, c]) \<Longrightarrow> unat x < 64"
  unfolding six_bits pack4_or by (auto simp: byte_eq_iff bit_simps)

lemma length_pack4 [simp]: "length (pack4 a) = 4"
  by (simp add: pack4_def)

subsection \<open>The round trip\<close>

lemma encode_three:
  "encode_loop (a # b # c # xs) [] ret = encode_loop xs [] (ret @ map base64_char (pack4 [a, b, c]))"
  by simp

lemma encode_loop_ret: "encode_loop xs a (ret @ r) = ret @ encode_loop xs a r"
  by (induction xs a r arbitrary: ret rule: encode_loop.induct) (simp_all add: encode_rest_def Let_def)

text \<open>The characters of a group are in the alphabet, and their numbers give the bytes back.\<close>

lemma pack4_in_alphabet:
  assumes "x \<in> set (pack4 [a, b, c])"
  shows "base64_index (base64_char x) = x" "is_base64 (base64_char x)" "base64_char x \<noteq> pad_char"
  using base64_char_index [OF pack4_bound [OF assms]] by simp_all

definition has_char :: "byte \<Rightarrow> bool" where
  "has_char v \<longleftrightarrow> base64_index (base64_char v) = v \<and> is_base64 (base64_char v) \<and> base64_char v \<noteq> pad_char"

lemma pack4_list:
  obtains w x y z where "pack4 [a, b, c] = [w, x, y, z]" "unpack3 [w, x, y, z] = [a, b, c]"
    "has_char w" "has_char x" "has_char y" "has_char z"
proof -
  obtain w x y z where p: "pack4 [a, b, c] = [w, x, y, z]" by (simp add: pack4_def)
  moreover have "unpack3 [w, x, y, z] = [a, b, c]" using unpack3_pack4 [of a b c] p by simp
  moreover have "list_all has_char (pack4 [a, b, c])"
    using pack4_in_alphabet by (auto simp: list_all_iff has_char_def)
  ultimately show ?thesis using that by simp
qed

lemma decode_four:
  "decode_loop (map base64_char (pack4 [a, b, c]) @ xs) [] ret = decode_loop xs [] (ret @ [a, b, c])"
proof -
  obtain w x y z where p: "pack4 [a, b, c] = [w, x, y, z]" "unpack3 [w, x, y, z] = [a, b, c]"
    "has_char w" "has_char x" "has_char y" "has_char z"
    by (rule pack4_list [of a b c])
  show ?thesis using p(2-6) by (simp add: p(1) has_char_def)
qed

lemma is_base64_pad: "decode_loop (pad_char # xs) a ret = decode_rest a ret"
  by simp

lemma decode_two: "decode_loop (encode_rest [a] []) [] ret = ret @ [a]"
proof -
  obtain w x y z where p: "pack4 [a, 0, 0] = [w, x, y, z]" "unpack3 [w, x, y, z] = [a, 0, 0]"
    "has_char w" "has_char x" "has_char y" "has_char z"
    by (rule pack4_list [of a 0 0])
  show ?thesis
    using p(2-6)
    by (simp add: encode_rest_def decode_rest_def has_char_def p(1) numeral_2_eq_2 unpack3_def)
qed

lemma decode_three: "decode_loop (encode_rest [a, b] []) [] ret = ret @ [a, b]"
proof -
  obtain w x y z where p: "pack4 [a, b, 0] = [w, x, y, z]" "unpack3 [w, x, y, z] = [a, b, 0]"
    "has_char w" "has_char x" "has_char y" "has_char z"
    by (rule pack4_list [of a b 0])
  show ?thesis
    using p(2-6)
    by (simp add: encode_rest_def decode_rest_def has_char_def p(1) numeral_2_eq_2 numeral_3_eq_3 unpack3_def)
qed

fun by_three :: "'a list \<Rightarrow> nat" where
  "by_three [] = 0"
| "by_three [a] = 0"
| "by_three [a, b] = 0"
| "by_three (a # b # c # xs) = Suc (by_three xs)"

lemma decode_encode: "decode_loop (encode_loop bs [] []) [] ret = ret @ bs"
proof (induction bs arbitrary: ret rule: by_three.induct)
  case 1
  show ?case by (simp add: encode_rest_def decode_rest_def)
next
  case (2 a)
  show ?case using decode_two [of a ret] by (simp add: Let_def)
next
  case (3 a b)
  show ?case using decode_three [of a b ret] by (simp add: Let_def)
next
  case (4 a b c xs)
  have "encode_loop (a # b # c # xs) [] [] = map base64_char (pack4 [a, b, c]) @ encode_loop xs [] []"
    using encode_loop_ret [of xs "[]" "map base64_char (pack4 [a, b, c])" "[]"] by simp
  then show ?case using 4 [of "ret @ [a, b, c]"] by (simp add: decode_four del: encode_loop.simps)
qed

lemma length_encode: "length (encode_loop bs [] []) = 4 * ((length bs + 2) div 3)"
proof (induction bs rule: by_three.induct)
  case (4 a b c xs)
  have "encode_loop (a # b # c # xs) [] [] = map base64_char (pack4 [a, b, c]) @ encode_loop xs [] []"
    using encode_loop_ret [of xs "[]" "map base64_char (pack4 [a, b, c])" "[]"] by simp
  then show ?case using 4 div_add_self2 [of 3 "length xs + 2"] by (simp del: encode_loop.simps)
qed (simp_all add: encode_rest_def)

text \<open>
  C19. Decoding what was encoded gives the bytes back, for every sequence of bytes, and an encoding has four
  characters for every three bytes begun.
\<close>

theorem base64_round_trip:
  "base64_decode (base64_encode bs) = bs \<and> length (base64_encode bs) = 4 * ((length bs + 2) div 3)"
  by (simp add: base64_decode_def base64_encode_def decode_encode length_encode)

lemma base64_example: "base64_encode (bytes_of ''Man'') = bytes_of ''TWFu''"
  by (simp add: base64_encode_def encode_rest_def bytes_of_def pack4_def base64_char_def base64_chars_def)

end
