(* ===== verification/WsTransport.thy ===== *)
theory WsTransport
  imports WsHttpWire WsClose WsBase64
begin

text \<open>
  The transport of a connection over asio (websocketpp/websocket/transport/asio/connection.hpp) with the plain socket
  of transport/asio/security/none.hpp: the start with an optional proxy, reads and writes, the shutdown, and the
  timers of these. The library asio is not part of the sources: its operations are recorded as outstanding and
  complete in any order with any result. A timer is running, elapsed or cancelled; the wait for it ends with success
  once it has elapsed and with an abort once it is cancelled, as asio documents it. The callbacks of the connection
  are recorded in the order of the calls. \<open>None\<close> is an exception that nobody catches.
\<close>

subsection \<open>State\<close>

text \<open>What asio reports, and what the transport makes of it.\<close>

datatype system_error = Sys_aborted | Sys_eof | Sys_not_connected | Sys_other nat

definition translate_ec :: "system_error \<Rightarrow> error_code" where
  "translate_ec ec = Transport T_pass_through"

datatype socket_state = Sock_uninitialized | Sock_ready | Sock_reading

datatype timer_phase = Running | Elapsed | Cancelled

datatype timer_purpose = Post_init_timer | Proxy_timer | Shutdown_timer

datatype asio_op = Op_proxy_write | Op_proxy_read | Op_read | Op_write

datatype callback =
    Called_init "error_code option" | Called_shutdown "error_code option" | Called_read "error_code option" nat
  | Called_write "error_code option" | Called_pre_init | Called_post_init

record proxy_data =
  p_req :: http_request
  p_res :: http_response
  p_timeout :: nat
  p_timer :: nat

record asio_con =
  ac_socket :: socket_state
  ac_proxy :: str
  ac_proxy_data :: "proxy_data option"
  ac_tec :: "system_error option"
  ac_bufs :: "str list"
  ac_timers :: "timer_phase list"
  ac_waits :: "(nat \<times> timer_purpose) list"
  ac_ops :: "asio_op list"
  ac_socket_cancels :: nat
  ac_wire :: str
  ac_calls :: "callback list"
  ac_pre_init_handler :: bool
  ac_post_init_handler :: bool

definition new_asio_con :: asio_con where
  "new_asio_con = \<lparr>ac_socket = Sock_uninitialized, ac_proxy = [], ac_proxy_data = None, ac_tec = None, ac_bufs = [],
     ac_timers = [], ac_waits = [], ac_ops = [], ac_socket_cancels = 0, ac_wire = [], ac_calls = [],
     ac_pre_init_handler = False, ac_post_init_handler = False\<rparr>"

definition calling_back :: "callback \<Rightarrow> asio_con \<Rightarrow> asio_con" where
  "calling_back c a = a\<lparr>ac_calls := ac_calls a @ [c]\<rparr>"

subsection \<open>Timers\<close>

definition transport_timer :: "timer_purpose \<Rightarrow> asio_con \<Rightarrow> nat \<times> asio_con" where
  "transport_timer p a =
     (length (ac_timers a), a\<lparr>ac_timers := ac_timers a @ [Running], ac_waits := ac_waits a @ [(length (ac_timers a), p)]\<rparr>)"

definition timer_cancel :: "nat \<Rightarrow> asio_con \<Rightarrow> asio_con" where
  "timer_cancel t a = (if ac_timers a ! t = Running then a\<lparr>ac_timers := (ac_timers a)[t := Cancelled]\<rparr> else a)"

text \<open>\<open>is_neg(timer->expires_from_now())\<close>.\<close>

definition expired :: "nat \<Rightarrow> asio_con \<Rightarrow> bool" where
  "expired t a \<longleftrightarrow> ac_timers a ! t = Elapsed"

text \<open>\<open>handle_timer\<close>: the error that the callback of a timer gets.\<close>

definition handle_timer :: "system_error option \<Rightarrow> error_code option" where
  "handle_timer ec =
     (case ec of None \<Rightarrow> None
      | Some e \<Rightarrow> if e = Sys_aborted then Some (Transport T_operation_aborted) else Some (Asio A_pass_through))"

definition cancel_socket_checked :: "asio_con \<Rightarrow> asio_con" where
  "cancel_socket_checked a = a\<lparr>ac_socket_cancels := ac_socket_cancels a + 1\<rparr>"

subsection \<open>Set-up\<close>

definition new_proxy_data :: proxy_data where
  "new_proxy_data = \<lparr>p_req = new_request, p_res = new_response, p_timeout = 5000, p_timer = 0\<rparr>"

definition set_proxy :: "str \<Rightarrow> asio_con \<Rightarrow> asio_con" where
  "set_proxy u a = a\<lparr>ac_proxy := u, ac_proxy_data := Some new_proxy_data\<rparr>"

definition set_proxy_basic_auth :: "str \<Rightarrow> str \<Rightarrow> asio_con \<Rightarrow> error_code option \<times> asio_con" where
  "set_proxy_basic_auth username password a =
     (case ac_proxy_data a of
        None \<Rightarrow> (Some (Library W_invalid_state), a)
      | Some d \<Rightarrow>
          (let val = bytes_of ''Basic '' @ base64_encode (username @ [58] @ password)
           in (None, a\<lparr>ac_proxy_data := Some (d\<lparr>p_req := replace_header (bytes_of ''Proxy-Authorization'') val (p_req d)\<rparr>)\<rparr>)))"

definition set_proxy_timeout :: "nat \<Rightarrow> asio_con \<Rightarrow> error_code option \<times> asio_con" where
  "set_proxy_timeout duration a =
     (case ac_proxy_data a of
        None \<Rightarrow> (Some (Library W_invalid_state), a)
      | Some d \<Rightarrow> (None, a\<lparr>ac_proxy_data := Some (d\<lparr>p_timeout := duration\<rparr>)\<rparr>))"

definition proxy_init :: "str \<Rightarrow> asio_con \<Rightarrow> (error_code option \<times> asio_con) option" where
  "proxy_init authority a =
     (case ac_proxy_data a of
        None \<Rightarrow> Some (Some (Library W_invalid_state), a)
      | Some d \<Rightarrow>
          (case set_method (bytes_of ''CONNECT'') (set_version (bytes_of ''HTTP/1.1'') (p_req d)) of
             Inl e \<Rightarrow> None
           | Inr req \<Rightarrow>
               Some (None, a\<lparr>ac_proxy_data := Some (d\<lparr>p_req := replace_header (bytes_of ''Host'') authority (set_uri authority req)\<rparr>)\<rparr>)))"

definition init_socket :: "asio_con \<Rightarrow> error_code option \<times> asio_con" where
  "init_socket a =
     (if ac_socket a \<noteq> Sock_uninitialized then (Some (Socket S_invalid_state), a)
      else (None, a\<lparr>ac_socket := Sock_ready\<rparr>))"

definition init_asio :: "asio_con \<Rightarrow> error_code option \<times> asio_con" where
  "init_asio a = init_socket a"


subsection \<open>The start\<close>

text \<open>After the socket: on a plain socket \<open>post_init\<close> calls its handler at once.\<close>

definition handle_post_init :: "nat \<Rightarrow> error_code option \<Rightarrow> asio_con \<Rightarrow> asio_con" where
  "handle_post_init post_timer ec a =
     (if ec = Some (Transport T_operation_aborted) \<or> expired post_timer a then a
      else (let a = timer_cancel post_timer a;
                a = (if ac_post_init_handler a then calling_back Called_post_init a else a)
            in calling_back (Called_init ec) a))"

definition post_init :: "asio_con \<Rightarrow> asio_con" where
  "post_init a = (let (post_timer, a) = transport_timer Post_init_timer a in handle_post_init post_timer None a)"

definition handle_post_init_timeout :: "error_code option \<Rightarrow> asio_con \<Rightarrow> asio_con" where
  "handle_post_init_timeout ec a =
     (if ec = Some (Transport T_operation_aborted) then a
      else (let ret_ec = (case ec of Some e \<Rightarrow> e | None \<Rightarrow> Transport T_timeout)
            in calling_back (Called_init (Some ret_ec)) (cancel_socket_checked a)))"

text \<open>The request to a proxy and its answer.\<close>

definition proxy_write :: "asio_con \<Rightarrow> asio_con" where
  "proxy_write a =
     (case ac_proxy_data a of
        None \<Rightarrow> calling_back (Called_init (Some (Asio A_general))) a
      | Some d \<Rightarrow>
          (let write_buf = request_raw (p_req d); a = a\<lparr>ac_bufs := ac_bufs a @ [write_buf]\<rparr>;
               (t, a) = transport_timer Proxy_timer a
           in a\<lparr>ac_proxy_data := Some (d\<lparr>p_timer := t\<rparr>), ac_ops := ac_ops a @ [Op_proxy_write],
                ac_wire := ac_wire a @ concat (ac_bufs a)\<rparr>))"

definition handle_proxy_timeout :: "error_code option \<Rightarrow> asio_con \<Rightarrow> asio_con" where
  "handle_proxy_timeout ec a =
     (case ec of
        Some e \<Rightarrow> if e = Transport T_operation_aborted then a else calling_back (Called_init (Some e)) a
      | None \<Rightarrow> calling_back (Called_init (Some (Transport T_timeout))) (cancel_socket_checked a))"

text \<open>Without the data of the proxy the next three would use a null pointer: \<open>proxy_read\<close> tests it and then uses it.\<close>

definition proxy_read :: "asio_con \<Rightarrow> asio_con option" where
  "proxy_read a =
     (case ac_proxy_data a of None \<Rightarrow> None | Some d \<Rightarrow> Some (a\<lparr>ac_ops := ac_ops a @ [Op_proxy_read]\<rparr>))"

definition handle_proxy_write :: "system_error option \<Rightarrow> asio_con \<Rightarrow> asio_con option" where
  "handle_proxy_write ec a =
     (let a = a\<lparr>ac_bufs := []\<rparr>
      in if ec = Some Sys_aborted then Some a
         else (case ac_proxy_data a of
                 None \<Rightarrow> None
               | Some d \<Rightarrow>
                   if expired (p_timer d) a then Some a
                   else if ec \<noteq> None
                   then Some (calling_back (Called_init (Some (Asio A_pass_through))) (timer_cancel (p_timer d) a))
                   else proxy_read a))"

definition handle_proxy_read :: "system_error option \<Rightarrow> str \<Rightarrow> asio_con \<Rightarrow> asio_con option" where
  "handle_proxy_read ec read_buf a =
     (if ec = Some Sys_aborted then Some a
      else (case ac_proxy_data a of
              None \<Rightarrow> None
            | Some d \<Rightarrow>
                if expired (p_timer d) a then Some a
                else (let a = timer_cancel (p_timer d) a
                      in if ec \<noteq> None then Some (calling_back (Called_init (Some (Asio A_pass_through))) a)
                         else (case response_consume_stream read_buf 0 (p_res d) of
                                 Inl e \<Rightarrow> None
                               | Inr (n, res) \<Rightarrow>
                                   (let a = a\<lparr>ac_proxy_data := Some (d\<lparr>p_res := res\<rparr>)\<rparr>
                                    in Some (if \<not> headers_ready res
                                             then calling_back (Called_init (Some (Asio A_general))) a
                                             else if m_status_code res \<noteq> 200
                                             then calling_back (Called_init (Some (Asio A_proxy_failed))) a
                                             else post_init (a\<lparr>ac_proxy_data := None\<rparr>)))))))"

text \<open>\<open>handle_pre_init\<close> reports an error and goes on all the same.\<close>

definition handle_pre_init :: "error_code option \<Rightarrow> asio_con \<Rightarrow> asio_con" where
  "handle_pre_init ec a =
     (let a = (if ac_pre_init_handler a then calling_back Called_pre_init a else a);
          a = (if ec \<noteq> None then calling_back (Called_init ec) a else a)
      in if ac_proxy a \<noteq> [] then proxy_write a else post_init a)"

definition transport_init :: "asio_con \<Rightarrow> asio_con" where
  "transport_init a =
     (if ac_socket a \<noteq> Sock_ready then handle_pre_init (Some (Socket S_invalid_state)) a
      else handle_pre_init None (a\<lparr>ac_socket := Sock_reading\<rparr>))"

subsection \<open>Reading and writing\<close>

definition async_read_at_least :: "asio_con \<Rightarrow> asio_con" where
  "async_read_at_least a = a\<lparr>ac_ops := ac_ops a @ [Op_read]\<rparr>"

definition handle_async_read :: "system_error option \<Rightarrow> nat \<Rightarrow> asio_con \<Rightarrow> asio_con" where
  "handle_async_read ec bytes_transferred a =
     (case ec of
        None \<Rightarrow> calling_back (Called_read None bytes_transferred) a
      | Some e \<Rightarrow>
          if e = Sys_eof then calling_back (Called_read (Some (Transport T_eof)) bytes_transferred) a
          else calling_back (Called_read (Some (translate_ec e)) bytes_transferred) (a\<lparr>ac_tec := Some e\<rparr>))"

definition async_write_buffers :: "str list \<Rightarrow> asio_con \<Rightarrow> asio_con" where
  "async_write_buffers bufs a =
     (let a = a\<lparr>ac_bufs := ac_bufs a @ bufs\<rparr>
      in a\<lparr>ac_ops := ac_ops a @ [Op_write], ac_wire := ac_wire a @ concat (ac_bufs a)\<rparr>)"

definition handle_async_write :: "system_error option \<Rightarrow> asio_con \<Rightarrow> asio_con" where
  "handle_async_write ec a =
     calling_back (Called_write (if ec \<noteq> None then Some (Transport T_pass_through) else None)) (a\<lparr>ac_bufs := []\<rparr>)"

subsection \<open>The shutdown\<close>

text \<open>A plain socket is shut down at once; \<open>ec\<close> is what asio reports of it.\<close>

definition handle_async_shutdown :: "nat \<Rightarrow> system_error option \<Rightarrow> asio_con \<Rightarrow> asio_con" where
  "handle_async_shutdown shutdown_timer ec a =
     (if ec = Some Sys_aborted \<or> expired shutdown_timer a then a
      else (let a = timer_cancel shutdown_timer a
            in case ec of
                 None \<Rightarrow> calling_back (Called_shutdown None) a
               | Some e \<Rightarrow>
                   if e = Sys_not_connected then calling_back (Called_shutdown None) a
                   else calling_back (Called_shutdown (Some (translate_ec e))) (a\<lparr>ac_tec := Some e\<rparr>)))"

definition async_shutdown_socket :: "system_error option \<Rightarrow> asio_con \<Rightarrow> asio_con" where
  "async_shutdown_socket ec a =
     (let (shutdown_timer, a) = transport_timer Shutdown_timer a in handle_async_shutdown shutdown_timer ec a)"

definition handle_async_shutdown_timeout :: "error_code option \<Rightarrow> asio_con \<Rightarrow> asio_con" where
  "handle_async_shutdown_timeout ec a =
     (if ec = Some (Transport T_operation_aborted) then a
      else (let ret_ec = (case ec of Some e \<Rightarrow> e | None \<Rightarrow> Transport T_timeout)
            in calling_back (Called_shutdown (Some ret_ec)) (cancel_socket_checked a)))"

subsection \<open>Events\<close>

text \<open>
  Calls of the connection, the passing of time, the end of a wait and the completion of an operation. An event that
  cannot happen changes nothing.
\<close>

datatype transport_event =
    Do_read | Do_write "str list" | Do_shutdown "system_error option"
  | Time_passes nat | Wait_done nat | Op_done nat "system_error option" str

definition wait_ended :: "timer_purpose \<Rightarrow> error_code option \<Rightarrow> asio_con \<Rightarrow> asio_con" where
  "wait_ended p ec a =
     (case p of
        Post_init_timer \<Rightarrow> handle_post_init_timeout ec a
      | Proxy_timer \<Rightarrow> handle_proxy_timeout ec a
      | Shutdown_timer \<Rightarrow> handle_async_shutdown_timeout ec a)"

definition op_ended :: "asio_op \<Rightarrow> system_error option \<Rightarrow> str \<Rightarrow> asio_con \<Rightarrow> asio_con option" where
  "op_ended p ec buf a =
     (case p of
        Op_proxy_write \<Rightarrow> handle_proxy_write ec a
      | Op_proxy_read \<Rightarrow> handle_proxy_read ec buf a
      | Op_read \<Rightarrow> Some (handle_async_read ec (length buf) a)
      | Op_write \<Rightarrow> Some (handle_async_write ec a))"

definition drop_nth :: "nat \<Rightarrow> 'a list \<Rightarrow> 'a list" where
  "drop_nth i xs = take i xs @ drop (Suc i) xs"

primrec transport_do :: "transport_event \<Rightarrow> asio_con \<Rightarrow> asio_con option" where
  "transport_do Do_read a = Some (async_read_at_least a)"
| "transport_do (Do_write bufs) a = Some (async_write_buffers bufs a)"
| "transport_do (Do_shutdown ec) a = Some (async_shutdown_socket ec a)"
| "transport_do (Time_passes t) a =
     Some (if t < length (ac_timers a) \<and> ac_timers a ! t = Running
           then a\<lparr>ac_timers := (ac_timers a)[t := Elapsed]\<rparr> else a)"
| "transport_do (Wait_done i) a =
     (if i < length (ac_waits a)
      then (let (t, p) = ac_waits a ! i; a' = a\<lparr>ac_waits := drop_nth i (ac_waits a)\<rparr>
            in case ac_timers a ! t of
                 Running \<Rightarrow> Some a
               | Elapsed \<Rightarrow> Some (wait_ended p (handle_timer None) a')
               | Cancelled \<Rightarrow> Some (wait_ended p (handle_timer (Some Sys_aborted)) a'))
      else Some a)"
| "transport_do (Op_done i ec buf) a =
     (if i < length (ac_ops a)
      then op_ended (ac_ops a ! i) ec buf (a\<lparr>ac_ops := drop_nth i (ac_ops a)\<rparr>)
      else Some a)"


subsection \<open>Every callback is called once\<close>

text \<open>Waits that will call back: those of timers that are not cancelled.\<close>

definition live :: "'p set \<Rightarrow> timer_phase list \<Rightarrow> (nat \<times> 'p) list \<Rightarrow> nat" where
  "live q ts ws = length (filter (\<lambda>(t, p). p \<in> q \<and> ts ! t \<noteq> Cancelled) ws)"

definition waits_ok :: "timer_phase list \<Rightarrow> (nat \<times> 'p) list \<Rightarrow> bool" where
  "waits_ok ts ws \<longleftrightarrow> distinct (map fst ws) \<and> (\<forall>(t, p) \<in> set ws. t < length ts)"

lemma live_append: "live q ts (ws @ ws') = live q ts ws + live q ts ws'"
  by (simp add: live_def)

lemma live_Cons: "live q ts ((t, p) # ws) = (if p \<in> q \<and> ts ! t \<noteq> Cancelled then 1 else 0) + live q ts ws"
  by (simp add: live_def)

lemma live_other: "(\<And>t p. (t, p) \<in> set ws \<Longrightarrow> (ts ! t = Cancelled) = (ts' ! t = Cancelled)) \<Longrightarrow> live q ts ws = live q ts' ws"
  unfolding live_def by (intro arg_cong [where f = length] filter_cong) auto

lemma live_new:
  "waits_ok ts ws \<Longrightarrow> live q (ts @ [Running]) (ws @ [(length ts, p)]) = live q ts ws + (if p \<in> q then 1 else 0)"
proof -
  assume w: "waits_ok ts ws"
  have "live q (ts @ [Running]) ws = live q ts ws"
    by (rule live_other) (use w in \<open>fastforce simp: waits_ok_def nth_append\<close>)
  then show ?thesis by (simp add: live_append live_Cons) (simp add: live_def)
qed

lemma waits_new: "waits_ok ts ws \<Longrightarrow> waits_ok (ts @ [Running]) (ws @ [(length ts, p)])"
  by (fastforce simp: waits_ok_def)

lemma live_elapse: "ts ! t = Running \<Longrightarrow> live q (ts[t := Elapsed]) ws = live q ts ws"
  by (rule live_other) (metis nth_list_update_eq nth_list_update_neq list_update_beyond not_le timer_phase.distinct(3) timer_phase.distinct(5))

lemma live_cancel:
  assumes "waits_ok ts ws" "(t, p) \<in> set ws" "ts ! t \<noteq> Cancelled"
  shows "live q (ts[t := Cancelled]) ws + (if p \<in> q then 1 else 0) = live q ts ws"
proof -
  obtain xs ys where ws: "ws = xs @ (t, p) # ys" using assms(2) by (meson split_list)
  have t: "t < length ts" using assms(1,2) by (auto simp: waits_ok_def)
  have "live q (ts[t := Cancelled]) zs = live q ts zs" if "set zs \<subseteq> set xs \<union> set ys" for zs
  proof (rule live_other)
    fix u r
    assume "(u, r) \<in> set zs"
    then have "u \<noteq> t" using that assms(1) by (force simp: waits_ok_def ws)
    then show "(ts[t := Cancelled] ! u = Cancelled) = (ts ! u = Cancelled)" by simp
  qed
  from this [of xs] this [of ys] show ?thesis using assms(3) t by (simp add: ws live_append live_Cons)
qed

lemma drop_nth_split: "i < length xs \<Longrightarrow> xs = take i xs @ xs ! i # drop (Suc i) xs"
  by (rule id_take_nth_drop)

lemma live_drop:
  "i < length ws \<Longrightarrow> ws ! i = (t, p) \<Longrightarrow>
   live q ts ws = live q ts (drop_nth i ws) + (if p \<in> q \<and> ts ! t \<noteq> Cancelled then 1 else 0)"
  using drop_nth_split [of i ws] live_append [of q ts "take i ws" "(t, p) # drop (Suc i) ws"]
  by (simp add: drop_nth_def live_append live_Cons)

lemma set_drop_nth: "set (drop_nth i xs) \<subseteq> set xs"
  unfolding drop_nth_def by (auto dest: in_set_takeD in_set_dropD)

lemma waits_drop: "waits_ok ts ws \<Longrightarrow> waits_ok ts (drop_nth i ws)"
proof -
  assume w: "waits_ok ts ws"
  have "map fst (drop_nth i ws) = take i (map fst ws) @ drop (Suc i) (map fst ws)"
    by (simp add: drop_nth_def take_map drop_map)
  then have "distinct (map fst (drop_nth i ws))"
    using w by (simp add: waits_ok_def set_take_disj_set_drop_if_distinct)
  with w set_drop_nth [of i ws] show ?thesis unfolding waits_ok_def by blast
qed


definition is_init :: "callback \<Rightarrow> bool" where
  "is_init c \<longleftrightarrow> (case c of Called_init e \<Rightarrow> True | _ \<Rightarrow> False)"

definition is_shutdown :: "callback \<Rightarrow> bool" where
  "is_shutdown c \<longleftrightarrow> (case c of Called_shutdown e \<Rightarrow> True | _ \<Rightarrow> False)"

definition calls_where :: "(callback \<Rightarrow> bool) \<Rightarrow> asio_con \<Rightarrow> nat" where
  "calls_where f a = length (filter f (ac_calls a))"

definition proxy_ops :: "asio_con \<Rightarrow> asio_op list" where
  "proxy_ops a = filter (\<lambda>p. p = Op_proxy_write \<or> p = Op_proxy_read) (ac_ops a)"

definition proxy_waits :: "asio_con \<Rightarrow> bool" where
  "proxy_waits a \<longleftrightarrow> (\<exists>d. ac_proxy_data a = Some d \<and> p_timer d < length (ac_timers a) \<and> ac_timers a ! p_timer d \<noteq> Cancelled \<and>
     ((p_timer d, Proxy_timer) \<in> set (ac_waits a) \<or> expired (p_timer d) a))"

text \<open>
  \<open>k\<close> starts and \<open>n\<close> shutdowns were asked for: each has been called back or has a timer that will call back. The
  completion of a request to the proxy finds the timer of the request running or elapsed.
\<close>

definition owed :: "nat \<Rightarrow> nat \<Rightarrow> asio_con \<Rightarrow> bool" where
  "owed k n a \<longleftrightarrow> waits_ok (ac_timers a) (ac_waits a) \<and>
     calls_where is_init a + live {Post_init_timer, Proxy_timer} (ac_timers a) (ac_waits a) = k \<and>
     calls_where is_shutdown a + live {Shutdown_timer} (ac_timers a) (ac_waits a) = n"

definition transport_inv :: "nat \<Rightarrow> asio_con \<Rightarrow> bool" where
  "transport_inv n a \<longleftrightarrow> owed 1 n a \<and> length (proxy_ops a) \<le> 1 \<and> (proxy_ops a \<noteq> [] \<longrightarrow> proxy_waits a)"

lemma kinds [simp]:
  "is_init (Called_init e)" "\<not> is_init (Called_shutdown e)" "\<not> is_init (Called_read e m)" "\<not> is_init (Called_write e)"
  "\<not> is_init Called_pre_init" "\<not> is_init Called_post_init" "is_shutdown (Called_shutdown e)"
  "\<not> is_shutdown (Called_init e)" "\<not> is_shutdown (Called_read e m)" "\<not> is_shutdown (Called_write e)"
  "\<not> is_shutdown Called_pre_init" "\<not> is_shutdown Called_post_init"
  by (simp_all add: is_init_def is_shutdown_def)

text \<open>A call back, and a cancelled timer.\<close>

lemma owed_call:
  "owed k n a \<Longrightarrow> owed (k + (if is_init c then 1 else 0)) (n + (if is_shutdown c then 1 else 0)) (calling_back c a)"
  by (auto simp: owed_def calls_where_def calling_back_def)

lemma owed_other:
  "ac_timers a = ac_timers b \<Longrightarrow> ac_waits a = ac_waits b \<Longrightarrow> ac_calls a = ac_calls b \<Longrightarrow> owed k n a = owed k n b"
  by (simp add: owed_def calls_where_def)

lemma owed_timer:
  "owed k n a \<Longrightarrow> transport_timer p a = (t, b) \<Longrightarrow>
   owed (k + (if p \<noteq> Shutdown_timer then 1 else 0)) (n + (if p = Shutdown_timer then 1 else 0)) b \<and>
   t = length (ac_timers a) \<and> ac_timers b = ac_timers a @ [Running] \<and> ac_waits b = ac_waits a @ [(t, p)] \<and>
   ac_calls b = ac_calls a \<and> ac_ops b = ac_ops a \<and> ac_proxy_data b = ac_proxy_data a
   \<and> ac_post_init_handler b = ac_post_init_handler a"
  by (cases p) (auto simp: transport_timer_def owed_def calls_where_def live_new waits_new)

lemma owed_cancel:
  assumes "owed k n a" "(t, p) \<in> set (ac_waits a)" "ac_timers a ! t = Running"
  shows "owed (k - (if p \<noteq> Shutdown_timer then 1 else 0)) (n - (if p = Shutdown_timer then 1 else 0)) (timer_cancel t a)
    \<and> (p \<noteq> Shutdown_timer \<longrightarrow> 0 < k) \<and> (p = Shutdown_timer \<longrightarrow> 0 < n)"
proof -
  have w: "waits_ok (ac_timers a) (ac_waits a)" using assms(1) by (simp add: owed_def)
  then have "waits_ok ((ac_timers a)[t := Cancelled]) (ac_waits a)" by (simp add: waits_ok_def)
  moreover note live_cancel [OF w assms(2), of "{Post_init_timer, Proxy_timer}"] live_cancel [OF w assms(2), of "{Shutdown_timer}"]
  ultimately show ?thesis
    using assms by (cases p) (auto simp: owed_def timer_cancel_def calls_where_def)
qed

lemma owed_post_init:
  assumes "owed k n a"
  shows "owed (Suc k) n (post_init a) \<and> ac_ops (post_init a) = ac_ops a"
proof -
  obtain t b where t: "transport_timer Post_init_timer a = (t, b)" by fastforce
  note b = owed_timer [OF assms t]
  have r: "ac_timers b ! t = Running" "(t, Post_init_timer) \<in> set (ac_waits b)" using b by auto
  have c: "owed k n (timer_cancel t b)" using owed_cancel [of "k + 1" n b t Post_init_timer] b r by simp
  have "owed k n (if ac_post_init_handler b then calling_back Called_post_init (timer_cancel t b) else timer_cancel t b)"
    using owed_call [OF c, of Called_post_init] c by simp
  from owed_call [OF this, of "Called_init None"] show ?thesis
    using r(1) b
    by (auto simp: post_init_def t handle_post_init_def expired_def Let_def calling_back_def timer_cancel_def)
qed

lemma owed_shutdown:
  assumes "owed k n a"
  shows "owed k (Suc n) (async_shutdown_socket ec a) \<and> ac_ops (async_shutdown_socket ec a) = ac_ops a
    \<and> ac_proxy_data (async_shutdown_socket ec a) = ac_proxy_data a"
proof -
  obtain t b where t: "transport_timer Shutdown_timer a = (t, b)" by fastforce
  note b = owed_timer [OF assms t]
  have r: "ac_timers b ! t = Running" "(t, Shutdown_timer) \<in> set (ac_waits b)" using b by auto
  have c: "owed k n (timer_cancel t b)" using owed_cancel [of k "n + 1" b t Shutdown_timer] b r by simp
  have "owed k (Suc n) (calling_back (Called_shutdown e) (timer_cancel t b))"
    "owed k (Suc n) (calling_back (Called_shutdown e) ((timer_cancel t b)\<lparr>ac_tec := f\<rparr>))" for e f
    using owed_call [OF c, of "Called_shutdown e"] by (simp_all add: owed_def calls_where_def calling_back_def)
  then show ?thesis
    using r(1) b
    by (auto simp: async_shutdown_socket_def t handle_async_shutdown_def expired_def Let_def calling_back_def
      timer_cancel_def split: option.splits)
qed


lemma filter_drop_nth:
  "i < length xs \<Longrightarrow> length (filter P xs) = length (filter P (drop_nth i xs)) + (if P (xs ! i) then 1 else 0)"
  "i < length xs \<Longrightarrow> \<not> P (xs ! i) \<Longrightarrow> filter P (drop_nth i xs) = filter P xs"
  using arg_cong [where f = "filter P", OF drop_nth_split [of i xs]] by (auto simp: drop_nth_def)

lemma in_drop_nth: "x \<in> set xs \<Longrightarrow> i < length xs \<Longrightarrow> x \<noteq> xs ! i \<Longrightarrow> x \<in> set (drop_nth i xs)"
  using arg_cong [where f = set, OF drop_nth_split [of i xs]] by (auto simp: drop_nth_def)

lemma proxy_waits_other:
  "ac_timers a = ac_timers b \<Longrightarrow> ac_waits a = ac_waits b \<Longrightarrow> ac_proxy_data a = ac_proxy_data b \<Longrightarrow> proxy_waits a = proxy_waits b"
  by (simp add: proxy_waits_def expired_def)

text \<open>The proxy timer of a request that completes in time still runs; cancelling it leaves one start to call back.\<close>

lemma proxy_timer_cancel:
  assumes "owed 1 n a" "proxy_waits a" "ac_proxy_data a = Some d" "\<not> expired (p_timer d) a"
  shows "owed 0 n (timer_cancel (p_timer d) a)"
proof -
  have "ac_timers a ! p_timer d = Running"
    using assms(2-4) by (cases "ac_timers a ! p_timer d") (auto simp: proxy_waits_def expired_def)
  moreover have "(p_timer d, Proxy_timer) \<in> set (ac_waits a)" using assms(2-4) by (simp add: proxy_waits_def)
  ultimately show ?thesis using owed_cancel [OF assms(1)] by fastforce
qed

lemma inv_called: "owed 0 n a \<Longrightarrow> proxy_ops a = [] \<Longrightarrow> transport_inv n (calling_back (Called_init e) a)"
  using owed_call [of 0 n a "Called_init e"] by (simp add: transport_inv_def proxy_ops_def calling_back_def)

lemma inv_proxy_write:
  assumes "owed 0 n a" "proxy_ops a = []"
  shows "transport_inv n (proxy_write a)"
proof (cases "ac_proxy_data a")
  case None
  then show ?thesis using inv_called [OF assms] by (simp add: proxy_write_def)
next
  case (Some d)
  let ?a = "a\<lparr>ac_bufs := ac_bufs a @ [request_raw (p_req d)]\<rparr>"
  obtain t b where t: "transport_timer Proxy_timer ?a = (t, b)" by fastforce
  have "owed 0 n ?a" using assms(1) owed_other [of ?a a] by simp
  note b = owed_timer [OF this t]
  let ?c = "b\<lparr>ac_proxy_data := Some (d\<lparr>p_timer := t\<rparr>), ac_ops := ac_ops b @ [Op_proxy_write], ac_wire := ac_wire b @ concat (ac_bufs b)\<rparr>"
  have "owed 1 n ?c" using b owed_other [of ?c b 1 n] by simp
  moreover have "proxy_waits ?c" using b by (simp add: proxy_waits_def nth_append)
  moreover have "proxy_ops ?c = [Op_proxy_write]" using b assms(2) by (simp add: proxy_ops_def)
  ultimately show ?thesis using Some by (simp add: proxy_write_def Let_def t transport_inv_def)
qed

lemma inv_post_init: "owed 0 n a \<Longrightarrow> proxy_ops a = [] \<Longrightarrow> transport_inv n (post_init a)"
  using owed_post_init [of 0 n a] by (simp add: transport_inv_def proxy_ops_def)

lemma proxy_write_done:
  assumes "owed 1 n a" "proxy_waits a" "proxy_ops a = []" "handle_proxy_write ec a = Some a'"
  shows "transport_inv n a'"
proof -
  let ?a = "a\<lparr>ac_bufs := []\<rparr>"
  obtain d where d: "ac_proxy_data a = Some d" using assms(2) by (auto simp: proxy_waits_def)
  have a: "owed 1 n ?a" "proxy_waits ?a" "proxy_ops ?a = []"
    using assms owed_other [of ?a a] proxy_waits_other [of ?a a] by (simp_all add: proxy_ops_def)
  have k: "transport_inv n ?a" using a by (simp add: transport_inv_def)
  let ?r = "?a\<lparr>ac_ops := ac_ops a @ [Op_proxy_read]\<rparr>"
  have "transport_inv n ?r"
    using a owed_other [of ?r ?a] proxy_waits_other [of ?r ?a] by (simp add: transport_inv_def proxy_ops_def)
  with d have r: "proxy_read ?a = Some b \<Longrightarrow> transport_inv n b" for b by (auto simp: proxy_read_def)
  have c: "transport_inv n (calling_back (Called_init e) (timer_cancel (p_timer d) ?a))" if "\<not> expired (p_timer d) ?a" for e
    using inv_called [OF proxy_timer_cancel [OF a(1,2) _ that], of e] d a(3) by (simp add: proxy_ops_def timer_cancel_def)
  show ?thesis
    using assms(4) d k r c by (auto simp: handle_proxy_write_def Let_def split: if_splits)
qed

lemma proxy_read_done:
  assumes "owed 1 n a" "proxy_waits a" "proxy_ops a = []" "handle_proxy_read ec buf a = Some a'"
  shows "transport_inv n a'"
proof -
  obtain d where d: "ac_proxy_data a = Some d" using assms(2) by (auto simp: proxy_waits_def)
  let ?c = "timer_cancel (p_timer d) a"
  have k: "transport_inv n a" using assms(1,3) by (simp add: transport_inv_def)
  have c: "owed 0 n (?c\<lparr>ac_proxy_data := x\<rparr>)" "proxy_ops (?c\<lparr>ac_proxy_data := x\<rparr>) = []" "proxy_ops ?c = []" "owed 0 n ?c"
    if "\<not> expired (p_timer d) a" for x
    using proxy_timer_cancel [OF assms(1,2) d that] owed_other [of "?c\<lparr>ac_proxy_data := x\<rparr>" ?c] assms(3)
    by (simp_all add: proxy_ops_def timer_cancel_def)
  show ?thesis
    using assms(4) d k c inv_called inv_post_init
    by (auto simp: handle_proxy_read_def Let_def split: if_splits sum.splits)
qed


definition is_do_shutdown :: "transport_event \<Rightarrow> bool" where
  "is_do_shutdown e \<longleftrightarrow> (case e of Do_shutdown ec \<Rightarrow> True | _ \<Rightarrow> False)"

lemma wait_ended_inv:
  assumes "transport_inv n a" "i < length (ac_waits a)" "ac_waits a ! i = (t, p)" "ac_timers a ! t \<noteq> Running"
  defines "b \<equiv> a\<lparr>ac_waits := drop_nth i (ac_waits a)\<rparr>"
  shows "ac_timers a ! t = Elapsed \<Longrightarrow> transport_inv n (wait_ended p None b)"
    and "ac_timers a ! t = Cancelled \<Longrightarrow> transport_inv n (wait_ended p (Some (Transport T_operation_aborted)) b)"
proof -
  have w: "waits_ok (ac_timers b) (ac_waits b)" using assms(1) by (simp add: b_def transport_inv_def owed_def waits_drop)
  have same: "ac_timers b = ac_timers a" "ac_calls b = ac_calls a" "proxy_ops b = proxy_ops a" "ac_proxy_data b = ac_proxy_data a"
    by (simp_all add: b_def proxy_ops_def)
  note l = live_drop [OF assms(2,3), of _ "ac_timers a"]
  have waits: "proxy_waits b" if pw: "proxy_waits a"
  proof -
    obtain d where d: "ac_proxy_data a = Some d" "p_timer d < length (ac_timers a)" "ac_timers a ! p_timer d \<noteq> Cancelled"
      "(p_timer d, Proxy_timer) \<in> set (ac_waits a) \<or> expired (p_timer d) a"
      using pw by (auto simp: proxy_waits_def)
    have "(p_timer d, Proxy_timer) \<in> set (ac_waits b) \<or> expired (p_timer d) b"
    proof (cases "expired (p_timer d) a")
      case True
      then show ?thesis by (simp add: expired_def same)
    next
      case False
      then have "ac_timers a ! p_timer d = Running" using d(3) by (cases "ac_timers a ! p_timer d") (auto simp: expired_def)
      then have "p_timer d \<noteq> t" using assms(4) by auto
      then show ?thesis using in_drop_nth [OF _ assms(2)] False d(4) assms(3) by (auto simp: b_def)
    qed
    then show ?thesis using d by (auto simp: proxy_waits_def same expired_def)
  qed
  have other: "transport_inv n (c\<lparr>ac_socket_cancels := m\<rparr>) = transport_inv n c" for c m
    by (simp add: transport_inv_def owed_def calls_where_def proxy_ops_def proxy_waits_def expired_def)
  show "transport_inv n (wait_ended p (Some (Transport T_operation_aborted)) b)" if "ac_timers a ! t = Cancelled"
    using assms(1) that w waits l
    by (cases p) (auto simp: wait_ended_def handle_post_init_timeout_def handle_proxy_timeout_def
      handle_async_shutdown_timeout_def transport_inv_def owed_def calls_where_def same b_def proxy_ops_def)
  assume e: "ac_timers a ! t = Elapsed"
  have call: "transport_inv n (calling_back c b)"
    if "is_init c \<and> p \<noteq> Shutdown_timer \<or> is_shutdown c \<and> \<not> is_init c \<and> p = Shutdown_timer" "is_init c \<Longrightarrow> \<not> is_shutdown c" for c
    using assms(1) that e w waits l [of "{Post_init_timer, Proxy_timer}"] l [of "{Shutdown_timer}"]
    by (cases p) (auto simp: transport_inv_def owed_def calls_where_def same b_def calling_back_def proxy_ops_def
      proxy_waits_def expired_def)
  have "calling_back c (cancel_socket_checked b) = (calling_back c b)\<lparr>ac_socket_cancels := ac_socket_cancels b + 1\<rparr>" for c
    by (simp add: calling_back_def cancel_socket_checked_def)
  then show "transport_inv n (wait_ended p None b)"
    using call by (cases p) (simp_all add: wait_ended_def handle_post_init_timeout_def handle_proxy_timeout_def
      handle_async_shutdown_timeout_def other)
qed

lemma inv_same:
  "transport_inv n a \<Longrightarrow> ac_timers b = ac_timers a \<Longrightarrow> ac_waits b = ac_waits a \<Longrightarrow> ac_proxy_data b = ac_proxy_data a \<Longrightarrow>
   filter is_init (ac_calls b) = filter is_init (ac_calls a) \<Longrightarrow> filter is_shutdown (ac_calls b) = filter is_shutdown (ac_calls a) \<Longrightarrow>
   proxy_ops b = proxy_ops a \<Longrightarrow> transport_inv n b"
  by (simp add: transport_inv_def owed_def calls_where_def proxy_waits_def expired_def)

lemma op_done_inv:
  assumes "transport_inv n a" "i < length (ac_ops a)" "op_ended (ac_ops a ! i) ec buf (a\<lparr>ac_ops := drop_nth i (ac_ops a)\<rparr>) = Some a'"
  shows "transport_inv n a'"
proof -
  let ?b = "a\<lparr>ac_ops := drop_nth i (ac_ops a)\<rparr>" and ?P = "\<lambda>p. p = Op_proxy_write \<or> p = Op_proxy_read"
  note f = filter_drop_nth [OF assms(2), of ?P]
  show ?thesis
  proof (cases "?P (ac_ops a ! i)")
    case True
    then have "proxy_ops ?b = []" "proxy_ops a \<noteq> []" using f(1) assms(1) by (auto simp: transport_inv_def proxy_ops_def)
    moreover have "owed 1 n ?b" "proxy_waits ?b = proxy_waits a"
      using assms(1) owed_other [of ?b a] proxy_waits_other [of ?b a] by (simp_all add: transport_inv_def)
    ultimately show ?thesis
      using True assms(1,3) proxy_write_done [of n ?b ec a'] proxy_read_done [of n ?b ec buf a']
      by (auto simp: op_ended_def transport_inv_def)
  next
    case False
    then have "proxy_ops ?b = proxy_ops a" using f(2) by (simp add: proxy_ops_def)
    then have b: "transport_inv n ?b" using inv_same [OF assms(1), of ?b] by simp
    show ?thesis
      using assms(3) False
      by (cases "ac_ops a ! i")
        (auto simp: op_ended_def handle_async_read_def handle_async_write_def calling_back_def proxy_ops_def
          intro!: inv_same [OF b] split: option.splits if_splits)
  qed
qed

lemma transport_do_inv:
  assumes "transport_inv n a" "transport_do e a = Some a'"
  shows "transport_inv (n + (if is_do_shutdown e then 1 else 0)) a'"
proof (cases e)
  case Do_read
  then show ?thesis using assms
    by (auto simp: async_read_at_least_def is_do_shutdown_def proxy_ops_def intro!: inv_same [OF assms(1)])
next
  case (Do_write bufs)
  then show ?thesis using assms
    by (auto simp: async_write_buffers_def Let_def is_do_shutdown_def proxy_ops_def intro!: inv_same [OF assms(1)])
next
  case (Do_shutdown ec)
  let ?b = "async_shutdown_socket ec a"
  have s: "owed 1 (Suc n) ?b" "ac_ops ?b = ac_ops a" "ac_proxy_data ?b = ac_proxy_data a"
    using owed_shutdown [of 1 n a ec] assms(1) by (simp_all add: transport_inv_def)
  have "proxy_waits ?b" if "proxy_waits a"
    using that by (auto simp: proxy_waits_def expired_def async_shutdown_socket_def transport_timer_def
      handle_async_shutdown_def timer_cancel_def calling_back_def Let_def nth_append nth_list_update split: option.splits)
  then show ?thesis using s assms Do_shutdown by (auto simp: transport_inv_def is_do_shutdown_def proxy_ops_def)
next
  case (Time_passes t)
  show ?thesis
  proof (cases "t < length (ac_timers a) \<and> ac_timers a ! t = Running")
    case True
    let ?b = "a\<lparr>ac_timers := (ac_timers a)[t := Elapsed]\<rparr>"
    have "owed 1 n ?b"
      using assms(1) True by (simp add: transport_inv_def owed_def calls_where_def live_elapse waits_ok_def)
    moreover have "proxy_waits ?b" if "proxy_waits a"
      using that True by (auto simp: proxy_waits_def expired_def nth_list_update)
    ultimately show ?thesis
      using assms True Time_passes by (auto simp: transport_inv_def is_do_shutdown_def proxy_ops_def)
  qed (use assms Time_passes in \<open>auto simp: is_do_shutdown_def\<close>)
next
  case (Wait_done i)
  then show ?thesis
    using assms wait_ended_inv [OF assms(1), of i]
    by (auto simp: is_do_shutdown_def handle_timer_def Let_def split: if_splits prod.splits timer_phase.splits)
next
  case (Op_done i ec buf)
  then show ?thesis using assms op_done_inv [OF assms(1)] by (auto simp: is_do_shutdown_def split: if_splits)
qed

lemma transport_runs:
  "transport_inv n a \<Longrightarrow> run_ops transport_do es a = Some a' \<Longrightarrow> transport_inv (n + length (filter is_do_shutdown es)) a'"
proof (induction es arbitrary: n a)
  case (Cons e es)
  then obtain b where b: "transport_do e a = Some b" "run_ops transport_do es b = Some a'" by (auto split: option.splits)
  show ?case using Cons.IH [OF transport_do_inv [OF Cons.prems(1) b(1)] b(2)] by (auto simp: ac_simps split: if_splits)
qed simp


lemma transport_init_inv:
  assumes "ac_socket a = Sock_ready" "ac_calls a = []" "ac_timers a = []" "ac_waits a = []" "ac_ops a = []"
  shows "transport_inv 0 (transport_init a)"
proof -
  let ?a = "a\<lparr>ac_socket := Sock_reading\<rparr>"
  let ?b = "if ac_pre_init_handler ?a then calling_back Called_pre_init ?a else ?a"
  have "owed 0 0 ?a" using assms by (simp add: owed_def waits_ok_def live_def calls_where_def)
  then have b: "owed 0 0 ?b" "proxy_ops ?b = []"
    using owed_call [of 0 0 ?a Called_pre_init] assms(5) by (simp_all add: proxy_ops_def calling_back_def)
  show ?thesis
    using assms(1) inv_proxy_write [OF b] inv_post_init [OF b]
    by (simp add: transport_init_def handle_pre_init_def Let_def)
qed


text \<open>A start of a socket that is not ready is reported to the handler, and then the start goes on and succeeds.\<close>

lemma second_init:
  assumes "ac_socket a \<noteq> Sock_ready" "ac_proxy a = []" "\<not> ac_pre_init_handler a" "\<not> ac_post_init_handler a" "ac_calls a = []"
  shows "ac_calls (transport_init a) = [Called_init (Some (Socket S_invalid_state)), Called_init None]"
  using assms
  by (simp add: transport_init_def handle_pre_init_def Let_def post_init_def transport_timer_def handle_post_init_def
      expired_def calling_back_def timer_cancel_def)

text \<open>A proxy that is asked and does not answer: the wait for its timer ends the start with an error.\<close>

definition proxied :: asio_con where
  "proxied = (set_proxy (bytes_of ''http://proxy:8080/'') new_asio_con)\<lparr>ac_socket := Sock_ready\<rparr>"


end
