(* ===== verification/WsSha1.thy ===== *)
theory WsSha1
  imports Prelude
begin

text \<open>
  SHA-1 (websocketpp/websocket/sha1/sha1.hpp). The arrays \<open>result\<close> and \<open>w\<close> are lists; \<open>w\<close> is not
  initialised by the code, so that its first contents are an argument. The end compares the routine with a
  reference: the message schedule and the rounds of FIPS 180, over the message padded with its length.
\<close>

subsection \<open>The rounds\<close>

definition rol :: "u32 \<Rightarrow> nat \<Rightarrow> u32" where
  "rol v steps = push_bit steps v OR drop_bit (32 - steps) v"

definition clearWBuffert :: "u32 list \<Rightarrow> u32 list" where
  "clearWBuffert buffert = fold (\<lambda>pos b. b[pos := 0]) (rev [0..<16]) buffert"

type_synonym five = "u32 \<times> u32 \<times> u32 \<times> u32 \<times> u32"

definition sha1macro :: "(u32 \<Rightarrow> u32 \<Rightarrow> u32 \<Rightarrow> u32) \<Rightarrow> u32 \<Rightarrow> u32 list \<Rightarrow> nat \<Rightarrow> five \<Rightarrow> five" where
  "sha1macro func val w round abcde =
     (case abcde of (a, b, c, d, e) \<Rightarrow> (rol a 5 + func b c d + e + val + w ! round, a, rol b 30, c, d))"

definition expand :: "u32 list \<Rightarrow> nat \<Rightarrow> u32 list" where
  "expand w round =
     w[round := rol (w ! (round - 3) XOR w ! (round - 8) XOR w ! (round - 14) XOR w ! (round - 16)) 1]"

definition choose_bits :: "u32 \<Rightarrow> u32 \<Rightarrow> u32 \<Rightarrow> u32" where
  "choose_bits b c d = (b AND c) OR (NOT b AND d)"

definition parity_bits :: "u32 \<Rightarrow> u32 \<Rightarrow> u32 \<Rightarrow> u32" where
  "parity_bits b c d = b XOR c XOR d"

definition majority_bits :: "u32 \<Rightarrow> u32 \<Rightarrow> u32 \<Rightarrow> u32" where
  "majority_bits b c d = (b AND c) OR (b AND d) OR (c AND d)"

definition expanding :: "(u32 \<Rightarrow> u32 \<Rightarrow> u32 \<Rightarrow> u32) \<Rightarrow> u32 \<Rightarrow> nat \<Rightarrow> u32 list \<times> five \<Rightarrow> u32 list \<times> five" where
  "expanding func val round ws =
     (case ws of (w, s) \<Rightarrow> (let w = expand w round in (w, sha1macro func val w round s)))"

definition innerHash :: "u32 list \<Rightarrow> u32 list \<Rightarrow> u32 list \<times> u32 list" where
  "innerHash result w =
     (let s = (result ! 0, result ! 1, result ! 2, result ! 3, result ! 4);
          s = fold (sha1macro choose_bits 0x5a827999 w) [0..<16] s;
          ws = fold (expanding choose_bits 0x5a827999) [16..<20] (w, s);
          ws = fold (expanding parity_bits 0x6ed9eba1) [20..<40] ws;
          ws = fold (expanding majority_bits 0x8f1bbcdc) [40..<60] ws;
          ws = fold (expanding parity_bits 0xca62c1d6) [60..<80] ws
      in case ws of (w, a, b, c, d, e) \<Rightarrow>
           ([result ! 0 + a, result ! 1 + b, result ! 2 + c, result ! 3 + d, result ! 4 + e], w))"

subsection \<open>The hash of a message\<close>

definition load_word :: "byte list \<Rightarrow> nat \<Rightarrow> u32" where
  "load_word sarray p = ucast (sarray ! (p + 3)) OR push_bit 8 (ucast (sarray ! (p + 2)))
     OR push_bit 16 (ucast (sarray ! (p + 1))) OR push_bit 24 (ucast (sarray ! p))"

definition load_block :: "byte list \<Rightarrow> nat \<Rightarrow> u32 list \<Rightarrow> u32 list" where
  "load_block sarray currentBlock w =
     fold (\<lambda>roundPos w. w[roundPos := load_word sarray (currentBlock + 4 * roundPos)]) [0..<16] w"

function calc_blocks :: "byte list \<Rightarrow> nat \<Rightarrow> u32 list \<Rightarrow> u32 list \<Rightarrow> nat \<times> u32 list \<times> u32 list" where
  "calc_blocks sarray currentBlock result w =
     (if length sarray \<ge> 64 \<and> currentBlock \<le> length sarray - 64 then
        (case innerHash result (load_block sarray currentBlock w) of
           (result, w) \<Rightarrow> calc_blocks sarray (currentBlock + 64) result w)
      else (currentBlock, result, w))"
  by pat_completeness auto
termination by (relation "measure (\<lambda>(sarray, currentBlock, r, w). length sarray + 64 - currentBlock)") auto

declare calc_blocks.simps [simp del]

definition or_byte :: "nat \<Rightarrow> u32 \<Rightarrow> u32 list \<Rightarrow> u32 list" where
  "or_byte n x w = w[n div 4 := w ! (n div 4) OR push_bit ((3 - n mod 4) * 8) x]"

definition sha1_init :: "u32 list" where
  "sha1_init = [0x67452301, 0xefcdab89, 0x98badcfe, 0x10325476, 0xc3d2e1f0]"

definition store_hash :: "u32 list \<Rightarrow> byte list" where
  "store_hash result =
     map (\<lambda>hashByte. ucast (drop_bit (nat ((3 - int hashByte) mod 4) * 8) (result ! (hashByte div 4)) AND 0xff)) [0..<20]"

definition calc :: "byte list \<Rightarrow> u32 list \<Rightarrow> byte list" where
  "calc sarray w =
     (case calc_blocks sarray 0 sha1_init w of (currentBlock, result, w) \<Rightarrow>
        (let endCurrentBlock = length sarray - currentBlock;
             w = clearWBuffert w;
             w = fold (\<lambda>n w. or_byte n (ucast (sarray ! (n + currentBlock))) w) [0..<endCurrentBlock] w;
             w = or_byte endCurrentBlock 0x80 w;
             (result, w) = (if endCurrentBlock \<ge> 56
                            then (case innerHash result w of (result, w) \<Rightarrow> (result, clearWBuffert w))
                            else (result, w));
             w = w[15 := word_of_nat (length sarray * 8)];
             (result, w) = innerHash result w
         in store_hash result))"

subsection \<open>The reference\<close>

definition sha_f :: "nat \<Rightarrow> u32 \<Rightarrow> u32 \<Rightarrow> u32 \<Rightarrow> u32" where
  "sha_f t x y z = (if t < 20 then (x AND y) XOR (NOT x AND z)
                    else if 40 \<le> t \<and> t < 60 then (x AND y) XOR (x AND z) XOR (y AND z)
                    else x XOR y XOR z)"

definition sha_k :: "nat \<Rightarrow> u32" where
  "sha_k t = (if t < 20 then 0x5a827999 else if t < 40 then 0x6ed9eba1 else if t < 60 then 0x8f1bbcdc else 0xca62c1d6)"

fun schedule :: "u32 list \<Rightarrow> nat \<Rightarrow> u32" where
  "schedule m t = (if t < 16 then m ! t
     else word_rotl 1 (schedule m (t - 3) XOR schedule m (t - 8) XOR schedule m (t - 14) XOR schedule m (t - 16)))"

declare schedule.simps [simp del]

definition sha_round :: "u32 list \<Rightarrow> nat \<Rightarrow> five \<Rightarrow> five" where
  "sha_round m t abcde = (case abcde of (a, b, c, d, e) \<Rightarrow>
     (word_rotl 5 a + sha_f t b c d + e + sha_k t + schedule m t, a, word_rotl 30 b, c, d))"

definition compress :: "five \<Rightarrow> u32 list \<Rightarrow> five" where
  "compress h m = (case (h, fold (sha_round m) [0..<80] h) of
     ((h0, h1, h2, h3, h4), (a, b, c, d, e)) \<Rightarrow> (h0 + a, h1 + b, h2 + c, h3 + d, h4 + e))"

definition sha_word :: "byte list \<Rightarrow> u32" where
  "sha_word bs = word_of_nat (be_val bs)"

definition block_words :: "byte list \<Rightarrow> u32 list" where
  "block_words bs = map (\<lambda>i. sha_word (take 4 (drop (4 * i) bs))) [0..<16]"

function sha_blocks :: "byte list \<Rightarrow> byte list list" where
  "sha_blocks bs = (if length bs < 64 then [] else take 64 bs # sha_blocks (drop 64 bs))"
  by pat_completeness auto
termination by (relation "measure length") auto

declare sha_blocks.simps [simp del]

definition sha_pad :: "byte list \<Rightarrow> byte list" where
  "sha_pad bs = bs @ [0x80] @ replicate ((119 - length bs mod 64) mod 64) 0 @ be_bytes 8 (8 * length bs)"

definition sha1_reference :: "byte list \<Rightarrow> byte list" where
  "sha1_reference bs =
     (case foldl compress (0x67452301, 0xefcdab89, 0x98badcfe, 0x10325476, 0xc3d2e1f0)
             (map block_words (sha_blocks (sha_pad bs))) of
        (a, b, c, d, e) \<Rightarrow> concat (map (\<lambda>x. be_bytes 4 (unat x)) [a, b, c, d, e]))"

subsection \<open>One block\<close>

lemma rol_rotl: "0 < n \<Longrightarrow> n < 32 \<Longrightarrow> rol v n = word_rotl n v"
proof (rule bit_eqI)
  fix m
  assume n: "0 < n" "n < 32" and "possible_bit TYPE(32 word) m"
  then have m: "m < 32" by (simp add: possible_bit_word)
  show "bit (rol v n) m = bit (word_rotl n v) m"
  proof (cases "m < n")
    case True
    then have "(m + (32 - n)) mod 32 = m + (32 - n)" using n by simp
    moreover have "32 - n + m = m + (32 - n)" by simp
    ultimately show ?thesis using True m n by (simp add: rol_def bit_simps bit_word_rotl_iff)
  next
    case False
    then have "m + (32 - n) = m - n + 32" using n by simp
    then have "(m + (32 - n)) mod 32 = (m - n) mod 32" by (simp only: mod_add_self2)
    then have "(m + (32 - n)) mod 32 = m - n" using m by (simp only: mod_less less_imp_diff_less)
    moreover have "\<not> bit v (32 - n + m)" using False n by (auto dest: bit_imp_le_length)
    ultimately show ?thesis using False m n by (simp add: rol_def bit_simps bit_word_rotl_iff)
  qed
qed

lemma choose_xor: "choose_bits b c d = (b AND c) XOR (NOT b AND d)"
  by (rule bit_eqI) (auto simp: choose_bits_def bit_simps)

lemma majority_xor: "majority_bits b c d = (b AND c) XOR (b AND d) XOR (c AND d)"
  by (rule bit_eqI) (auto simp: majority_bits_def bit_simps)

definition any_round :: "nat \<Rightarrow> u32 list \<times> five \<Rightarrow> u32 list \<times> five" where
  "any_round t ws = (case ws of (w, s) \<Rightarrow>
     (let w = (if t < 16 then w else expand w t) in (w, sha1macro (sha_f t) (sha_k t) w t s)))"

lemma expanding_any:
  "16 \<le> t \<Longrightarrow> t < 20 \<Longrightarrow> expanding choose_bits 0x5a827999 t = any_round t"
  "20 \<le> t \<Longrightarrow> t < 40 \<Longrightarrow> expanding parity_bits 0x6ed9eba1 t = any_round t"
  "40 \<le> t \<Longrightarrow> t < 60 \<Longrightarrow> expanding majority_bits 0x8f1bbcdc t = any_round t"
  "60 \<le> t \<Longrightarrow> t < 80 \<Longrightarrow> expanding parity_bits 0xca62c1d6 t = any_round t"
  by (auto simp: fun_eq_iff expanding_def any_round_def Let_def sha1macro_def sha_f_def sha_k_def
        choose_xor parity_bits_def majority_xor)

lemma first_any: "(w, fold (sha1macro choose_bits 0x5a827999 w) [0..<n] s) = fold any_round [0..<n] (w, s)" if "n \<le> 16"
  using that
proof (induction n)
  case (Suc n)
  from Suc.IH [THEN sym] Suc.prems show ?case
    by (simp add: any_round_def Let_def sha1macro_def sha_f_def sha_k_def choose_xor split: prod.splits)
qed simp

lemma fold_upt_cong: "(\<And>t. i \<le> t \<Longrightarrow> t < j \<Longrightarrow> f t = g t) \<Longrightarrow> fold f [i..<j] s = fold g [i..<j] s"
  by (rule fold_cong) auto

lemma upt_five: "[0..<80] = [0..<16] @ [16..<20] @ [20..<40] @ [40..<60] @ [60..<80]"
  using upt_add_eq_append [of 0 60 20] upt_add_eq_append [of 0 40 20] upt_add_eq_append [of 0 20 20]
    upt_add_eq_append [of 0 16 4] by (simp del: upt_Suc upt_conv_Cons)

lemma innerHash_any:
  "innerHash result w =
     (case fold any_round [0..<80] (w, result ! 0, result ! 1, result ! 2, result ! 3, result ! 4) of
        (w, a, b, c, d, e) \<Rightarrow>
          ([result ! 0 + a, result ! 1 + b, result ! 2 + c, result ! 3 + d, result ! 4 + e], w))"
proof -
  have e: "fold (expanding choose_bits 0x5a827999) [16..<20] ws = fold any_round [16..<20] ws"
    "fold (expanding parity_bits 0x6ed9eba1) [20..<40] ws = fold any_round [20..<40] ws"
    "fold (expanding majority_bits 0x8f1bbcdc) [40..<60] ws = fold any_round [40..<60] ws"
    "fold (expanding parity_bits 0xca62c1d6) [60..<80] ws = fold any_round [60..<80] ws" for ws
    by (rule fold_upt_cong, erule (1) expanding_any)+
  show ?thesis
    unfolding innerHash_def Let_def first_any [OF order_refl] e upt_five fold_append comp_apply ..
qed


lemma schedule_step:
  assumes "16 \<le> t"
  shows "schedule m t = word_rotl 1 (schedule m (t - 3) XOR schedule m (t - 8) XOR schedule m (t - 14) XOR schedule m (t - 16))"
  using assms by (subst schedule.simps) simp

text \<open>After \<open>t\<close> rounds the buffer holds the schedule as far as it was needed.\<close>

lemma rounds_schedule:
  assumes w: "length w = 80"
  shows "t \<le> 80 \<Longrightarrow> \<exists>w'. fold any_round [0..<t] (w, s) = (w', fold (sha_round (take 16 w)) [0..<t] s)
           \<and> length w' = 80 \<and> (\<forall>i. i < 16 \<or> i < t \<longrightarrow> w' ! i = schedule (take 16 w) i)"
proof (induction t)
  case 0
  show ?case using w by (auto simp: schedule.simps [of _ "_ :: nat"])
next
  case (Suc t)
  let ?m = "take 16 w"
  from Suc obtain w' where w': "fold any_round [0..<t] (w, s) = (w', fold (sha_round ?m) [0..<t] s)"
    "length w' = 80" "\<And>i. i < 16 \<or> i < t \<Longrightarrow> w' ! i = schedule ?m i" by auto
  let ?w = "if t < 16 then w' else expand w' t"
  have "expand w' t = w'[t := schedule ?m t]" if "16 \<le> t"
    using that w'(3) [of "t - 3"] w'(3) [of "t - 8"] w'(3) [of "t - 14"] w'(3) [of "t - 16"]
    by (simp add: expand_def schedule_step rol_rotl)
  then have sch: "\<And>i. i < 16 \<or> i < Suc t \<Longrightarrow> ?w ! i = schedule ?m i" and len: "length ?w = 80"
    using w'(2,3) Suc.prems by (auto simp: nth_list_update)
  have "any_round t (w', s') = (?w, sha_round ?m t s')" for s'
    using sch [of t] by (simp add: any_round_def Let_def sha1macro_def sha_round_def rol_rotl del: if_split split: prod.splits)
  with sch len w'(1) show ?case by simp
qed

definition five_of :: "u32 list \<Rightarrow> five" where
  "five_of r = (r ! 0, r ! 1, r ! 2, r ! 3, r ! 4)"

lemma innerHash_compress:
  assumes "length w = 80"
  shows "\<exists>r w'. innerHash result w = (r, w') \<and> length w' = 80 \<and> length r = 5
           \<and> five_of r = compress (five_of result) (take 16 w)"
  using rounds_schedule [OF assms, of 80 "five_of result"]
  by (auto simp: innerHash_any five_of_def compress_def simp del: upt_conv_Cons upt_Suc split: prod.splits)


subsection \<open>The bytes of a block\<close>

lemma load_word_val:
  "ucast d OR push_bit 8 (ucast c) OR push_bit 16 (ucast b) OR push_bit 24 (ucast (a :: byte)) = sha_word [a, b, c, d]"
proof -
  let ?x = "\<lambda>x. ucast (x :: byte) :: u32"
  have "push_bit 24 (?x a) AND push_bit 16 (?x b) = 0" "(push_bit 24 (?x a) OR push_bit 16 (?x b)) AND push_bit 8 (?x c) = 0"
    "(push_bit 24 (?x a) OR push_bit 16 (?x b) OR push_bit 8 (?x c)) AND ?x d = 0"
    by (rule bit_eqI; auto simp: bit_simps dest!: bit_imp_le_length)+
  then have "push_bit 24 (?x a) + push_bit 16 (?x b) + push_bit 8 (?x c) + ?x d
      = push_bit 24 (?x a) OR push_bit 16 (?x b) OR push_bit 8 (?x c) OR ?x d"
    by (simp add: disjunctive_add_eq_or or.assoc)
  moreover have "sha_word [a, b, c, d] = push_bit 24 (?x a) + push_bit 16 (?x b) + push_bit 8 (?x c) + ?x d"
    by (simp add: sha_word_def push_bit_eq_mult unsigned_ucast_eq algebra_simps)
  ultimately show ?thesis by (simp add: ac_simps)
qed


lemma load_word_sha: "load_word m p = sha_word [m ! p, m ! (p + 1), m ! (p + 2), m ! (p + 3)]"
  using load_word_val by (simp add: load_word_def)

lemma take_four: "k + 4 \<le> length bs \<Longrightarrow> take 4 (drop k bs) = [bs ! k, bs ! (k + 1), bs ! (k + 2), bs ! (k + 3)]"
  by (rule nth_equalityI) (auto simp: less_Suc_eq numeral_eq_Suc)

lemma length_block_words [simp]: "length (block_words bs) = 16"
  by (simp add: block_words_def del: upt_Suc upt_conv_Cons)

lemma nth_block_words:
  assumes "i < 16" "length bs = 64"
  shows "block_words bs ! i = sha_word [bs ! (4 * i), bs ! (4 * i + 1), bs ! (4 * i + 2), bs ! (4 * i + 3)]"
  using assms by (simp add: block_words_def take_four del: upt_Suc upt_conv_Cons)

lemma fold_update: "n \<le> length w \<Longrightarrow> fold (\<lambda>i w. w[i := f i]) [0..<n] w = map f [0..<n] @ drop n w"
proof (induction n)
  case (Suc n)
  then show ?case
    by (simp add: list_update_append) (metis Cons_nth_drop_Suc Suc_le_eq list_update_code(2))
qed simp

lemma fold_clear: "n \<le> length w \<Longrightarrow> fold (\<lambda>i w. w[i := 0]) (rev [0..<n]) w = replicate n 0 @ drop n w"
proof (induction n arbitrary: w)
  case (Suc n)
  then have "drop n (w[n := 0]) = 0 # drop (Suc n) w"
    by (metis Cons_nth_drop_Suc Suc_le_eq drop_update_swap drop_update_cancel length_list_update lessI nth_list_update_eq)
  with Suc show ?case by (simp add: replicate_append_same [symmetric])
qed simp

lemma clear_words:
  assumes "length w = 80"
  shows "take 16 (clearWBuffert w) = block_words (replicate 64 0) \<and> length (clearWBuffert w) = 80"
proof -
  have "block_words (replicate 64 0) = replicate 16 0"
    by (rule nth_equalityI) (simp_all add: nth_block_words sha_word_def)
  with assms fold_clear [of 16 w] show ?thesis by (simp add: clearWBuffert_def del: upt_Suc upt_conv_Cons)
qed

lemma load_words:
  assumes "length w = 80" "cb + 64 \<le> length m"
  shows "take 16 (load_block m cb w) = block_words (take 64 (drop cb m)) \<and> length (load_block m cb w) = 80"
proof -
  have "load_block m cb w = map (\<lambda>i. load_word m (cb + 4 * i)) [0..<16] @ drop 16 w"
    unfolding load_block_def using assms(1) by (intro fold_update) simp
  moreover have "map (\<lambda>i. load_word m (cb + 4 * i)) [0..<16] = block_words (take 64 (drop cb m))"
    by (rule nth_equalityI)
      (use assms(2) in \<open>simp_all add: nth_block_words load_word_sha add.assoc del: upt_Suc upt_conv_Cons\<close>)
  ultimately show ?thesis using assms(1) by (simp del: upt_Suc upt_conv_Cons)
qed


subsection \<open>The last bytes\<close>

lemma sha_word_or:
  "sha_word [x, b, c, d] = sha_word [0, b, c, d] OR push_bit 24 (ucast x)"
  "sha_word [a, x, c, d] = sha_word [a, 0, c, d] OR push_bit 16 (ucast x)"
  "sha_word [a, b, x, d] = sha_word [a, b, 0, d] OR push_bit 8 (ucast x)"
  "sha_word [a, b, c, x] = sha_word [a, b, c, 0] OR ucast x"
  by (simp_all add: load_word_val [symmetric] ac_simps)

lemma or_byte_words:
  assumes w: "length w = 80" "take 16 w = block_words bs" and bs: "length bs = 64" "n < 64" "bs ! n = 0"
  shows "take 16 (or_byte n (ucast (x :: byte)) w) = block_words (bs[n := x]) \<and> length (or_byte n (ucast x) w) = 80"
proof -
  have i: "n div 4 < 16" using bs(2) by simp
  have nw: "w ! i = block_words bs ! i" if "i < 16" for i using w that by (metis nth_take)
  obtain r where r: "n = 4 * (n div 4) + r" "r < 4" "n mod 4 = r" using mult_div_mod_eq [of 4 n] by (metis mod_less_divisor zero_less_numeral)
  then consider "r = 0" | "r = 1" | "r = 2" | "r = 3" by linarith
  then have "block_words (bs[n := x]) ! (n div 4) = block_words bs ! (n div 4) OR push_bit ((3 - n mod 4) * 8) (ucast x)"
  proof cases
    case 1
    with r bs i show ?thesis by (simp add: nth_block_words sha_word_or(1) [of x])
  next
    case 2
    with r bs i show ?thesis by (simp add: nth_block_words sha_word_or(2) [of _ x])
  next
    case 3
    with r bs i show ?thesis by (simp add: nth_block_words sha_word_or(3) [of _ _ x])
  next
    case 4
    with r bs i show ?thesis by (simp add: nth_block_words sha_word_or(4) [of _ _ _ x])
  qed
  moreover have "block_words (bs[n := x]) ! i = block_words bs ! i" if "i < 16" "i \<noteq> n div 4" for i
  proof -
    have "n \<noteq> 4 * i" "n \<noteq> 4 * i + 1" "n \<noteq> 4 * i + 2" "n \<noteq> 4 * i + 3" using that(2) by auto
    then show ?thesis using that(1) bs by (simp add: nth_block_words)
  qed
  ultimately have "take 16 (or_byte n (ucast x) w) = block_words (bs[n := x])"
    using w(1) i nw by (intro nth_equalityI) (auto simp: or_byte_def nth_list_update)
  then show ?thesis using w by (simp add: or_byte_def)
qed


lemma replicate_first: "n < 64 \<Longrightarrow> replicate (64 - n) x = x # replicate (63 - n) x"
  by (simp flip: replicate_Suc add: Suc_diff_Suc)

lemma tail_words:
  assumes w: "length w = 80" "take 16 w = block_words (replicate 64 0)"
  shows "n \<le> length ts \<Longrightarrow> n < 64 \<Longrightarrow>
    take 16 (fold (\<lambda>n. or_byte n (ucast (ts ! n))) [0..<n] w) = block_words (take n ts @ replicate (64 - n) (0 :: byte))
    \<and> length (fold (\<lambda>n. or_byte n (ucast (ts ! n))) [0..<n] w) = 80"
proof (induction n)
  case (Suc n)
  let ?b = "take n ts @ replicate (64 - n) (0 :: byte)"
  have "?b[n := ts ! n] = take (Suc n) ts @ replicate (64 - Suc n) 0" "?b ! n = 0"
    using Suc.prems by (simp_all add: replicate_first list_update_append nth_append take_Suc_conv_app_nth)
  with Suc or_byte_words [of _ ?b n "ts ! n"] show ?case by simp
qed (use w in simp)

lemma be_bytes_split: "be_bytes (j + k) v = be_bytes j (v div 256 ^ k) @ be_bytes k v"
  by (induction j) (simp_all add: div_mult2_eq [symmetric] power_add ac_simps)

lemma be_bytes_0: "be_bytes j 0 = replicate j 0"
  by (induction j) simp_all

lemma block_words_length:
  assumes "length bs = 56" "v < 2 ^ 32" "take 16 w = block_words (bs @ replicate 8 0)" "length w = 80"
  shows "take 16 (w[15 := word_of_nat v]) = block_words (bs @ be_bytes 8 v)"
proof -
  have v: "v div 256 ^ 4 = 0" using assms(2) by simp
  have b8: "be_bytes 8 v = replicate 4 0 @ be_bytes 4 v"
    using be_bytes_split [of 4 4 v] by (simp only: v be_bytes_0 semiring_norm numeral_plus_numeral)
  have last: "sha_word [be_bytes 4 v ! 0, be_bytes 4 v ! 1, be_bytes 4 v ! 2, be_bytes 4 v ! 3] = word_of_nat v"
  proof -
    have "[be_bytes 4 v ! 0, be_bytes 4 v ! 1, be_bytes 4 v ! 2, be_bytes 4 v ! 3] = be_bytes 4 v"
      using take_four [of 0 "be_bytes 4 v"] by (simp add: numeral_2_eq_2 del: be_bytes_numeral)
    then show ?thesis using assms(2) by (simp add: sha_word_def del: be_bytes_numeral)
  qed
  have nw: "w ! i = block_words (bs @ replicate 8 0) ! i" if "i < 16" for i using assms(3) that by (metis nth_take)
  show ?thesis
  proof (rule nth_equalityI)
    fix i
    assume "i < length (take 16 (w[15 := word_of_nat v]))"
    then have i: "i < 16" by simp
    then consider "i < 14" | "i = 14" | "i = 15" by linarith
    then show "take 16 (w[15 := word_of_nat v]) ! i = block_words (bs @ be_bytes 8 v) ! i"
    proof cases
      case 3
      then show ?thesis using assms(1,4) last by (simp add: nth_block_words b8 nth_append del: be_bytes_numeral)
    qed (use i assms(1,4) nw in \<open>simp_all add: nth_block_words nth_append b8 del: be_bytes_numeral\<close>)
  qed (use assms(4) in simp)
qed


subsection \<open>The blocks\<close>

lemma sha_blocks_append: "length xs = 64 * q \<Longrightarrow> sha_blocks (xs @ ys) = sha_blocks xs @ sha_blocks ys"
proof (induction q arbitrary: xs)
  case (Suc q)
  then show ?case
    by (subst (1 2) sha_blocks.simps) simp
qed (simp add: sha_blocks.simps [of "[]"])

lemma sha_blocks_one: "length xs = 64 \<Longrightarrow> sha_blocks xs = [xs]"
  by (subst sha_blocks.simps, subst sha_blocks.simps) simp

lemma sha_blocks_short: "length xs < 64 \<Longrightarrow> sha_blocks xs = []"
  by (subst sha_blocks.simps) simp

lemma calc_blocks_words:
  assumes "cb \<le> length m" "length w = 80" "length r = 5"
  shows "\<exists>r' w'. calc_blocks m cb r w = (cb + 64 * ((length m - cb) div 64), r', w') \<and> length w' = 80 \<and> length r' = 5
    \<and> five_of r' = foldl compress (five_of r) (map block_words (sha_blocks (drop cb m)))"
  using assms
proof (induction m cb r w rule: calc_blocks.induct)
  case (1 m cb r w)
  show ?case
  proof (cases "64 \<le> length m \<and> cb \<le> length m - 64")
    case True
    then have cb: "cb + 64 \<le> length m" by linarith
    obtain r1 w1 where h: "innerHash r (load_block m cb w) = (r1, w1)" "length w1 = 80" "length r1 = 5"
      "five_of r1 = compress (five_of r) (block_words (take 64 (drop cb m)))"
      using innerHash_compress [of "load_block m cb w" r] load_words [OF 1(3) cb] by auto
    from 1(1) [OF True h(1) [symmetric] cb h(2,3)]
    obtain r' w' where "calc_blocks m (cb + 64) r1 w1 = (cb + 64 + 64 * ((length m - (cb + 64)) div 64), r', w')"
      "length w' = 80" "length r' = 5"
      "five_of r' = foldl compress (five_of r1) (map block_words (sha_blocks (drop (cb + 64) m)))" by blast
    moreover have "64 + 64 * ((length m - (cb + 64)) div 64) = 64 * ((length m - cb) div 64)"
      using cb div_add_self2 [of 64 "length m - (cb + 64)"] by simp
    moreover have "sha_blocks (drop cb m) = take 64 (drop cb m) # sha_blocks (drop (cb + 64) m)"
      using cb by (subst sha_blocks.simps) (simp add: add.commute)
    ultimately show ?thesis using True h by (subst calc_blocks.simps) (simp add: add.assoc)
  next
    case False
    then have "length m - cb < 64" using 1(2) by linarith
    with False 1(2-4) show ?thesis by (subst calc_blocks.simps) (auto simp: sha_blocks_short)
  qed
qed


subsection \<open>The routine is SHA-1\<close>

lemma byte_eqI: "(\<And>n. n < 8 \<Longrightarrow> bit (x :: byte) n = bit y n) \<Longrightarrow> x = y"
  by (rule bit_eqI) (simp add: possible_bit_word)

lemma shift_byte: "(ucast (drop_bit (8 * k) (x :: u32) AND 0xff) :: byte) = word_of_nat (unat x div 256 ^ k)"
proof -
  have "(ucast (drop_bit (8 * k) x AND 0xff) :: byte) = ucast (drop_bit (8 * k) x)"
  proof (rule byte_eqI)
    fix n :: nat
    assume "n < 8"
    moreover have "(0xff :: u32) = mask 8" by (simp add: mask_eq_exp_minus_1)
    ultimately show "bit (ucast (drop_bit (8 * k) x AND 0xff) :: byte) n = bit (ucast (drop_bit (8 * k) x) :: byte) n"
      by (simp only: bit_simps) auto
  qed
  also have "\<dots> = word_of_nat (unat (drop_bit (8 * k) x))" by simp
  also have "unat (drop_bit (8 * k) x) = unat x div 256 ^ k"
  proof -
    have "unat (drop_bit (8 * k) x) = drop_bit (8 * k) (unat x)" by (simp add: unat_drop_bit_eq)
    then show ?thesis by (simp add: drop_bit_eq_div [of _ "unat x"] power_mult)
  qed
  finally show ?thesis .
qed

lemma store_hash_bytes:
  assumes "length r = 5" "five_of r = (a, b, c, d, e)"
  shows "store_hash r = concat (map (\<lambda>x. be_bytes 4 (unat x)) [a, b, c, d, e])"
proof -
  have "r ! 0 = a" "r ! 1 = b" "r ! 2 = c" "r ! 3 = d" "r ! 4 = e"
    using assms(2) by (simp_all add: five_of_def)
  then show ?thesis
    using shift_byte [of 0] shift_byte [of 1] shift_byte [of 2] shift_byte [of 3]
    by (simp add: store_hash_def upt_rec [of _ "Suc _"] upt_rec [of _ "numeral _"])
qed

lemma store_hash_five:
  "length r = 5 \<Longrightarrow> store_hash r =
     (case five_of r of (a, b, c, d, e) \<Rightarrow> concat (map (\<lambda>x. be_bytes 4 (unat x)) [a, b, c, d, e]))"
  by (cases "five_of r") (simp add: store_hash_bytes del: be_bytes_numeral)

lemma last_blocks:
  assumes "n < 64" "length ts = n"
  shows "sha_blocks (ts @ [0x80] @ replicate ((119 - n) mod 64) 0 @ be_bytes 8 v) =
    (if n < 56 then [ts @ [0x80] @ replicate (55 - n) 0 @ be_bytes 8 v]
     else [ts @ [0x80] @ replicate (63 - n) 0, replicate 56 0 @ be_bytes 8 v])"
proof (cases "n < 56")
  case True
  then have "(119 - n) mod 64 = 55 - n"
    using mod_add_self2 [of "55 - n" 64] by (simp del: mod_add_self2)
  with True assms show ?thesis by (simp add: sha_blocks_one del: be_bytes_numeral)
next
  case False
  then have "replicate ((119 - n) mod 64) (0 :: byte) = replicate (63 - n) 0 @ replicate 56 0"
    using assms by (simp flip: replicate_add)
  with False assms sha_blocks_append [of "ts @ [0x80] @ replicate (63 - n) 0" 1 "replicate 56 0 @ be_bytes 8 v"]
  show ?thesis by (simp add: sha_blocks_one del: be_bytes_numeral)
qed


text \<open>The end of the routine, from the state after the complete blocks.\<close>

definition calc_tail :: "byte list \<Rightarrow> nat \<Rightarrow> u32 list \<Rightarrow> u32 list \<Rightarrow> byte list" where
  "calc_tail ts len result w =
     (let w = fold (\<lambda>n. or_byte n (ucast (ts ! n))) [0..<length ts] (clearWBuffert w);
          w = or_byte (length ts) 0x80 w;
          (result, w) = (if length ts \<ge> 56
                         then (case innerHash result w of (result, w) \<Rightarrow> (result, clearWBuffert w))
                         else (result, w));
          (result, w) = innerHash result (w[15 := word_of_nat len])
      in store_hash result)"

lemma calc_by_tail:
  assumes "calc_blocks m 0 sha1_init w = (cb, r, w')"
  shows "calc m w = calc_tail (drop cb m) (length m * 8) r w'"
proof -
  have "fold (\<lambda>n w. or_byte n (ucast (m ! (n + cb))) w) [0..<length m - cb] v
      = fold (\<lambda>n. or_byte n (ucast (drop cb m ! n))) [0..<length (drop cb m)] v" for v
    by (simp, rule fold_upt_cong) (simp add: add.commute)
  then show ?thesis using assms by (simp add: calc_def calc_tail_def Let_def)
qed

lemma last_word:
  assumes "take 16 w = block_words (bs @ replicate 8 0)" "length w = 80" "length bs = 56" "v < 2 ^ 32"
  shows "\<exists>r' w'. innerHash r (w[15 := word_of_nat v]) = (r', w') \<and> length r' = 5
    \<and> five_of r' = compress (five_of r) (block_words (bs @ be_bytes 8 v))"
  using innerHash_compress [of "w[15 := word_of_nat v]" r] block_words_length [OF assms(3,4,1,2)] assms(2) by auto

lemma calc_tail_sha1:
  assumes len: "length ts < 64" "v < 2 ^ 32" and w: "length w = 80"
  shows "calc_tail ts v r w =
    (case foldl compress (five_of r) (map block_words (sha_blocks (ts @ [0x80] @ replicate ((119 - length ts) mod 64) 0 @ be_bytes 8 v))) of
       (a, b, c, d, e) \<Rightarrow> concat (map (\<lambda>x. be_bytes 4 (unat x)) [a, b, c, d, e]))"
proof -
  let ?n = "length ts"
  define w3 where "w3 = fold (\<lambda>n. or_byte n (ucast (ts ! n))) [0..<?n] (clearWBuffert w)"
  have w3: "take 16 w3 = block_words (ts @ replicate (64 - ?n) 0)" "length w3 = 80"
    using tail_words [of "clearWBuffert w" ?n ts] clear_words [OF w] len by (simp_all add: w3_def)
  have upd: "(ts @ replicate (64 - ?n) (0 :: byte))[?n := 0x80] = ts @ [0x80] @ replicate (63 - ?n) 0"
    using len by (simp add: list_update_append replicate_first)
  define w4 where "w4 = or_byte ?n 0x80 w3"
  have w4: "take 16 w4 = block_words (ts @ [0x80] @ replicate (63 - ?n) 0)" "length w4 = 80"
    using or_byte_words [OF w3(2,1), of ?n "0x80"] len upd by (simp_all add: w4_def nth_append)
  note blocks = last_blocks [OF len(1) refl, of v]
  show ?thesis
  proof (cases "?n < 56")
    case True
    then have "replicate (63 - ?n) (0 :: byte) = replicate (55 - ?n) 0 @ replicate 8 0" by (simp flip: replicate_add)
    then have "take 16 w4 = block_words ((ts @ [0x80] @ replicate (55 - ?n) 0) @ replicate 8 0)" using w4(1) by simp
    from last_word [OF this w4(2) _ len(2), of r] True obtain r' w' where
      "innerHash r (w4[15 := word_of_nat v]) = (r', w')" "length r' = 5"
      "five_of r' = compress (five_of r) (block_words (ts @ [0x80] @ replicate (55 - ?n) 0 @ be_bytes 8 v))" by auto
    with True show ?thesis
      unfolding blocks calc_tail_def Let_def w3_def [symmetric] w4_def [symmetric]
      by (simp add: store_hash_five del: be_bytes_numeral)
  next
    case False
    obtain r1 w5 where h: "innerHash r w4 = (r1, w5)" "length w5 = 80"
      "five_of r1 = compress (five_of r) (block_words (ts @ [0x80] @ replicate (63 - ?n) 0))"
      using innerHash_compress [OF w4(2), of r] w4(1) by auto
    have "take 16 (clearWBuffert w5) = block_words (replicate 56 0 @ replicate 8 0)"
      using clear_words [OF h(2)] by (simp flip: replicate_add)
    from last_word [OF this _ _ len(2), of r1] clear_words [OF h(2)] obtain r' w' where
      "innerHash r1 ((clearWBuffert w5)[15 := word_of_nat v]) = (r', w')" "length r' = 5"
      "five_of r' = compress (five_of r1) (block_words (replicate 56 0 @ be_bytes 8 v))" by auto
    with False h show ?thesis
      unfolding blocks calc_tail_def Let_def w3_def [symmetric] w4_def [symmetric]
      by (simp add: store_hash_five del: be_bytes_numeral)
  qed
qed

lemma calc_sha1:
  assumes "length m < 2 ^ 29" "length w = 80"
  shows "calc m w = sha1_reference m"
proof -
  obtain r w' where b: "calc_blocks m 0 sha1_init w = (64 * (length m div 64), r, w')" "length w' = 80"
    "five_of r = foldl compress (five_of sha1_init) (map block_words (sha_blocks m))"
    using calc_blocks_words [of 0 m w sha1_init] assms(2) by (auto simp: sha1_init_def)
  let ?cb = "64 * (length m div 64)"
  have ts: "length (drop ?cb m) = length m mod 64" by (simp add: minus_mult_div_eq_mod)
  have "?cb \<le> length m" by simp
  then have full: "length (take ?cb m) = 64 * (length m div 64)" by simp
  have "sha_blocks m = sha_blocks (take ?cb m)"
    using sha_blocks_append [OF full, of "drop ?cb m"] ts by (simp add: sha_blocks_short)
  moreover have "sha_blocks (m @ p) = sha_blocks (take ?cb m) @ sha_blocks (drop ?cb m @ p)" for p
    using sha_blocks_append [OF full, of "drop ?cb m @ p"] by (metis append_assoc append_take_drop_id)
  moreover have "calc_tail (drop ?cb m) (length m * 8) r w' =
    (case foldl compress (five_of r) (map block_words
        (sha_blocks (drop ?cb m @ [0x80] @ replicate ((119 - length m mod 64) mod 64) 0 @ be_bytes 8 (length m * 8)))) of
       (a, b, c, d, e) \<Rightarrow> concat (map (\<lambda>x. be_bytes 4 (unat x)) [a, b, c, d, e]))"
    by (rule calc_tail_sha1 [of "drop ?cb m" "length m * 8" w' r, unfolded ts]) (use assms(1) b(2) in simp_all)
  ultimately show ?thesis
    unfolding calc_by_tail [OF b(1)] sha1_reference_def sha_pad_def
    using b(3) by (simp add: five_of_def sha1_init_def mult.commute del: be_bytes_numeral)
qed

text \<open>
  C5. For a message of fewer than 2^29 bytes the routine computes SHA-1, whatever the buffer holds at first:
  the rounds that fill the schedule in place, the words built byte by byte and the length put into the last word
  give the hash of the padded message by FIPS 180. (The upper word of the length is never written: from 2^29
  bytes on the code hashes a length cut to 32 bits.)
\<close>

theorem sha1_correct:
  assumes "length m < 2 ^ 29" "length w = 80"
  shows "calc m w = sha1_reference m"
  using calc_sha1 [OF assms] .

lemma sha1_correct_witness: "calc (bytes_of ''abc'') (replicate 80 7) = sha1_reference (bytes_of ''abc'')"
  by (rule sha1_correct) simp_all

end
