(* ===== verification/WsUri.thy ===== *)
theory WsUri
  imports WsHttpWire
begin

text \<open>
  The class \<open>uri\<close> (websocketpp/websocket/uri.hpp): its constructors, the reading of a URI and of a port, and the
  strings made of it.
\<close>

record uri =
  m_scheme :: str
  m_host :: str
  m_resource :: str
  m_port :: u16
  m_secure :: bool
  m_valid :: bool

definition uri_default_port :: u16 where "uri_default_port = 80"
definition uri_default_secure_port :: u16 where "uri_default_secure_port = 443"

definition default_port :: "bool \<Rightarrow> u16" where
  "default_port secure = (if secure then uri_default_secure_port else uri_default_port)"

text \<open>
  \<open>atoi\<close> goes through a \<open>long\<close> of 64 bit that stops at its bounds and is cut to 32 bit. The text ends at a null
  character, which is no digit.
\<close>

definition atoi :: "str \<Rightarrow> u32" where
  "atoi s =
     (case signed_digits s of
        None \<Rightarrow> 0
      | Some (neg, v) \<Rightarrow> if neg then - word_of_nat (min v (2 ^ 63)) else word_of_nat (min v (2 ^ 63 - 1)))"

text \<open>The port, and whether it is an error.\<close>

definition get_port_from_string :: "bool \<Rightarrow> str \<Rightarrow> u16 \<times> bool" where
  "get_port_from_string secure port =
     (if port = [] then (default_port secure, False)
      else (let t_port = atoi port in (ucast t_port, t_port > 65535 \<or> t_port = 0)))"

definition secure_scheme :: "str \<Rightarrow> bool" where
  "secure_scheme scheme \<longleftrightarrow> scheme = bytes_of ''wss'' \<or> scheme = bytes_of ''https''"

definition or_root :: "str \<Rightarrow> str" where
  "or_root resource = (if resource = [] then [47] else resource)"

text \<open>The constructors from a bool that chooses the scheme, and a host, with a number, with no port and with a text as the port.\<close>

definition scheme_of :: "bool \<Rightarrow> str" where
  "scheme_of secure = (if secure then bytes_of ''wss'' else bytes_of ''ws'')"

definition uri_secure_number :: "bool \<Rightarrow> str \<Rightarrow> u16 \<Rightarrow> str \<Rightarrow> uri" where
  "uri_secure_number secure host port resource =
     \<lparr>m_scheme = scheme_of secure, m_host = host, m_resource = or_root resource,
      m_port = port, m_secure = secure, m_valid = True\<rparr>"

definition uri_secure :: "bool \<Rightarrow> str \<Rightarrow> str \<Rightarrow> uri" where
  "uri_secure secure host resource =
     \<lparr>m_scheme = scheme_of secure, m_host = host, m_resource = or_root resource,
      m_port = default_port secure, m_secure = secure, m_valid = True\<rparr>"

definition uri_secure_port :: "bool \<Rightarrow> str \<Rightarrow> str \<Rightarrow> str \<Rightarrow> uri" where
  "uri_secure_port secure host port resource =
     (let (p, ec) = get_port_from_string secure port
      in \<lparr>m_scheme = scheme_of secure, m_host = host, m_resource = or_root resource,
          m_port = p, m_secure = secure, m_valid = \<not> ec\<rparr>)"

text \<open>The constructors from a scheme and a host, with no port, with a number and with a text as the port.\<close>

definition uri_host :: "str \<Rightarrow> str \<Rightarrow> str \<Rightarrow> uri" where
  "uri_host scheme host resource =
     \<lparr>m_scheme = scheme, m_host = host, m_resource = or_root resource,
      m_port = default_port (secure_scheme scheme), m_secure = secure_scheme scheme, m_valid = True\<rparr>"

definition uri_host_number :: "str \<Rightarrow> str \<Rightarrow> u16 \<Rightarrow> str \<Rightarrow> uri" where
  "uri_host_number scheme host port resource =
     \<lparr>m_scheme = scheme, m_host = host, m_resource = or_root resource,
      m_port = port, m_secure = secure_scheme scheme, m_valid = True\<rparr>"

definition uri_host_port :: "str \<Rightarrow> str \<Rightarrow> str \<Rightarrow> str \<Rightarrow> uri" where
  "uri_host_port scheme host port resource =
     (let (p, ec) = get_port_from_string (secure_scheme scheme) port
      in \<lparr>m_scheme = scheme, m_host = host, m_resource = or_root resource,
          m_port = p, m_secure = secure_scheme scheme, m_valid = \<not> ec\<rparr>)"

subsection \<open>Reading\<close>

definition split_scheme :: "str \<Rightarrow> (str \<times> bool \<times> str) option" where
  "split_scheme s =
     (if length s \<ge> 7 \<and> take 6 s = bytes_of ''wss://'' then Some (bytes_of ''wss'', True, drop 6 s)
      else if length s \<ge> 6 \<and> take 5 s = bytes_of ''ws://'' then Some (bytes_of ''ws'', False, drop 5 s)
      else if length s \<ge> 8 \<and> take 7 s = bytes_of ''http://'' then Some (bytes_of ''http'', False, drop 7 s)
      else if length s \<ge> 9 \<and> take 8 s = bytes_of ''https://'' then Some (bytes_of ''https'', True, drop 8 s)
      else None)"

text \<open>What follows the host: nothing, a resource or a port; the slash and the colon are passed over.\<close>

datatype after_host = At_resource str | At_port str

fun read_host :: "str \<Rightarrow> str \<Rightarrow> str \<times> after_host" where
  "read_host host [] = (host, At_resource [])"
| "read_host host (c # it) =
     (if c = 47 then (host, At_resource it)
      else if c = 58 then (host, At_port it)
      else read_host (host @ [c]) it)"

definition read_ipv6 :: "str \<Rightarrow> (str \<times> after_host) option" where
  "read_ipv6 it =
     (let temp = dropWhile (\<lambda>c. c \<noteq> 93) it; host = takeWhile (\<lambda>c. c \<noteq> 93) it
      in if temp = [] then None
         else (case tl temp of
                 [] \<Rightarrow> Some (host, At_resource [])
               | c # it \<Rightarrow>
                   if c = 47 then Some (host, At_resource it)
                   else if c = 58 then Some (host, At_port it)
                   else None))"

fun read_port :: "str \<Rightarrow> str \<Rightarrow> str \<times> str" where
  "read_port port [] = (port, [])"
| "read_port port (c # it) = (if c = 47 then (port, it) else read_port (port @ [c]) it)"

text \<open>\<open>None\<close> is a URI whose flag \<open>m_valid\<close> is off; its other members are never read.\<close>

definition parse_uri :: "str \<Rightarrow> uri option" where
  "parse_uri s =
     (case split_scheme s of
        None \<Rightarrow> None
      | Some (scheme, secure, it) \<Rightarrow>
          (case (if hd it = 91 then read_ipv6 (tl it) else Some (read_host [] it)) of
             None \<Rightarrow> None
           | Some (host, after) \<Rightarrow>
               (let (port, it) = (case after of At_resource it \<Rightarrow> ([], it) | At_port it \<Rightarrow> read_port [] it);
                    (p, ec) = get_port_from_string secure port
                in if ec then None
                   else Some \<lparr>m_scheme = scheme, m_host = host, m_resource = 47 # it, m_port = p,
                              m_secure = secure, m_valid = True\<rparr>)))"

subsection \<open>Writing\<close>

definition get_port_str :: "uri \<Rightarrow> str" where
  "get_port_str u = print_nat (unat (m_port u))"

definition get_host_port :: "uri \<Rightarrow> str" where
  "get_host_port u =
     (if m_port u = default_port (m_secure u) then m_host u else m_host u @ [58] @ get_port_str u)"

definition get_authority :: "uri \<Rightarrow> str" where
  "get_authority u = m_host u @ [58] @ get_port_str u"

definition uri_str :: "uri \<Rightarrow> str" where
  "uri_str u =
     m_scheme u @ bytes_of ''://'' @ m_host u @
     (if m_port u \<noteq> default_port (m_secure u) then [58] @ get_port_str u else []) @ m_resource u"

definition get_query :: "uri \<Rightarrow> str" where
  "get_query u =
     (let found = find_sub (=) [63] (m_resource u)
      in if found \<noteq> length (m_resource u) then drop (found + 1) (m_resource u) else [])"

subsection \<open>The round trip\<close>

lemma read_host_app: "47 \<notin> set h \<Longrightarrow> 58 \<notin> set h \<Longrightarrow> read_host acc (h @ it) = read_host (acc @ h) it"
  by (induction h arbitrary: acc) auto

lemma read_port_app: "47 \<notin> set p \<Longrightarrow> read_port acc (p @ 47 # it) = (acc @ p, it)"
  by (induction p arbitrary: acc) auto

lemma atoi_print: "n < 65536 \<Longrightarrow> atoi (print_nat n) = word_of_nat n"
  by (simp add: atoi_def signed_digits_print min_def)

lemma port_print:
  assumes "p \<noteq> 0"
  shows "get_port_from_string secure (print_nat (unat p)) = (p, False)"
proof -
  have p: "unat p < 65536" using unsigned_less [of p] by simp
  define w :: u32 where "w = word_of_nat (unat p)"
  have n: "unat w = unat p" unfolding w_def unat_of_nat using p by simp
  have a: "atoi (print_nat (unat p)) = w" unfolding w_def by (rule atoi_print [OF p])
  have "ucast w = p" unfolding w_def by (rule bit_eqI) (auto simp: bit_simps dest: bit_imp_le_length)
  moreover have "unat p \<noteq> 0" using assms by (metis unsigned_0 word_unat_eq_iff)
  then have "\<not> w > 65535" "w \<noteq> 0" using n p by (auto simp: word_less_nat_alt)
  moreover have "print_nat (unat p) \<noteq> []" using print_nat_digits by blast
  ultimately show ?thesis by (simp add: get_port_from_string_def a Let_def)
qed

text \<open>A scheme of the four, a host that has text without the three characters that end or begin it, a port.\<close>

definition plain_uri :: "uri \<Rightarrow> bool" where
  "plain_uri u \<longleftrightarrow>
     m_scheme u \<in> {bytes_of ''ws'', bytes_of ''wss'', bytes_of ''http'', bytes_of ''https''} \<and>
     m_secure u = secure_scheme (m_scheme u) \<and> m_valid u \<and> m_port u \<noteq> 0 \<and>
     m_host u \<noteq> [] \<and> hd (m_host u) \<noteq> 91 \<and> 47 \<notin> set (m_host u) \<and> 58 \<notin> set (m_host u) \<and>
     m_resource u \<noteq> [] \<and> hd (m_resource u) = 47"

lemma split_scheme_uri:
  assumes "m_scheme u \<in> {bytes_of ''ws'', bytes_of ''wss'', bytes_of ''http'', bytes_of ''https''}"
    "m_secure u = secure_scheme (m_scheme u)" "it \<noteq> []"
  shows "split_scheme (m_scheme u @ bytes_of ''://'' @ it) = Some (m_scheme u, m_secure u, it)"
proof -
  obtain c t where it: "it = c # t" using assms(3) by (cases it) auto
  show ?thesis
    using assms(1,2) unfolding it
    by (elim insertE emptyE) (simp_all add: split_scheme_def bytes_of_def secure_scheme_def)
qed

lemma scheme_of_secure: "secure_scheme (scheme_of b) = b"
  by (simp add: secure_scheme_def scheme_of_def bytes_of_def)

text \<open>The constructors that take a bool make the URI of the scheme the bool stands for.\<close>

lemma uri_secure_host:
  "uri_secure b h r = uri_host (scheme_of b) h r" "uri_secure_number b h n r = uri_host_number (scheme_of b) h n r"
  "uri_secure_port b h p r = uri_host_port (scheme_of b) h p r"
  by (simp_all add: uri_secure_def uri_host_def uri_secure_number_def uri_host_number_def uri_secure_port_def
    uri_host_port_def scheme_of_secure)

lemma parse_plain:
  assumes u: "plain_uri u"
  shows "parse_uri (uri_str u) = Some u"
proof -
  obtain r where r: "m_resource u = 47 # r" using u by (cases "m_resource u") (auto simp: plain_uri_def)
  have eq: "\<lparr>m_scheme = m_scheme u, m_host = m_host u, m_resource = 47 # r, m_port = m_port u,
      m_secure = m_secure u, m_valid = True\<rparr> = u"
    using u r by (simp add: plain_uri_def)
  have host: "read_host [] (m_host u @ it) = read_host (m_host u) it" for it
    using u read_host_app [of "m_host u" "[]" it] by (simp add: plain_uri_def)
  have scheme: "split_scheme (m_scheme u @ bytes_of ''://'' @ m_host u @ it) = Some (m_scheme u, m_secure u, m_host u @ it)"
    "hd (m_host u @ it) \<noteq> 91" for it
    using u split_scheme_uri [of u "m_host u @ it"] by (simp_all add: plain_uri_def)
  show ?thesis
  proof (cases "m_port u = default_port (m_secure u)")
    case True
    then have "uri_str u = m_scheme u @ bytes_of ''://'' @ m_host u @ 47 # r" by (simp add: uri_str_def r)
    then show ?thesis
      using True eq host [of "47 # r"] scheme [of "47 # r"] by (simp add: parse_uri_def get_port_from_string_def)
  next
    case False
    have "47 \<notin> set (get_port_str u)"
      using print_nat_digits [of "unat (m_port u)"] by (auto simp: get_port_str_def list_all_iff is_digit_def word_le_nat_alt)
    from read_port_app [OF this, of "[]" r] have "read_port [] (get_port_str u @ 47 # r) = (get_port_str u, r)" by simp
    moreover have "get_port_from_string (m_secure u) (get_port_str u) = (m_port u, False)"
      using u port_print [of "m_port u"] by (simp add: get_port_str_def plain_uri_def)
    moreover have "uri_str u = m_scheme u @ bytes_of ''://'' @ m_host u @ 58 # get_port_str u @ 47 # r"
      using False by (simp add: uri_str_def r)
    ultimately show ?thesis
      using eq host [of "58 # get_port_str u @ 47 # r"] scheme [of "58 # get_port_str u @ 47 # r"]
      by (simp add: parse_uri_def)
  qed
qed

text \<open>
  C18. A URI that is written is read back, except one with an IPv6 address: the text of such a URI and its
  \<open>Host\<close> header lack the brackets that the reader asks for, and the text is refused.
\<close>

theorem uri_round_trip:
  "(plain_uri u \<longrightarrow> parse_uri (uri_str u) = Some u)
   \<and> (\<exists>v. parse_uri (bytes_of ''ws://[::1]:9002/'') = Some v \<and> m_host v = bytes_of ''::1''
        \<and> uri_str v = bytes_of ''ws://::1:9002/'' \<and> parse_uri (uri_str v) = None
        \<and> get_host_port v = bytes_of ''::1:9002'')"
proof (intro conjI impI parse_plain)
  let ?v = "\<lparr>m_scheme = bytes_of ''ws'', m_host = bytes_of ''::1'', m_resource = [47], m_port = 9002,
    m_secure = False, m_valid = True\<rparr>"
  have "parse_uri (bytes_of ''ws://[::1]:9002/'') = Some ?v" "parse_uri (bytes_of ''ws://::1:9002/'') = None"
    by (simp_all add: parse_uri_def split_scheme_def bytes_of_def read_ipv6_def get_port_from_string_def atoi_def
      signed_digits_def is_space_def is_digit_def digits_val_def)
  moreover have "uri_str ?v = bytes_of ''ws://::1:9002/''" "get_host_port ?v = bytes_of ''::1:9002''"
    by (simp_all add: uri_str_def default_port_def uri_default_port_def get_port_str_def print_nat.simps
      get_host_port_def bytes_of_def)
  ultimately show "\<exists>v. parse_uri (bytes_of ''ws://[::1]:9002/'') = Some v \<and> m_host v = bytes_of ''::1''
      \<and> uri_str v = bytes_of ''ws://::1:9002/'' \<and> parse_uri (uri_str v) = None
      \<and> get_host_port v = bytes_of ''::1:9002''"
    by (intro exI [of _ ?v]) simp
qed

definition sample_uri :: uri where
  "sample_uri = \<lparr>m_scheme = bytes_of ''ws'', m_host = bytes_of ''cam'', m_resource = bytes_of ''/live'', m_port = 9002,
     m_secure = False, m_valid = True\<rparr>"

lemma uri_round_trip_witness: "plain_uri sample_uri \<and> parse_uri (uri_str sample_uri) = Some sample_uri"
proof -
  have "plain_uri sample_uri" by (simp add: plain_uri_def sample_uri_def secure_scheme_def bytes_of_def)
  with uri_round_trip [of sample_uri] show ?thesis by blast
qed

end
