(* ===== verification/WsUpgrade.thy ===== *)
theory WsUpgrade
  imports WsBase64 WsSha1 WsUri WsClose
begin

text \<open>
  The opening handshake as the processor of version 13 sees it (websocketpp/websocket/processors/processor.hpp,
  hybi13.hpp): the headers of an upgrade request, its validation by a server, the response, and the validation
  of the response by a client. The extension of per-message compression is the disabled one of config/core.hpp.
\<close>

subsection \<open>Names\<close>

definition h_upgrade :: str where "h_upgrade = bytes_of ''Upgrade''"
definition h_connection :: str where "h_connection = bytes_of ''Connection''"
definition h_key :: str where "h_key = bytes_of ''Sec-WebSocket-Key''"
definition h_accept :: str where "h_accept = bytes_of ''Sec-WebSocket-Accept''"
definition h_version :: str where "h_version = bytes_of ''Sec-WebSocket-Version''"
definition h_protocol :: str where "h_protocol = bytes_of ''Sec-WebSocket-Protocol''"
definition h_extensions :: str where "h_extensions = bytes_of ''Sec-WebSocket-Extensions''"

definition upgrade_token :: str where "upgrade_token = bytes_of ''websocket''"
definition connection_token :: str where "connection_token = bytes_of ''Upgrade''"
definition handshake_guid :: str where "handshake_guid = bytes_of ''258EAFA5-E914-47DA-95CA-C5AB0DC85B11''"
definition http_1_1 :: str where "http_1_1 = bytes_of ''HTTP/1.1''"

subsection \<open>Any processor\<close>

definition has_token :: "str \<Rightarrow> str \<Rightarrow> bool" where
  "has_token header_value token_name \<longleftrightarrow> ci_find_substr header_value token_name \<noteq> length header_value"

definition is_websocket_handshake :: "http_request \<Rightarrow> bool" where
  "is_websocket_handshake r \<longleftrightarrow>
     has_token (get_header r h_upgrade) upgrade_token \<and> has_token (get_header r h_connection) connection_token"

definition get_websocket_version :: "http_request \<Rightarrow> int" where
  "get_websocket_version r =
     (if \<not> m_ready r then -2
      else if get_header r h_version = [] then 0
      else (case scan_int (get_header r h_version) of None \<Rightarrow> -1 | Some version \<Rightarrow> version))"

text \<open>\<open>rfind\<close> of a character: the place of the last one.\<close>

definition rfind :: "byte \<Rightarrow> str \<Rightarrow> nat option" where
  "rfind c s = (if c \<in> set s then Some (length s - 1 - length (takeWhile (\<lambda>x. x \<noteq> c) (rev s))) else None)"

definition get_uri_from_host :: "http_request \<Rightarrow> str \<Rightarrow> uri" where
  "get_uri_from_host req scheme =
     (let h = get_header req h_host
      in case rfind 58 h of
           None \<Rightarrow> uri_host scheme h (m_uri req)
         | Some last_colon \<Rightarrow>
             (case rfind 93 h of
                Some last_sbrace \<Rightarrow>
                  if last_sbrace > last_colon then uri_host scheme h (m_uri req)
                  else uri_host_port scheme (take last_colon h) (drop (last_colon + 1) h) (m_uri req)
              | None \<Rightarrow> uri_host_port scheme (take last_colon h) (drop (last_colon + 1) h) (m_uri req)))"

subsection \<open>Version 13\<close>

text \<open>
  The key of a response. The buffer of the hash is on the stack; what it holds at first does not matter
  (\<open>sha1_correct\<close>).
\<close>

definition process_handshake_key :: "str \<Rightarrow> str" where
  "process_handshake_key key = base64_encode (calc (key @ handshake_guid) (replicate 80 0))"

definition validate_handshake :: "http_request \<Rightarrow> error_code option" where
  "validate_handshake r =
     (if m_method r \<noteq> bytes_of ''GET'' then Some (Processor P_invalid_http_method)
      else if m_version r \<noteq> http_1_1 then Some (Processor P_invalid_http_version)
      else if get_header r h_key = [] then Some (Processor P_missing_required_header)
      else None)"

definition process_handshake :: "http_request \<Rightarrow> str \<Rightarrow> http_response \<Rightarrow> http_stop + http_response" where
  "process_handshake req subprotocol res =
     (let res = replace_header h_accept (process_handshake_key (get_header req h_key)) res
      in case append_header h_upgrade upgrade_token res of
           Inl e \<Rightarrow> Inl e
         | Inr res \<Rightarrow>
             (case append_header h_connection connection_token res of
                Inl e \<Rightarrow> Inl e
              | Inr res \<Rightarrow> Inr (if subprotocol \<noteq> [] then replace_header h_protocol subprotocol res else res)))"

text \<open>Four draws of the generator of random numbers, as they lie in memory, are the key of a client.\<close>

definition raw_key :: "(nat \<Rightarrow> byte list) \<Rightarrow> byte list" where
  "raw_key rng = rng 0 @ rng 1 @ rng 2 @ rng 3"

fun join_protocols :: "str list \<Rightarrow> str" where
  "join_protocols [] = []"
| "join_protocols [s] = s"
| "join_protocols (s # t # ss) = s @ bytes_of '', '' @ join_protocols (t # ss)"

definition client_handshake_request ::
  "http_request \<Rightarrow> uri \<Rightarrow> str list \<Rightarrow> (nat \<Rightarrow> byte list) \<Rightarrow> http_stop + http_request" where
  "client_handshake_request req u subprotocols rng =
     (case set_method (bytes_of ''GET'') req of
        Inl e \<Rightarrow> Inl e
      | Inr req \<Rightarrow>
          (case append_header h_upgrade (bytes_of ''websocket'') (set_version http_1_1 (set_uri (m_resource u) req)) of
             Inl e \<Rightarrow> Inl e
           | Inr req \<Rightarrow>
               (case append_header h_connection (bytes_of ''Upgrade'') req of
                  Inl e \<Rightarrow> Inl e
                | Inr req \<Rightarrow>
                    (let req = replace_header h_version (bytes_of ''13'') req;
                         req = replace_header h_host (get_host_port u) req;
                         req = (if subprotocols = [] then req
                                else replace_header h_protocol (join_protocols subprotocols) req)
                     in Inr (replace_header h_key (base64_encode (raw_key rng)) req)))))"

definition validate_server_handshake_response :: "http_request \<Rightarrow> http_response \<Rightarrow> error_code option" where
  "validate_server_handshake_response req res =
     (if m_status_code res \<noteq> 101 then Some (Processor P_invalid_http_status)
      else if \<not> has_token (get_header res h_upgrade) upgrade_token then Some (Processor P_missing_required_header)
      else if \<not> has_token (get_header res h_connection) connection_token then Some (Processor P_missing_required_header)
      else if process_handshake_key (get_header req h_key) \<noteq> get_header res h_accept
      then Some (Processor P_missing_required_header)
      else None)"

definition get_raw :: "http_response \<Rightarrow> str" where
  "get_raw res = response_raw res"

text \<open>Versions 7 and 8 name the origin in another header.\<close>

definition get_origin :: "nat \<Rightarrow> http_request \<Rightarrow> str" where
  "get_origin version r =
     (if version = 13 then get_header r (bytes_of ''Origin'') else get_header r (bytes_of ''Sec-WebSocket-Origin''))"

definition extract_subprotocols :: "http_request \<Rightarrow> error_code option \<times> str list" where
  "extract_subprotocols req =
     (if get_header req h_protocol \<noteq> [] then
        (let (error, p) = get_header_as_plist req h_protocol
         in if \<not> error then (None, map fst p) else (Some (Processor P_subprotocol_parse_error), []))
      else (None, []))"

text \<open>Without an implemented extension only the syntax of the list is looked at.\<close>

definition negotiate_extensions :: "'a http_parser_scheme \<Rightarrow> error_code option \<times> str" where
  "negotiate_extensions header =
     (let (error, p) = get_header_as_plist header h_extensions
      in if error then (Some (Processor P_extension_parse_error), []) else (None, []))"

definition hybi_get_uri :: "bool \<Rightarrow> http_request \<Rightarrow> uri" where
  "hybi_get_uri secure req = get_uri_from_host req (if secure then bytes_of ''wss'' else bytes_of ''ws'')"

end
