(* ===== verification/WsOpening.thy ===== *)
theory WsOpening
  imports WsUpgrade WsSession
begin

text \<open>
  The opening of a connection (websocketpp/websocket/impl/connection_impl.hpp from \<open>start\<close> on): a server reads
  a request and writes a response, a client writes a request and reads a response, and the connection goes on
  with the frames that came along. The state adds to the connection of \<open>WsConnection\<close> what the handshake uses.
  Requests to the transport are recorded: one completion is outstanding for each element of \<open>o_pending\<close>.
  Logging is left out. Versions 7, 8 and 13 share one processor; the processor of version 0 is not modelled.
\<close>

datatype pending = Init_pending | Read_request | Write_response | Write_request | Read_response

record handshake =
  o_con :: connection
  o_request :: http_request
  o_response :: http_response
  o_uri :: uri
  o_processor :: "int option"
  o_subprotocol :: str
  o_requested_subprotocols :: "str list"
  o_user_agent :: str
  o_timeout_dur :: nat
  o_transport_secure :: bool
  o_leftover :: str
  o_pending :: "pending list"
  o_wire :: str

text \<open>The handlers of the user that run before the connection is open.\<close>

record opening_handlers =
  oh_validate :: "(handshake \<Rightarrow> bool \<times> handshake) option"
  oh_http :: "(handshake \<Rightarrow> handshake option) option"
  oh_con :: handlers

definition new_handshake :: "bool \<Rightarrow> (nat \<Rightarrow> byte list) \<Rightarrow> str \<Rightarrow> uri \<Rightarrow> handshake" where
  "new_handshake server rng agent u =
     \<lparr>o_con = new_connection server rng, o_request = new_request, o_response = new_response, o_uri = u,
      o_processor = None, o_subprotocol = [], o_requested_subprotocols = [], o_user_agent = agent,
      o_timeout_dur = 5000, o_transport_secure = False, o_leftover = [], o_pending = [], o_wire = []\<rparr>"

definition on_con :: "(connection \<Rightarrow> connection) \<Rightarrow> handshake \<Rightarrow> handshake" where
  "on_con f s = s\<lparr>o_con := f (o_con s)\<rparr>"

definition o_state :: "handshake \<Rightarrow> session_state" where
  "o_state s = m_session (o_con s)"

definition o_internal :: "handshake \<Rightarrow> internal_state" where
  "o_internal s = m_internal_state (o_con s)"

definition set_internal :: "internal_state \<Rightarrow> handshake \<Rightarrow> handshake" where
  "set_internal i s = on_con (\<lambda>c. c\<lparr>m_internal_state := i\<rparr>) s"

definition await :: "pending \<Rightarrow> handshake \<Rightarrow> handshake" where
  "await p s = s\<lparr>o_pending := o_pending s @ [p]\<rparr>"

definition write_handshake :: "pending \<Rightarrow> str \<Rightarrow> handshake \<Rightarrow> handshake" where
  "write_handshake p buffer s = await p (s\<lparr>o_wire := o_wire s @ buffer\<rparr>)"

definition terminate_with :: "error_code option \<Rightarrow> handshake \<Rightarrow> handshake" where
  "terminate_with ec s = on_con (terminate ec) s"

definition start_open_timer :: "handshake \<Rightarrow> handshake" where
  "start_open_timer s =
     (if o_timeout_dur s > 0
      then on_con (\<lambda>c. let (t, c) = set_timer Open_handshake_timer c in c\<lparr>m_handshake_timer := Some t\<rparr>) s
      else s)"

definition stop_open_timer :: "handshake \<Rightarrow> handshake" where
  "stop_open_timer s =
     on_con (\<lambda>c. case m_handshake_timer c of None \<Rightarrow> c
                 | Some t \<Rightarrow> (cancel_timer (Some t) c)\<lparr>m_handshake_timer := None\<rparr>) s"

text \<open>
  The beginning of every completion handler of the handshake: the error it goes on with, \<open>Ignored\<close> when the
  connection was closed meanwhile.
\<close>

datatype completion = Ignored | Failed error_code | Good

definition completed :: "internal_state \<Rightarrow> error_code option \<Rightarrow> handshake \<Rightarrow> completion" where
  "completed expected ec s =
     (case (case ec of
              Some e \<Rightarrow> Failed e
            | None \<Rightarrow>
                if o_state s = Connecting
                then (if o_internal s \<noteq> expected then Failed (Library W_invalid_state) else Good)
                else if o_state s = Closed then Ignored
                else Failed (Library W_invalid_state)) of
        Failed e \<Rightarrow> if e = Transport T_eof \<and> o_state s = Closed then Ignored else Failed e
      | r \<Rightarrow> r)"

subsection \<open>What the user can call\<close>

definition add_subprotocol :: "str \<Rightarrow> handshake \<Rightarrow> error_code option \<times> handshake" where
  "add_subprotocol val s =
     (if m_is_server (o_con s) then (Some (Library W_client_only), s)
      else if val = [] \<or> list_ex is_not_token_char val then (Some (Library W_invalid_subprotocol), s)
      else (None, s\<lparr>o_requested_subprotocols := o_requested_subprotocols s @ [val]\<rparr>))"

definition select_subprotocol :: "str \<Rightarrow> handshake \<Rightarrow> error_code option \<times> handshake" where
  "select_subprotocol val s =
     (if \<not> m_is_server (o_con s) then (Some (Library W_server_only), s)
      else if val = [] then (None, s)
      else if val \<notin> set (o_requested_subprotocols s) then (Some (Library W_unrequested_subprotocol), s)
      else (None, s\<lparr>o_subprotocol := val\<rparr>))"

text \<open>The operations on the headers throw outside of their states: \<open>None\<close>.\<close>

definition con_set_status :: "int \<Rightarrow> handshake \<Rightarrow> handshake option" where
  "con_set_status code s =
     (if o_internal s \<noteq> PROCESS_HTTP_REQUEST then None
      else Some (s\<lparr>o_response := set_status code (o_response s)\<rparr>))"

definition con_set_body :: "str \<Rightarrow> handshake \<Rightarrow> handshake option" where
  "con_set_body val s =
     (if o_internal s \<noteq> PROCESS_HTTP_REQUEST then None
      else Some (s\<lparr>o_response := set_body val (o_response s)\<rparr>))"

definition con_append_header :: "str \<Rightarrow> str \<Rightarrow> handshake \<Rightarrow> handshake option" where
  "con_append_header key val s =
     (if m_is_server (o_con s) then
        if o_internal s = PROCESS_HTTP_REQUEST then
          (case append_header key val (o_response s) of Inl e \<Rightarrow> None | Inr r \<Rightarrow> Some (s\<lparr>o_response := r\<rparr>))
        else None
      else if o_internal s = USER_INIT then
        (case append_header key val (o_request s) of Inl e \<Rightarrow> None | Inr r \<Rightarrow> Some (s\<lparr>o_request := r\<rparr>))
      else None)"

definition con_replace_header :: "str \<Rightarrow> str \<Rightarrow> handshake \<Rightarrow> handshake option" where
  "con_replace_header key val s =
     (if m_is_server (o_con s) then
        if o_internal s = PROCESS_HTTP_REQUEST then Some (s\<lparr>o_response := replace_header key val (o_response s)\<rparr>)
        else None
      else if o_internal s = USER_INIT then Some (s\<lparr>o_request := replace_header key val (o_request s)\<rparr>)
      else None)"

definition con_remove_header :: "str \<Rightarrow> handshake \<Rightarrow> handshake option" where
  "con_remove_header key s =
     (if m_is_server (o_con s) then
        if o_internal s = PROCESS_HTTP_REQUEST then Some (s\<lparr>o_response := remove_header key (o_response s)\<rparr>)
        else None
      else if o_internal s = USER_INIT then Some (s\<lparr>o_request := remove_header key (o_request s)\<rparr>)
      else None)"

definition defer_http_response :: "handshake \<Rightarrow> handshake" where
  "defer_http_response s = on_con (\<lambda>c. c\<lparr>m_http_state := Http_deferred\<rparr>) (stop_open_timer s)"

subsection \<open>Writing a response\<close>

definition h_server :: str where "h_server = bytes_of ''Server''"
definition h_user_agent :: str where "h_user_agent = bytes_of ''User-Agent''"

definition agent_header :: "str \<Rightarrow> str \<Rightarrow> 'a http_parser_scheme \<Rightarrow> 'a http_parser_scheme" where
  "agent_header name agent p =
     (if get_header p name = [] then
        if agent \<noteq> [] then replace_header name agent p else remove_header name p
      else p)"

definition write_http_response :: "error_code option \<Rightarrow> handshake \<Rightarrow> handshake" where
  "write_http_response ec s =
     (if ec = Some (Library W_http_connection_ended) then s
      else (let s = (if m_status_code (o_response s) = 0
                     then on_con (\<lambda>c. c\<lparr>m_ec := Some (Library W_general)\<rparr>) (s\<lparr>o_response := set_status 500 (o_response s)\<rparr>)
                     else on_con (\<lambda>c. c\<lparr>m_ec := ec\<rparr>) s);
                s = s\<lparr>o_response := agent_header h_server (o_user_agent s) (set_version http_1_1 (o_response s))\<rparr>
            in write_handshake Write_response (get_raw (o_response s)) s))"

definition write_http_response_error :: "error_code \<Rightarrow> handshake \<Rightarrow> handshake" where
  "write_http_response_error ec s =
     (if o_internal s \<noteq> READ_HTTP_REQUEST then terminate_with (Some (Library W_invalid_state)) s
      else write_http_response (Some ec) (set_internal PROCESS_HTTP_REQUEST s))"

definition send_http_response :: "handshake \<Rightarrow> error_code option \<times> handshake" where
  "send_http_response s =
     (if m_http_state (o_con s) \<noteq> Http_deferred then (Some (Library W_invalid_state), s)
      else (None, write_http_response None (on_con (\<lambda>c. c\<lparr>m_http_state := Http_body_written\<rparr>) s)))"

text \<open>The end of a successful handshake: the connection is open and reads what came along.\<close>

definition go_open :: "opening_handlers \<Rightarrow> str \<Rightarrow> handshake \<Rightarrow> handshake option" where
  "go_open h leftover s =
     (case opened (oh_con h) leftover (o_con s) of None \<Rightarrow> None | Some c \<Rightarrow> Some (s\<lparr>o_con := c\<rparr>))"

definition handle_write_http_response ::
  "opening_handlers \<Rightarrow> error_code option \<Rightarrow> handshake \<Rightarrow> handshake option" where
  "handle_write_http_response h ec s =
     (case completed PROCESS_HTTP_REQUEST ec s of
        Ignored \<Rightarrow> Some s
      | Failed e \<Rightarrow> Some (terminate_with (Some e) s)
      | Good \<Rightarrow>
          (let s = stop_open_timer s
           in if m_status_code (o_response s) \<noteq> 101
              then (let s = (if m_is_http (o_con s)
                             then on_con (\<lambda>c. c\<lparr>m_ec := Some (Library W_http_connection_ended)\<rparr>) s else s)
                    in Some (terminate_with (m_ec (o_con s)) s))
              else go_open h (o_leftover s) s))"

subsection \<open>A server reads a request\<close>

definition connection_read_buffer_size :: nat where "connection_read_buffer_size = 16384"

definition versions_supported :: "int list" where "versions_supported = [0, 7, 8, 13]"

definition get_processor :: "int \<Rightarrow> int option" where
  "get_processor version = (if version \<in> set versions_supported then Some version else None)"

fun join_versions :: "int list \<Rightarrow> str" where
  "join_versions [] = []"
| "join_versions [v] = print_int v"
| "join_versions (v # w # vs) = print_int v @ [44] @ join_versions (w # vs)"

definition set_response_status :: "int \<Rightarrow> handshake \<Rightarrow> handshake" where
  "set_response_status code s = s\<lparr>o_response := set_status code (o_response s)\<rparr>"

definition initialize_processor :: "handshake \<Rightarrow> error_code option \<times> handshake" where
  "initialize_processor s =
     (if \<not> is_websocket_handshake (o_request s) then (None, s)
      else (let version = get_websocket_version (o_request s)
            in if version < 0 then (Some (Library W_invalid_version), set_response_status 400 s)
               else (case get_processor version of
                       Some p \<Rightarrow> (None, s\<lparr>o_processor := Some p\<rparr>)
                     | None \<Rightarrow>
                         (let s = set_response_status 400 (s\<lparr>o_processor := None\<rparr>)
                          in (Some (Library W_unsupported_version),
                              s\<lparr>o_response := replace_header h_version (join_versions versions_supported) (o_response s)\<rparr>)))))"

text \<open>A request that is no upgrade; the handler of the user may throw: \<open>None\<close>.\<close>

definition process_plain_request :: "opening_handlers \<Rightarrow> handshake \<Rightarrow> (error_code option \<times> handshake) option" where
  "process_plain_request h s =
     (let s = s\<lparr>o_uri := get_uri_from_host (o_request s)
                          (if o_transport_secure s then bytes_of ''https'' else bytes_of ''http'')\<rparr>
      in if \<not> m_valid (o_uri s) then Some (Some (Library W_invalid_uri), set_response_status 400 s)
         else (case oh_http h of
                 Some f \<Rightarrow>
                   (case f (on_con (\<lambda>c. c\<lparr>m_is_http := True\<rparr>) s) of
                      None \<Rightarrow> None
                    | Some s \<Rightarrow>
                        if o_state s = Closed then Some (Some (Library W_http_connection_ended), s) else Some (None, s))
               | None \<Rightarrow>
                   (case con_set_status 426 s of
                      None \<Rightarrow> None
                    | Some s \<Rightarrow> Some (Some (Library W_upgrade_required), s))))"

definition accept_handshake :: "handshake \<Rightarrow> (error_code option \<times> handshake) option" where
  "accept_handshake s =
     (let s = set_response_status 101 s
      in case process_handshake (o_request s) (o_subprotocol s) (o_response s) of
           Inl e \<Rightarrow> None
         | Inr r \<Rightarrow> Some (None, s\<lparr>o_response := r\<rparr>))"

definition reject_handshake :: "handshake \<Rightarrow> error_code option \<times> handshake" where
  "reject_handshake s =
     (Some (Library W_rejected),
      if m_status_code (o_response s) = 0 then set_response_status 400 s else s)"

definition process_upgrade_request :: "opening_handlers \<Rightarrow> handshake \<Rightarrow> (error_code option \<times> handshake) option" where
  "process_upgrade_request h s =
     (case validate_handshake (o_request s) of
        Some e \<Rightarrow> Some (Some e, set_response_status 400 s)
      | None \<Rightarrow>
          (case negotiate_extensions (o_request s) of
             (Some e, _) \<Rightarrow> Some (Some e, set_response_status 400 s)
           | (None, answer) \<Rightarrow>
               (let s = (if answer \<noteq> [] then s\<lparr>o_response := replace_header h_extensions answer (o_response s)\<rparr> else s);
                    s = s\<lparr>o_uri := hybi_get_uri (o_transport_secure s) (o_request s)\<rparr>
                in if \<not> m_valid (o_uri s) then Some (Some (Library W_invalid_uri), set_response_status 400 s)
                   else (let s = s\<lparr>o_requested_subprotocols :=
                                     o_requested_subprotocols s @ snd (extract_subprotocols (o_request s))\<rparr>
                         in case oh_validate h of
                              None \<Rightarrow> accept_handshake s
                            | Some f \<Rightarrow> (case f s of (ok, s) \<Rightarrow> if ok then accept_handshake s else Some (reject_handshake s))))))"

definition process_handshake_request :: "opening_handlers \<Rightarrow> handshake \<Rightarrow> (error_code option \<times> handshake) option" where
  "process_handshake_request h s =
     (if \<not> is_websocket_handshake (o_request s) then process_plain_request h s
      else process_upgrade_request h s)"

definition read_handshake :: "handshake \<Rightarrow> handshake" where
  "read_handshake s = await Read_request (start_open_timer s)"

text \<open>The request is complete. A request of version 0 is not followed further: \<open>None\<close>.\<close>

definition request_complete :: "opening_handlers \<Rightarrow> str \<Rightarrow> handshake \<Rightarrow> handshake option" where
  "request_complete h leftover s =
     (case initialize_processor s of
        (Some e, s) \<Rightarrow> Some (write_http_response_error e s)
      | (None, s) \<Rightarrow>
          if o_processor s = Some 0 then None
          else (case process_handshake_request h (set_internal PROCESS_HTTP_REQUEST (s\<lparr>o_leftover := leftover\<rparr>)) of
                  None \<Rightarrow> None
                | Some (ec, s) \<Rightarrow>
                    Some (if \<not> m_is_http (o_con s) \<or> m_http_state (o_con s) = Http_init
                          then write_http_response ec s else s)))"

definition handle_read_handshake ::
  "opening_handlers \<Rightarrow> error_code option \<Rightarrow> str \<Rightarrow> handshake \<Rightarrow> handshake option" where
  "handle_read_handshake h ec buf s =
     (case completed READ_HTTP_REQUEST ec s of
        Ignored \<Rightarrow> Some s
      | Failed e \<Rightarrow> Some (terminate_with (Some e) s)
      | Good \<Rightarrow>
          if length buf > connection_read_buffer_size then Some (terminate_with (Some (Library W_general)) s)
          else (case request_consume buf (o_request s) of
                  Inl Undefined \<Rightarrow> None
                | Inl (Http_exception code) \<Rightarrow>
                    Some (write_http_response_error (Library W_http_parse_error)
                            (s\<lparr>o_response := set_status_msg code [] (o_response s)\<rparr>))
                | Inr (n, r) \<Rightarrow>
                    (let s = s\<lparr>o_request := r\<rparr>
                     in if n > length buf then Some (terminate_with (Some (Library W_general)) s)
                        else if m_ready r then request_complete h (drop n buf) s
                        else Some (await Read_request s))))"

subsection \<open>A client writes a request and reads a response\<close>

definition send_http_request :: "handshake \<Rightarrow> handshake option" where
  "send_http_request s =
     (case o_processor s of
        None \<Rightarrow> Some s
      | Some p \<Rightarrow>
          (case client_handshake_request (o_request s) (o_uri s) (o_requested_subprotocols s) (m_rng (o_con s)) of
             Inl e \<Rightarrow> None
           | Inr req \<Rightarrow>
               (let s = on_con (\<lambda>c. c\<lparr>m_rng := (\<lambda>n. m_rng c (n + 4))\<rparr>) s;
                    s = s\<lparr>o_request := agent_header h_user_agent (o_user_agent s) req\<rparr>
                in Some (write_handshake Write_request (request_raw (o_request s)) (start_open_timer s)))))"

definition handle_send_http_request :: "error_code option \<Rightarrow> handshake \<Rightarrow> handshake" where
  "handle_send_http_request ec s =
     (case completed WRITE_HTTP_REQUEST ec s of
        Ignored \<Rightarrow> s
      | Failed e \<Rightarrow> terminate_with (Some e) s
      | Good \<Rightarrow> await Read_response (set_internal READ_HTTP_RESPONSE s))"

text \<open>
  The headers of the response are there. After an error of the extensions the code terminates the connection
  and goes on all the same.
\<close>

definition response_complete :: "opening_handlers \<Rightarrow> str \<Rightarrow> handshake \<Rightarrow> handshake option" where
  "response_complete h leftover s =
     (let s = stop_open_timer s
      in case validate_server_handshake_response (o_request s) (o_response s) of
           Some e \<Rightarrow> Some (terminate_with (Some e) s)
         | None \<Rightarrow>
             (let s = (if fst (negotiate_extensions (o_response s)) \<noteq> None
                       then terminate_with (Some (Library W_extension_neg_failed)) s else s)
              in go_open h leftover (s\<lparr>o_leftover := leftover\<rparr>)))"

definition handle_read_http_response ::
  "opening_handlers \<Rightarrow> error_code option \<Rightarrow> str \<Rightarrow> handshake \<Rightarrow> handshake option" where
  "handle_read_http_response h ec buf s =
     (case completed READ_HTTP_RESPONSE ec s of
        Ignored \<Rightarrow> Some s
      | Failed e \<Rightarrow> Some (terminate_with (Some e) s)
      | Good \<Rightarrow>
          (case response_consume buf (o_response s) of
             Inl Undefined \<Rightarrow> None
           | Inl (Http_exception code) \<Rightarrow> Some (terminate_with (Some (Library W_general)) s)
           | Inr (n, r) \<Rightarrow>
               (let s = s\<lparr>o_response := r\<rparr>
                in if headers_ready r then response_complete h (drop n buf) s
                   else Some (await Read_response s))))"

subsection \<open>The beginning\<close>

definition handle_transport_init :: "error_code option \<Rightarrow> handshake \<Rightarrow> handshake option" where
  "handle_transport_init ec s =
     (let ecm = (if o_internal s \<noteq> TRANSPORT_INIT then Some (Library W_invalid_state) else ec)
      in case ecm of
           Some e \<Rightarrow> Some (terminate_with (Some e) s)
         | None \<Rightarrow>
             if m_is_server (o_con s) then Some (read_handshake (set_internal READ_HTTP_REQUEST s))
             else send_http_request ((set_internal WRITE_HTTP_REQUEST s)\<lparr>o_processor := Some 13\<rparr>))"

definition start :: "handshake \<Rightarrow> handshake" where
  "start s =
     (if o_internal s \<noteq> USER_INIT then terminate_with (Some (Library W_invalid_state)) s
      else await Init_pending (set_internal TRANSPORT_INIT s))"

subsection \<open>Runs\<close>

text \<open>
  The completion of a pending request, with an error or with bytes, and the events of the connection itself. An
  event that cannot happen changes nothing; \<open>Opened\<close> is what the handshake does itself.
\<close>

datatype hs_event = Complete nat "error_code option" str | Con_event event

definition complete :: "opening_handlers \<Rightarrow> pending \<Rightarrow> error_code option \<Rightarrow> str \<Rightarrow> handshake \<Rightarrow> handshake option" where
  "complete h p ec buf s =
     (case p of
        Init_pending \<Rightarrow> handle_transport_init ec s
      | Read_request \<Rightarrow> handle_read_handshake h ec buf s
      | Write_response \<Rightarrow> handle_write_http_response h ec s
      | Write_request \<Rightarrow> Some (handle_send_http_request ec s)
      | Read_response \<Rightarrow> handle_read_http_response h ec buf s)"

primrec hs_do :: "opening_handlers \<Rightarrow> hs_event \<Rightarrow> handshake \<Rightarrow> handshake option" where
  "hs_do h (Complete i ec buf) s =
     (if i < length (o_pending s)
      then complete h (o_pending s ! i) ec buf (s\<lparr>o_pending := take i (o_pending s) @ drop (Suc i) (o_pending s)\<rparr>)
      else Some s)"
| "hs_do h (Con_event e) s =
     (case e of Opened l \<Rightarrow> Some s
      | _ \<Rightarrow> (case con_do (oh_con h) e (o_con s) of None \<Rightarrow> None | Some c \<Rightarrow> Some (s\<lparr>o_con := c\<rparr>)))"

end
