(* ===== verification/WsMessages.thy ===== *)
theory WsMessages
  imports WsOpening
begin

text \<open>
  The two messages of an opening handshake: the values of their headers are trimmed, the names are in the order
  of the map, and so the messages are read back as they were written.
\<close>

subsection \<open>Trimmed values\<close>

lemma trimmed_list: "list_all (\<lambda>c. c \<noteq> 13 \<and> \<not> lws_char c) s \<Longrightarrow> trimmed s"
  by (cases "s = []") (auto simp: trimmed_def list_all_iff)

definition base64_or_pad :: "byte \<Rightarrow> bool" where
  "base64_or_pad c \<longleftrightarrow> is_base64 c \<or> c = pad_char"

lemma char_trimmed: "base64_or_pad c \<Longrightarrow> c \<noteq> 13 \<and> \<not> lws_char c"
  by (auto simp: base64_or_pad_def is_base64_def pad_char_def is_not_whitespace_char_def)

lemma length_3: "length l = 3 \<Longrightarrow> \<exists>x y z. l = [x, y, z]"
  by (auto simp: length_Suc_conv numeral_3_eq_3)

lemma encode_loop_chars:
  "length a < 3 \<Longrightarrow> list_all base64_or_pad r \<Longrightarrow>
   list_all base64_or_pad (encode_loop xs a r)"
proof (induction xs arbitrary: a r)
  case Nil
  have "length (a @ replicate (3 - length a) 0) = 3" using Nil by simp
  then obtain x y z where p: "a @ replicate (3 - length a) 0 = [x, y, z]" using length_3 by blast
  show ?case using Nil pack4_in_alphabet [of _ x y z]
    by (auto simp: encode_rest_def Let_def p list_all_iff base64_or_pad_def dest: in_set_takeD)
next
  case (Cons x xs)
  show ?case
  proof (cases "length (a @ [x]) = 3")
    case True
    then obtain p q where a: "a = [p, q]" by (auto simp: length_Suc_conv numeral_3_eq_3)
    have "list_all base64_or_pad (map base64_char (pack4 [p, q, x]))"
      using pack4_in_alphabet [of _ p q x] by (auto simp: list_all_iff base64_or_pad_def)
    with Cons show ?thesis by (simp add: a)
  next
    case False
    with Cons show ?thesis by simp
  qed
qed

lemma base64_trimmed: "trimmed (base64_encode bs)"
  using encode_loop_chars [of "[]" "[]" bs] char_trimmed
  by (intro trimmed_list) (simp add: base64_encode_def list_all_iff)

lemma base64_length: "length (base64_encode bs) = 4 * ((length bs + 2) div 3)"
  by (simp add: base64_encode_def length_encode)

lemma token_not_lws: "token s \<Longrightarrow> c \<in> set s \<Longrightarrow> c \<noteq> 13 \<and> \<not> lws_char c"
  using token_chars [of s 13] token_chars [of s 32] token_chars [of s 9] by (auto simp: is_not_whitespace_char_def)

lemma trimmed_append: "trimmed s \<Longrightarrow> trimmed t \<Longrightarrow> s \<noteq> [] \<Longrightarrow> t \<noteq> [] \<Longrightarrow> 13 \<notin> set m \<Longrightarrow> trimmed (s @ m @ t)"
  by (auto simp: trimmed_def)

lemma join_trimmed: "list_all (\<lambda>s. s \<noteq> [] \<and> token s) ss \<Longrightarrow> trimmed (join_protocols ss) \<and> (ss \<noteq> [] \<longrightarrow> join_protocols ss \<noteq> [])"
proof (induction ss rule: join_protocols.induct)
  case (3 s t ss)
  have "13 \<notin> set (bytes_of '', '')" by (simp add: bytes_of_def)
  with 3 token_clean [of s] show ?case by (simp add: trimmed_append)
qed (simp_all add: token_clean, simp add: trimmed_def)

lemma digits_trimmed: "trimmed (print_nat n)"
  using print_nat_digits [of n] digit_chars
  by (intro trimmed_list) (auto simp: list_all_iff is_not_whitespace_char_def is_space_def is_digit_def)

lemma host_port_trimmed: "trimmed (m_host u) \<Longrightarrow> m_host u \<noteq> [] \<Longrightarrow> trimmed (get_host_port u) \<and> get_host_port u \<noteq> []"
  using trimmed_append [of "m_host u" "get_port_str u" "[58]"] digits_trimmed [of "unat (m_port u)"] print_nat_digits [of "unat (m_port u)"]
  by (simp add: get_host_port_def get_port_str_def)

subsection \<open>The messages\<close>

text \<open>The names of the headers in the order of the map.\<close>

definition header_names :: "str list" where
  "header_names = [h_connection, h_content_length, h_host, h_accept, h_extensions, h_key, h_protocol, h_version,
     h_server, h_upgrade, h_user_agent]"

lemmas name_defs =
  h_connection_def h_content_length_def h_host_def h_accept_def h_extensions_def h_key_def h_protocol_def
  h_version_def h_server_def h_upgrade_def h_user_agent_def

lemma names_sorted: "sorted_wrt ci_less header_names"
  by (simp add: header_names_def name_defs ci_less_def to_lower_def tolower_def bytes_of_def)

lemmas names_less [simp] = names_sorted [unfolded header_names_def, simplified]

lemma names_tokens: "list_all token header_names"
  by (simp add: header_names_def name_defs token_def bytes_of_def is_not_token_char_def header_token_def)

lemmas name_token [simp] = names_tokens [unfolded header_names_def, simplified]

lemma names_back: "sorted_wrt (\<lambda>a b. \<not> ci_less b a) header_names"
  by (rule sorted_wrt_mono_rel [OF _ names_sorted]) (rule ci.asym)

lemmas names_not_less [simp] = names_back [unfolded header_names_def, simplified]

declare ci.irrefl [simp]

text \<open>The headers that a client sends, and those of the answer.\<close>

definition client_headers :: "str \<Rightarrow> str \<Rightarrow> str list \<Rightarrow> str \<Rightarrow> ordered" where
  "client_headers host key subprotocols agent =
     [(h_connection, bytes_of ''Upgrade''), (h_host, host), (h_key, key)] @
     (if subprotocols = [] then [] else [(h_protocol, join_protocols subprotocols)]) @
     [(h_version, bytes_of ''13''), (h_upgrade, bytes_of ''websocket'')] @
     (if agent = [] then [] else [(h_user_agent, agent)])"

definition client_request :: "uri \<Rightarrow> str \<Rightarrow> str list \<Rightarrow> str \<Rightarrow> http_request" where
  "client_request u key subprotocols agent =
     new_request\<lparr>m_method := bytes_of ''GET'', m_uri := m_resource u, m_version := http_1_1,
       m_headers := client_headers (get_host_port u) key subprotocols agent\<rparr>"

lemma get_token: "token (bytes_of ''GET'')"
  by (simp add: token_def bytes_of_def is_not_token_char_def header_token_def)

lemma append_fresh:
  "token key \<Longrightarrow> map_find ci_less key (m_headers p) = None \<Longrightarrow>
   append_header key val p = Inr (p\<lparr>m_headers := map_set ci_less key val (m_headers p)\<rparr>)"
  by (simp add: append_header_def token_def get_header_def)

lemma client_request_made:
  "\<exists>req. client_handshake_request new_request u subprotocols rng = Inr req
     \<and> agent_header h_user_agent agent req = client_request u (base64_encode (raw_key rng)) subprotocols agent"
proof -
  have m: "set_method (bytes_of ''GET'') new_request = Inr (new_request\<lparr>m_method := bytes_of ''GET''\<rparr>)"
    using get_token by (simp add: set_method_def token_def)
  have h: "m_headers new_request = []" by (simp add: new_request_def)
  show ?thesis
    by (simp add: client_handshake_request_def m h append_fresh set_version_def set_uri_def replace_header_def
      remove_header_def get_header_def agent_header_def client_request_def client_headers_def)
qed

lemma client_headers_ok:
  assumes "trimmed host" "trimmed key" "list_all (\<lambda>s. s \<noteq> [] \<and> token s) subprotocols" "trimmed agent"
  shows "wf_map ci_less (client_headers host key subprotocols agent)
    \<and> list_all header_ok (client_headers host key subprotocols agent)"
proof -
  have "trimmed (bytes_of ''Upgrade'')" "trimmed (bytes_of ''websocket'')" "trimmed (bytes_of ''13'')"
    by (simp_all add: trimmed_def bytes_of_def is_not_whitespace_char_def)
  then show ?thesis
    using assms join_trimmed [OF assms(3)] by (simp add: client_headers_def wf_map_def header_ok_def)
qed


lemma name_lengths [simp]:
  "length h_connection = 10" "length h_content_length = 14" "length h_host = 4" "length h_accept = 20"
  "length h_extensions = 24" "length h_key = 17" "length h_protocol = 22" "length h_version = 21"
  "length h_server = 6" "length h_upgrade = 7" "length h_user_agent = 10"
  by (simp_all add: name_defs)

text \<open>What a client may put into its request.\<close>

definition good_client :: "uri \<Rightarrow> str list \<Rightarrow> str \<Rightarrow> (nat \<Rightarrow> byte list) \<Rightarrow> bool" where
  "good_client u subprotocols agent rng \<longleftrightarrow>
     plain_uri u \<and> trimmed (m_host u) \<and> 32 \<notin> set (m_resource u) \<and> 13 \<notin> set (m_resource u) \<and>
     list_all (\<lambda>s. s \<noteq> [] \<and> token s) subprotocols \<and> trimmed agent \<and> length (raw_key rng) = 16 \<and>
     length (get_host_port u) + length (m_resource u) + length (join_protocols subprotocols) + length agent \<le> 15000"

lemma raw_key_length: "good_client u subprotocols agent rng \<Longrightarrow> length (base64_encode (raw_key rng)) = 24"
  by (simp add: good_client_def base64_length)

lemma client_writable:
  assumes g: "good_client u subprotocols agent rng"
  defines "req \<equiv> client_request u (base64_encode (raw_key rng)) subprotocols agent"
  shows "writable_request req" "length (request_raw req) \<le> 16000"
proof -
  let ?key = "base64_encode (raw_key rng)"
  have host: "trimmed (get_host_port u)" "get_host_port u \<noteq> []"
    using g host_port_trimmed [of u] by (simp_all add: good_client_def plain_uri_def)
  have "wf_map ci_less (m_headers req) \<and> list_all header_ok (m_headers req)"
    unfolding req_def client_request_def using g client_headers_ok [OF host(1) base64_trimmed]
    by (simp add: good_client_def)
  moreover have "lines_size (request_line req # map header_line (m_headers req)) + 3 \<le> 16000"
    using g raw_key_length [OF g]
    by (simp add: good_client_def req_def client_request_def client_headers_def request_line_def header_line_def
        http_1_1_def)
  ultimately show "writable_request req"
    using g host get_token
    by (simp add: writable_request_def writable_headers_def req_def client_request_def client_headers_def get_header_def
        good_client_def max_header_size_def http_1_1_def bytes_of_def new_request_def)
  show "length (request_raw req) \<le> 16000"
    using g raw_key_length [OF g]
    by (simp add: good_client_def req_def client_request_def client_headers_def request_raw_def raw_headers_def
        http_1_1_def new_request_def)
qed

end
