(* ===== verification/WsAgreement.thy ===== *)
theory WsAgreement
  imports WsMessages
begin

text \<open>
  A client and a server of the library agree: the request of the one is accepted by the other, whose response
  the one accepts, and both connections are open.
\<close>

subsection \<open>The answer of the server\<close>

definition server_headers :: "str \<Rightarrow> str \<Rightarrow> ordered" where
  "server_headers key agent =
     [(h_connection, bytes_of ''Upgrade''), (h_accept, process_handshake_key key)] @
     (if agent = [] then [] else [(h_server, agent)]) @ [(h_upgrade, bytes_of ''websocket'')]"

definition server_response :: "str \<Rightarrow> str \<Rightarrow> http_response" where
  "server_response key agent =
     new_response\<lparr>m_version := http_1_1, m_status_code := 101, m_status_msg := bytes_of ''Switching Protocols'',
       m_headers := server_headers key agent\<rparr>"

lemma server_response_made:
  "\<exists>res. process_handshake q [] (set_status 101 new_response) = Inr res
     \<and> agent_header h_server agent (set_version http_1_1 res) = server_response (get_header q h_key) agent"
proof -
  have h: "m_headers new_response = []" by (simp add: new_response_def)
  show ?thesis
    by (simp add: process_handshake_def Let_def h append_fresh set_version_def replace_header_def set_status_def
      set_status_msg_def status_string_def upgrade_token_def connection_token_def
      remove_header_def get_header_def agent_header_def server_response_def server_headers_def)
qed

lemma length_calc: "length (calc m w) = 20"
proof -
  have "length (store_hash r) = 20" for r by (simp add: store_hash_def del: upt_Suc upt_conv_Cons)
  then show ?thesis
    unfolding calc_def Let_def by (simp only: split: prod.split) blast
qed

lemma key_length: "length (process_handshake_key key) = 28"
  by (simp add: process_handshake_key_def base64_length length_calc)

lemma server_writable:
  assumes "trimmed agent" "length agent \<le> 15000"
  shows "writable_response (server_response key agent)" "length (response_raw (server_response key agent)) \<le> 16000"
proof -
  let ?r = "server_response key agent"
  have "trimmed (process_handshake_key key)" by (simp add: process_handshake_key_def base64_trimmed)
  moreover have "trimmed (bytes_of ''Upgrade'')" "trimmed (bytes_of ''websocket'')"
    by (simp_all add: trimmed_def bytes_of_def is_not_whitespace_char_def)
  ultimately have h: "wf_map ci_less (m_headers ?r) \<and> list_all header_ok (m_headers ?r)"
    using assms by (simp add: server_response_def server_headers_def wf_map_def header_ok_def)
  have code: "print_int 101 = [49, 48, 49]" by (simp add: print_int_def print_nat.simps)
  have "lines_size (response_line ?r # map header_line (m_headers ?r)) + 3 \<le> 16000"
    using assms key_length [of key]
    by (simp add: server_response_def server_headers_def response_line_def header_line_def http_1_1_def code)
  with h show "writable_response ?r"
    by (simp add: writable_response_def writable_headers_def server_response_def server_headers_def get_header_def
        max_header_size_def http_1_1_def bytes_of_def new_response_def)
  show "length (response_raw ?r) \<le> 16000"
    using assms key_length [of key]
    by (simp add: server_response_def server_headers_def response_raw_def raw_headers_def
        http_1_1_def new_response_def code)
qed

text \<open>The server accepts what the client sends; the client accepts what the server answers.\<close>

lemma tokens_found [simp]:
  "has_token (bytes_of ''websocket'') upgrade_token" "has_token (bytes_of ''Upgrade'') connection_token"
  by (simp_all add: has_token_def ci_find_substr_def bytes_of_def upgrade_token_def connection_token_def my_equal_def toupper_def)

lemma thirteen: "bytes_of ''13'' \<noteq> []" "scan_int (bytes_of ''13'') = Some 13"
  by (simp_all add: bytes_of_def scan_int_def signed_digits_def is_space_def is_digit_def digits_val_def)

lemma server_accepts:
  assumes q: "m_headers q = client_headers host key subprotocols agent" "m_ready q" "m_method q = bytes_of ''GET''"
      "m_version q = http_1_1" and key: "key \<noteq> []"
  shows "is_websocket_handshake q" "get_websocket_version q = 13" "validate_handshake q = None"
    "negotiate_extensions q = (None, [])" "get_header q h_host = host" "get_header q h_key = key"
  using q key
  by (simp_all add: is_websocket_handshake_def get_websocket_version_def validate_handshake_def negotiate_extensions_def
      get_header_as_plist_def get_header_def client_headers_def thirteen)

lemma client_accepts:
  assumes "m_headers res = server_headers key agent" "m_status_code res = 101" "get_header req h_key = key"
  shows "validate_server_handshake_response req res = None" "negotiate_extensions res = (None, [])"
    "get_header res h_accept = process_handshake_key key"
  using assms
  by (simp_all add: validate_server_handshake_response_def negotiate_extensions_def get_header_as_plist_def
      get_header_def server_headers_def)


text \<open>The URI that the server makes of the \<open>Host\<close> header is a valid one.\<close>

lemma rfind_append: "c \<notin> set t \<Longrightarrow> rfind c (s @ c # t) = Some (length s)"
proof -
  assume "c \<notin> set t"
  then have "takeWhile (\<lambda>x. x \<noteq> c) (rev t @ c # rev s) = rev t" by (subst takeWhile_append2) auto
  then show ?thesis by (simp add: rfind_def)
qed

lemma server_uri_valid:
  assumes u: "plain_uri u" and q: "get_header q h_host = get_host_port u"
  shows "m_valid (hybi_get_uri secure q)"
proof (cases "m_port u = default_port (m_secure u)")
  case True
  then have "get_host_port u = m_host u" by (simp add: get_host_port_def)
  moreover have "rfind 58 (m_host u) = None" using u by (simp add: plain_uri_def rfind_def)
  ultimately show ?thesis by (simp add: hybi_get_uri_def get_uri_from_host_def q uri_host_def)
next
  case False
  then have h: "get_host_port u = m_host u @ 58 # print_nat (unat (m_port u))"
    by (simp add: get_host_port_def get_port_str_def)
  have "58 \<notin> set (print_nat (unat (m_port u)))"
    using print_nat_digits [of "unat (m_port u)"] by (auto simp: list_all_iff is_digit_def)
  then have c: "rfind 58 (get_host_port u) = Some (length (m_host u))" by (simp add: h rfind_append)
  have p: "get_port_from_string b (print_nat (unat (m_port u))) = (m_port u, False)" for b
    using u by (simp add: port_print plain_uri_def)
  have n: "93 \<notin> set (print_nat (unat (m_port u)))"
    using print_nat_digits [of "unat (m_port u)"] by (auto simp: list_all_iff is_digit_def)
  have b: "x \<le> length (m_host u)" if "rfind 93 (get_host_port u) = Some x" for x
  proof -
    have "93 \<in> set (m_host u)" using that n by (auto simp: rfind_def h split: if_splits)
    then have "takeWhile (\<lambda>x. x \<noteq> 93) (rev (get_host_port u))
        = rev (print_nat (unat (m_port u))) @ 58 # takeWhile (\<lambda>x. x \<noteq> 93) (rev (m_host u))"
      using n by (simp add: h) (subst takeWhile_append2, auto)
    with that show ?thesis by (auto simp: rfind_def h split: if_splits)
  qed
  have "drop (length (m_host u) + 1) (get_host_port u) = print_nat (unat (m_port u))" by (simp add: h)
  then show ?thesis
    using b by (auto simp: hybi_get_uri_def get_uri_from_host_def q c uri_host_port_def p Let_def split: option.splits)
qed

subsection \<open>The subprotocols of the client\<close>

lemma no_cr_lws: "13 \<notin> set s \<Longrightarrow> extract_all_lws s = dropWhile lws_char s"
  by (rule all_lws_plain) (auto simp: header_delimiter_def dest: set_mono_sublist)

lemma read_plain_parameter:
  assumes "s \<noteq> []" "token s" "rest = [] \<or> hd rest = 44" "13 \<notin> set rest"
  shows "read_parameter (s @ rest) = Some ((s, []), rest)"
proof -
  have "extract_token (s @ rest) = (s, rest)"
    using assms(2,3) by (cases rest) (auto simp: extract_token_def token_def list_ex_iff is_not_token_char_def
      header_token_def takeWhile_append2 dropWhile_append2)
  moreover have "extract_all_lws rest = rest"
    using assms(3) by (simp add: no_cr_lws [OF assms(4)]) (cases rest; auto simp: is_not_whitespace_char_def)
  ultimately show ?thesis
    using assms(1,3) by (auto simp: read_parameter_def Let_def)
qed

lemma join_no_cr: "list_all (\<lambda>s. s \<noteq> [] \<and> token s) ss \<Longrightarrow> 13 \<notin> set (join_protocols ss)"
  by (induction ss rule: join_protocols.induct) (auto simp: bytes_of_def dest: token_not_lws)

lemma join_hd: "list_all (\<lambda>s. s \<noteq> [] \<and> token s) ss \<Longrightarrow> dropWhile lws_char (join_protocols ss) = join_protocols ss"
proof (induction ss rule: join_protocols.induct)
  case (2 s)
  then show ?case using token_not_lws [of s "hd s"] by (cases s) auto
next
  case (3 s t ss)
  then show ?case using token_not_lws [of s "hd s"] by (cases s) auto
qed simp

lemma parse_joined:
  "list_all (\<lambda>s. s \<noteq> [] \<and> token s) ss \<Longrightarrow> ss \<noteq> [] \<Longrightarrow> 13 \<notin> set cursor \<Longrightarrow> dropWhile lws_char cursor = join_protocols ss \<Longrightarrow>
   parameters_loop b cursor ps = ([], ps @ map (\<lambda>s. (s, [])) ss)"
proof (induction ss arbitrary: cursor ps rule: join_protocols.induct)
  case (2 s)
  then have "read_parameter s = Some ((s, []), [])" using read_plain_parameter [of s "[]"] by simp
  moreover have "extract_all_lws [] = []" by (simp add: no_cr_lws)
  ultimately show ?case using 2 by (subst parameters_loop.simps) (simp add: no_cr_lws Let_def)
next
  case (3 s t ss)
  let ?j = "join_protocols (t # ss)" and ?rest = "44 # 32 # join_protocols (t # ss)"
  have j: "13 \<notin> set ?j" "dropWhile lws_char (32 # ?j) = ?j"
    using 3(2) join_no_cr [of "t # ss"] join_hd [of "t # ss"] by (auto simp: is_not_whitespace_char_def)
  have d: "dropWhile lws_char cursor = s @ ?rest" using 3(5) by (simp add: bytes_of_def)
  moreover have "read_parameter (s @ ?rest) = Some ((s, []), ?rest)"
    using 3(2) j(1) read_plain_parameter [of s ?rest] by auto
  moreover have "extract_all_lws ?rest = ?rest" using j(1) by (simp add: no_cr_lws is_not_whitespace_char_def)
  ultimately have "parameters_loop b cursor ps = parameters_loop b (32 # ?j) (ps @ [(s, [])])"
    using 3(2,4) by (subst parameters_loop.simps) (simp add: no_cr_lws Let_def del: join_protocols.simps)
  then show ?case using 3(1) [OF _ _ _ j(2)] 3(2) j(1) by simp
qed simp

lemma subprotocols_read:
  assumes "list_all (\<lambda>s. s \<noteq> [] \<and> token s) ss" "m_headers q = client_headers host key ss agent"
  shows "extract_subprotocols q = (None, ss)"
proof (cases "ss = []")
  case True
  then show ?thesis using assms(2) by (simp add: extract_subprotocols_def get_header_def client_headers_def)
next
  case False
  let ?j = "join_protocols ss"
  have j: "?j \<noteq> []" using join_trimmed [OF assms(1)] False by blast
  have "map_find ci_less h_protocol (m_headers q) = Some ?j" using False assms(2) by (simp add: client_headers_def)
  moreover have "parameters_loop ?j ?j [] = ([], map (\<lambda>s. (s, [])) ss)"
    using parse_joined [OF assms(1) False join_no_cr [OF assms(1)] join_hd [OF assms(1)]] by simp
  ultimately show ?thesis
    using j by (simp add: extract_subprotocols_def get_header_def get_header_as_plist_def parse_parameter_list_def
      extract_parameters_def comp_def)
qed

subsection \<open>The states of a handshake\<close>

lemma new_connection_simps:
  "t_timers (new_connection server rng) = []" "t_next_timer (new_connection server rng) = 0"
  "m_is_server (new_connection server rng) = server" "m_session (new_connection server rng) = Connecting"
  "m_internal_state (new_connection server rng) = USER_INIT" "m_rng (new_connection server rng) = rng"
  "m_handshake_timer (new_connection server rng) = None" "m_ec (new_connection server rng) = None"
  "m_is_http (new_connection server rng) = False" "m_http_state (new_connection server rng) = Http_init"
  by (simp_all add: new_connection_def)

lemma new_handshake_simps:
  "o_con (new_handshake server rng agent u) = new_connection server rng"
  "o_request (new_handshake server rng agent u) = new_request"
  "o_response (new_handshake server rng agent u) = new_response"
  "o_uri (new_handshake server rng agent u) = u" "o_processor (new_handshake server rng agent u) = None"
  "o_subprotocol (new_handshake server rng agent u) = []"
  "o_requested_subprotocols (new_handshake server rng agent u) = []"
  "o_user_agent (new_handshake server rng agent u) = agent" "o_timeout_dur (new_handshake server rng agent u) = 5000"
  "o_transport_secure (new_handshake server rng agent u) = False" "o_leftover (new_handshake server rng agent u) = []"
  "o_pending (new_handshake server rng agent u) = []" "o_wire (new_handshake server rng agent u) = []"
  by (simp_all add: new_handshake_def)

text \<open>A connection whose open handshake timer runs, in a given internal state.\<close>

definition timed :: "bool \<Rightarrow> (nat \<Rightarrow> byte list) \<Rightarrow> internal_state \<Rightarrow> connection" where
  "timed server rng i = (new_connection server rng)\<lparr>t_timers := [(0, Open_handshake_timer)], t_next_timer := 1,
     m_handshake_timer := Some 0, m_internal_state := i\<rparr>"

lemma timed_simps:
  "t_timers (timed server rng i) = [(0, Open_handshake_timer)]"
  "m_is_server (timed server rng i) = server" "m_session (timed server rng i) = Connecting"
  "m_internal_state (timed server rng i) = i" "m_handshake_timer (timed server rng i) = Some 0"
  "m_is_http (timed server rng i) = False" "m_http_state (timed server rng i) = Http_init"
  "(timed server rng i)\<lparr>m_internal_state := j\<rparr> = timed server rng j" "(timed server rng i)\<lparr>m_ec := None\<rparr> = timed server rng i"
  by (simp_all add: timed_def new_connection_def)

text \<open>The connection a handshake leaves behind; its timer is cancelled.\<close>

definition shaken :: "bool \<Rightarrow> (nat \<Rightarrow> byte list) \<Rightarrow> connection" where
  "shaken server rng = (new_connection server rng)\<lparr>t_next_timer := 1\<rparr>"

lemma stop_timed:
  "o_con s = timed server rng i \<Longrightarrow>
   go_open h leftover (stop_open_timer s) =
     map_option (\<lambda>c. s\<lparr>o_con := c\<rparr>) (opened (oh_con h) leftover (shaken server rng))"
proof -
  assume s: "o_con s = timed server rng i"
  have "opened (oh_con h) leftover ((timed server rng i)\<lparr>t_timers := [], m_handshake_timer := None\<rparr>)
      = opened (oh_con h) leftover (shaken server rng)"
    by (simp add: opened_def timed_def shaken_def new_connection_def)
  then show ?thesis
    by (simp add: go_open_def stop_open_timer_def on_con_def s timed_simps cancel_timer_def split: option.splits)
qed


text \<open>The client has handed its request to the transport.\<close>

definition new_client :: "(nat \<Rightarrow> byte list) \<Rightarrow> str \<Rightarrow> uri \<Rightarrow> str list \<Rightarrow> handshake" where
  "new_client rng agent u subprotocols = (new_handshake False rng agent u)\<lparr>o_requested_subprotocols := subprotocols\<rparr>"

definition client_asking :: "(nat \<Rightarrow> byte list) \<Rightarrow> str \<Rightarrow> uri \<Rightarrow> str list \<Rightarrow> handshake" where
  "client_asking rng agent u subprotocols =
     (let req = client_request u (base64_encode (raw_key rng)) subprotocols agent
      in (new_client rng agent u subprotocols)\<lparr>o_con := timed False (\<lambda>n. rng (n + 4)) WRITE_HTTP_REQUEST,
           o_request := req, o_processor := Some 13, o_pending := [Write_request], o_wire := request_raw req\<rparr>)"

lemma client_asks:
  "hs_do h (Complete 0 None []) (start (new_client rng agent u subprotocols)) = Some (client_asking rng agent u subprotocols)"
proof -
  obtain req where req: "client_handshake_request new_request u subprotocols rng = Inr req"
    "agent_header h_user_agent agent req = client_request u (base64_encode (raw_key rng)) subprotocols agent"
    using client_request_made by blast
  show ?thesis
    by (simp add: start_def o_internal_def new_client_def new_handshake_simps new_connection_simps complete_def
        await_def set_internal_def on_con_def handle_transport_init_def send_http_request_def Let_def req
        write_handshake_def start_open_timer_def set_timer_def client_asking_def timed_def)
      (simp add: new_handshake_def new_connection_def)
qed

lemma client_waits:
  "hs_do h (Complete 0 None []) (client_asking rng agent u subprotocols) =
     Some ((client_asking rng agent u subprotocols)\<lparr>o_con := timed False (\<lambda>n. rng (n + 4)) READ_HTTP_RESPONSE,
             o_pending := [Read_response]\<rparr>)"
  by (simp add: client_asking_def Let_def complete_def handle_send_http_request_def completed_def o_state_def
      o_internal_def timed_simps await_def set_internal_def on_con_def)

text \<open>The server waits for the request, and answers it.\<close>

definition server_waiting :: "(nat \<Rightarrow> byte list) \<Rightarrow> str \<Rightarrow> uri \<Rightarrow> handshake" where
  "server_waiting rng agent u =
     (new_handshake True rng agent u)\<lparr>o_con := timed True rng READ_HTTP_REQUEST, o_pending := [Read_request]\<rparr>"

lemma server_waits:
  "hs_do h (Complete 0 None []) (start (new_handshake True rng agent u)) = Some (server_waiting rng agent u)"
  by (simp add: start_def o_internal_def new_handshake_simps new_connection_simps complete_def
      await_def set_internal_def on_con_def handle_transport_init_def read_handshake_def Let_def
      start_open_timer_def set_timer_def server_waiting_def timed_def)

lemma plain_host: "plain_uri u \<Longrightarrow> get_host_port u \<noteq> []"
  by (simp add: plain_uri_def get_host_port_def)

lemma server_answers:
  assumes g: "good_client u subprotocols agent rng" and a: "trimmed agent'" "length agent' \<le> 15000"
    and h: "oh_validate h = None" and early: "length early \<le> 384"
  defines "key \<equiv> base64_encode (raw_key rng)"
  defines "sent \<equiv> request_raw (client_request u key subprotocols agent)"
  shows "\<exists>s. hs_do h (Complete 0 None (sent @ early)) (server_waiting rng' agent' u') = Some s
    \<and> o_con s = timed True rng' PROCESS_HTTP_REQUEST \<and> o_pending s = [Write_response]
    \<and> o_response s = server_response key agent' \<and> o_wire s = response_raw (server_response key agent')
    \<and> o_leftover s = early \<and> o_requested_subprotocols s = subprotocols"
proof -
  let ?r = "client_request u key subprotocols agent"
  obtain q where q: "request_consume (sent @ early) new_request = Inr (length sent, q)" "m_ready q"
      "m_method q = bytes_of ''GET''" "m_version q = http_1_1"
      "m_headers q = client_headers (get_host_port u) key subprotocols agent"
    using request_read_back [OF client_writable(1) [OF g], of early]
    by (auto simp: sent_def key_def client_request_def new_request_def)
  have "key \<noteq> []" using raw_key_length [OF g] by (auto simp: key_def)
  note acc = server_accepts [OF q(5,2,3,4) this]
  have sub: "extract_subprotocols q = (None, subprotocols)"
    using g q(5) by (intro subprotocols_read) (simp_all add: good_client_def)
  have uri: "m_valid (hybi_get_uri secure q)" for secure
    using g acc(5) by (intro server_uri_valid) (simp_all add: good_client_def)
  obtain res where res: "process_handshake q [] (set_status 101 new_response) = Inr res"
      "agent_header h_server agent' (set_version http_1_1 res) = server_response key agent'"
    using server_response_made [of q agent'] acc(6) by auto
  have "m_status_code (agent_header h_server agent' (set_version http_1_1 res)) = m_status_code res"
    by (simp add: agent_header_def replace_header_def remove_header_def set_version_def)
  then have code: "m_status_code res = 101" by (simp add: res(2)) (simp add: server_response_def)
  have len: "length (sent @ early) \<le> 16384" using client_writable(2) [OF g] early by (simp add: sent_def key_def)
  define s where "s = (server_waiting rng' agent' u')\<lparr>o_pending := [], o_request := q\<rparr>"
  have s: "o_request s = q" "o_con s = timed True rng' READ_HTTP_REQUEST" "o_response s = new_response"
    "o_subprotocol s = []" "o_user_agent s = agent'" "o_pending s = []" "o_wire s = []" "o_requested_subprotocols s = []"
    by (simp_all add: s_def server_waiting_def new_handshake_simps)
  have step: "hs_do h (Complete 0 None (sent @ early)) (server_waiting rng' agent' u') = request_complete h early s"
    using len by (simp add: complete_def handle_read_handshake_def completed_def o_state_def o_internal_def s_def
        server_waiting_def timed_simps new_handshake_simps connection_read_buffer_size_def q(1,2) Let_def)
  show ?thesis unfolding step
    by (simp add: request_complete_def initialize_processor_def s acc Let_def get_processor_def versions_supported_def
        process_handshake_request_def process_upgrade_request_def set_internal_def on_con_def uri h accept_handshake_def
        set_response_status_def res(1) timed_simps write_http_response_def code res(2) write_handshake_def await_def
        get_raw_def sub)
qed


text \<open>The ends: the connections are opened with what came along.\<close>

lemma server_opens:
  assumes "o_con s = timed True rng PROCESS_HTTP_REQUEST" "o_pending s = [Write_response]"
    "o_response s = server_response key agent"
  shows "map_option o_con (hs_do h (Complete 0 None []) s) = opened (oh_con h) (o_leftover s) (shaken True rng)"
proof -
  define s' where "s' = s\<lparr>o_pending := []\<rparr>"
  have c: "o_con s' = timed True rng PROCESS_HTTP_REQUEST" "o_leftover s' = o_leftover s" "o_response s' = o_response s"
    by (simp_all add: s'_def assms(1))
  have r: "o_response (stop_open_timer s') = server_response key agent" "o_leftover (stop_open_timer s') = o_leftover s"
    by (simp_all add: stop_open_timer_def on_con_def c assms(3))
  have "hs_do h (Complete 0 None []) s = go_open h (o_leftover s) (stop_open_timer s')"
    unfolding s'_def using assms r(1) [unfolded s'_def] r(2) [unfolded s'_def]
    by (simp add: complete_def handle_write_http_response_def completed_def o_state_def o_internal_def timed_simps Let_def
        server_response_def)
  then show ?thesis
    by (simp only: stop_timed [OF c(1)] c(2)) (simp add: option.map_comp comp_def option.map_ident)
qed

lemma client_opens:
  assumes g: "good_client u subprotocols agent rng" and a: "trimmed agent'" "length agent' \<le> 15000"
  defines "key \<equiv> base64_encode (raw_key rng)"
  defines "c \<equiv> (client_asking rng agent u subprotocols)\<lparr>o_con := timed False (\<lambda>n. rng (n + 4)) READ_HTTP_RESPONSE,
             o_pending := [Read_response]\<rparr>"
  shows "map_option o_con (hs_do h (Complete 0 None (response_raw (server_response key agent') @ late)) c) =
    opened (oh_con h) late (shaken False (\<lambda>n. rng (n + 4)))"
proof -
  let ?raw = "response_raw (server_response key agent')"
  obtain q where q: "response_consume (?raw @ late) new_response = Inr (length ?raw, q)" "headers_ready q"
      "m_status_code q = 101" "m_headers q = server_headers key agent'"
    using response_round_trip [OF server_writable(1) [OF a, of key], of late] by (auto simp: server_response_def)
  define s where "s = c\<lparr>o_pending := [], o_response := q\<rparr>"
  have con: "o_con (s\<lparr>o_leftover := l\<rparr>) = timed False (\<lambda>n. rng (n + 4)) READ_HTTP_RESPONSE" for l
    by (simp add: s_def c_def)
  have req: "o_request (stop_open_timer s) = client_request u key subprotocols agent" "o_response (stop_open_timer s) = q"
    by (simp_all add: stop_open_timer_def on_con_def s_def c_def client_asking_def Let_def key_def)
  have k: "get_header (client_request u key subprotocols agent) h_key = key"
    by (simp add: client_request_def client_headers_def get_header_def)
  note acc = client_accepts [OF q(4,3) k]
  have "hs_do h (Complete 0 None (?raw @ late)) c = response_complete h late s"
    by (simp add: c_def s_def complete_def handle_read_http_response_def completed_def o_state_def o_internal_def
        timed_simps client_asking_def Let_def new_client_def new_handshake_simps q(1,2))
  moreover have "(stop_open_timer s)\<lparr>o_leftover := late\<rparr> = stop_open_timer (s\<lparr>o_leftover := late\<rparr>)"
    by (rule handshake.equality) (simp_all add: stop_open_timer_def on_con_def split: option.split)
  then have "response_complete h late s = go_open h late (stop_open_timer (s\<lparr>o_leftover := late\<rparr>))"
    by (simp add: response_complete_def Let_def req acc(1,2))
  ultimately show ?thesis
    by (simp only: stop_timed [OF con]) (simp add: option.map_comp comp_def option.map_ident)
qed


text \<open>
  C3. The opening handshake. A client with a plain URI, subprotocols that are tokens and a user agent, and a
  server that validates nothing more, each started and run: the bytes the client writes, which may be followed by
  more, make the server write a response whose accept key is the Base64 form of the SHA-1 hash of the key of the
  client and the GUID of the protocol. When the response is written the server opens its connection and reads what
  followed the request; when the client has read the response it opens its connection and reads what followed the
  response. Both connections are then as new, but for the number of their next timer and the four draws of the
  client, and both handshake timers are cancelled.
\<close>

theorem opening_handshake:
  assumes "good_client u subprotocols agent rng" "trimmed agent'" "length agent' \<le> 15000"
    and "oh_validate h' = None" "length early \<le> 384"
  shows "\<exists>c1 c2 s1 s2.
    hs_do h (Complete 0 None []) (start (new_client rng agent u subprotocols)) = Some c1 \<and>
    hs_do h (Complete 0 None []) c1 = Some c2 \<and>
    hs_do h' (Complete 0 None []) (start (new_handshake True rng' agent' u')) = Some s1 \<and>
    hs_do h' (Complete 0 None (o_wire c1 @ early)) s1 = Some s2 \<and>
    o_requested_subprotocols s2 = subprotocols \<and>
    get_header (o_response s2) h_accept
      = base64_encode (sha1_reference (base64_encode (raw_key rng) @ handshake_guid)) \<and>
    map_option o_con (hs_do h' (Complete 0 None []) s2) = opened (oh_con h') early (shaken True rng') \<and>
    map_option o_con (hs_do h (Complete 0 None (o_wire s2 @ late)) c2)
      = opened (oh_con h) late (shaken False (\<lambda>n. rng (n + 4)))"
proof -
  let ?key = "base64_encode (raw_key rng)"
  let ?c1 = "client_asking rng agent u subprotocols"
  obtain s2 where s2: "hs_do h' (Complete 0 None (o_wire ?c1 @ early)) (server_waiting rng' agent' u') = Some s2"
      "o_con s2 = timed True rng' PROCESS_HTTP_REQUEST" "o_pending s2 = [Write_response]"
      "o_response s2 = server_response ?key agent'" "o_wire s2 = response_raw (server_response ?key agent')"
      "o_leftover s2 = early" "o_requested_subprotocols s2 = subprotocols"
    using server_answers [OF assms(1-5), of rng' u'] by (auto simp: client_asking_def Let_def)
  have "length (?key @ handshake_guid) < 2 ^ 29"
    by (simp add: raw_key_length [OF assms(1)] handshake_guid_def bytes_of_def)
  then have "get_header (o_response s2) h_accept = base64_encode (sha1_reference (?key @ handshake_guid))"
    by (simp add: s2(4) server_response_def server_headers_def get_header_def process_handshake_key_def calc_sha1)
  moreover have "map_option o_con (hs_do h (Complete 0 None (o_wire s2 @ late))
      (?c1\<lparr>o_con := timed False (\<lambda>n. rng (n + 4)) READ_HTTP_RESPONSE, o_pending := [Read_response]\<rparr>))
      = opened (oh_con h) late (shaken False (\<lambda>n. rng (n + 4)))"
    using client_opens [OF assms(1-3)] by (simp only: s2(5))
  ultimately show ?thesis
    using client_asks client_waits server_waits s2(1,7) server_opens [OF s2(2,3,4), of h'] s2(6) by blast
qed


definition quiet_handlers :: opening_handlers where
  "quiet_handlers = \<lparr>oh_validate = None, oh_http = None, oh_con = no_handlers\<rparr>"

lemma opened_quiet:
  "opened no_handlers [] (shaken server rng) =
     Some ((shaken server rng)\<lparr>m_internal_state := PROCESS_CONNECTION, m_session := Open, t_reads := 1\<rparr>)"
  by (simp add: opened_def shaken_def no_handlers_def handle_read_frame_def read_loop.simps read_frame_def async_read_def
      call_def new_connection_def)

lemma good_sample: "good_client sample_uri [bytes_of ''live'', bytes_of ''raw''] (bytes_of ''cam'') (\<lambda>n. [1, 2, 3, 4])"
  by (simp add: good_client_def plain_uri_def sample_uri_def secure_scheme_def bytes_of_def trimmed_def token_def
      is_not_token_char_def header_token_def is_not_whitespace_char_def raw_key_def get_host_port_def get_port_str_def
      default_port_def uri_default_port_def uri_default_secure_port_def print_nat.simps)

theorem opening_handshake_witness:
  "\<exists>c2 s2 c s. get_header (o_response s2) h_accept
      = base64_encode (sha1_reference (base64_encode (raw_key (\<lambda>n. [1, 2, 3, 4])) @ handshake_guid)) \<and>
    map_option o_con (hs_do quiet_handlers (Complete 0 None []) s2) = Some s \<and> m_session s = Open \<and>
    map_option o_con (hs_do quiet_handlers (Complete 0 None (o_wire s2)) c2) = Some c \<and> m_session c = Open"
proof -
  let ?rng = "\<lambda>n::nat. [1, 2, 3, 4::byte]" and ?go = "hs_do quiet_handlers"
  let ?open = "\<lambda>server rng. (shaken server rng)\<lparr>m_internal_state := PROCESS_CONNECTION, m_session := Open, t_reads := 1\<rparr>"
  have a: "trimmed (bytes_of ''srv'')" "length (bytes_of ''srv'') \<le> 15000"
    by (simp_all add: trimmed_def bytes_of_def is_not_whitespace_char_def)
  have q: "oh_validate quiet_handlers = None" "oh_con quiet_handlers = no_handlers" by (simp_all add: quiet_handlers_def)
  obtain c2 s2 where r: "get_header (o_response s2) h_accept = base64_encode (sha1_reference (base64_encode (raw_key ?rng) @ handshake_guid))"
    "map_option o_con (?go (Complete 0 None []) s2) = opened no_handlers [] (shaken True ?rng)"
    "map_option o_con (?go (Complete 0 None (o_wire s2 @ [])) c2) = opened no_handlers [] (shaken False (\<lambda>n. ?rng (n + 4)))"
    using opening_handshake [OF good_sample a q(1), of "[]" quiet_handlers ?rng sample_uri "[]"] q(2) by auto
  have m: "m_session (?open server rng) = Open" for server rng by simp
  show ?thesis
    using r(1) r(2,3) [unfolded opened_quiet append_Nil2] m by blast
qed

end
