(* ===== verification/WsServing.thy ===== *)
theory WsServing
  imports WsAgreement
begin

text \<open>
  What a server answers whatever a client sends, and what a client does with a response whose list of extensions
  is malformed.
\<close>

subsection \<open>The answers of a server\<close>

text \<open>A validation of the user that chooses at most a subprotocol.\<close>

definition only_chooses :: "opening_handlers \<Rightarrow> bool" where
  "only_chooses h \<longleftrightarrow> oh_http h = None \<and> (\<forall>f. oh_validate h = Some f \<longrightarrow> (\<forall>s. \<exists>p. snd (f s) = s\<lparr>o_subprotocol := p\<rparr>))"

text \<open>A response of status 101 answers the upgrade request that was read.\<close>

definition answers :: "http_request \<Rightarrow> http_response \<Rightarrow> bool" where
  "answers q r \<longleftrightarrow> m_ready q \<and> is_websocket_handshake q \<and> validate_handshake q = None
     \<and> get_header r h_accept = process_handshake_key (get_header q h_key)"

definition honest :: "handshake \<Rightarrow> bool" where
  "honest s \<longleftrightarrow> m_status_code (o_response s) = 101 \<longrightarrow> answers (o_request s) (o_response s)"

definition server_inv :: "handshake \<Rightarrow> bool" where
  "server_inv s \<longleftrightarrow> honest s \<and>
     (o_wire s = [] \<and> (o_pending s = [] \<or> o_pending s = [Read_request] \<and> o_response s = new_response \<and> request_inv (o_request s)) \<or>
      o_wire s = response_raw (o_response s) \<and> m_status_code (o_response s) \<noteq> 0 \<and>
        (o_pending s = [] \<or> o_pending s = [Write_response]))"

lemma con_only [simp]:
  "o_wire (on_con f s) = o_wire s" "o_response (on_con f s) = o_response s" "o_request (on_con f s) = o_request s"
  "o_pending (on_con f s) = o_pending s" "o_user_agent (on_con f s) = o_user_agent s"
  "o_subprotocol (on_con f s) = o_subprotocol s"
  by (simp_all add: on_con_def)

lemma inv_con [simp]: "server_inv (s\<lparr>o_con := c\<rparr>) = server_inv s" "server_inv (on_con f s) = server_inv s"
  "server_inv (terminate_with ec s) = server_inv s"
  by (simp_all add: server_inv_def honest_def on_con_def terminate_with_def)

lemma status_set [simp]: "m_status_code (set_status k r) = k" "m_status_code (set_status_msg k m r) = k"
  by (simp_all add: set_status_def set_status_msg_def)

lemma agent_status: "m_status_code (agent_header h_server agent (set_version v r)) = m_status_code r"
  by (simp add: agent_header_def replace_header_def remove_header_def set_version_def)

text \<open>A response that is written answers the request, if it had the right headers before.\<close>

lemma write_answers:
  assumes "o_wire s = []" "o_pending s = []" "ec \<noteq> Some (Library W_http_connection_ended)"
    and "m_status_code (o_response s) = 101 \<Longrightarrow>
      answers (o_request s) (agent_header h_server (o_user_agent s) (set_version http_1_1 (o_response s)))"
  shows "server_inv (write_http_response ec s)"
  using assms by (simp add: write_http_response_def server_inv_def honest_def Let_def write_handshake_def
      await_def get_raw_def agent_status)

lemma write_error_answers:
  assumes "o_wire s = []" "o_pending s = []" "e \<noteq> Library W_http_connection_ended" "m_status_code (o_response s) \<noteq> 101"
  shows "server_inv (write_http_response_error e s)"
proof -
  have "server_inv s" using assms by (simp add: server_inv_def honest_def)
  then show ?thesis
    using assms by (auto simp: write_http_response_error_def set_internal_def intro!: write_answers)
qed

text \<open>What a complete request leads to: an error with a status, or a response that answers the request.\<close>

definition decided :: "error_code option \<Rightarrow> handshake \<Rightarrow> bool" where
  "decided ec s \<longleftrightarrow> o_wire s = [] \<and> o_pending s = [] \<and> ec \<noteq> Some (Library W_http_connection_ended) \<and> honest s \<and>
     (m_status_code (o_response s) = 101 \<longrightarrow>
        answers (o_request s) (agent_header h_server (o_user_agent s) (set_version http_1_1 (o_response s))))"

lemma decided_inv: "decided ec s \<Longrightarrow> server_inv s"
  by (simp add: decided_def server_inv_def)

lemma decided_written: "decided ec s \<Longrightarrow> server_inv (write_http_response ec s)"
  by (rule write_answers) (simp_all add: decided_def)

lemma decided_error:
  "o_wire s = [] \<Longrightarrow> o_pending s = [] \<Longrightarrow> ec \<noteq> Some (Library W_http_connection_ended) \<Longrightarrow> k \<noteq> 101 \<Longrightarrow>
   decided ec (set_response_status k s)"
  by (simp add: decided_def honest_def set_response_status_def)

lemma accepted_response:
  "\<exists>res. process_handshake q p (set_status 101 new_response) = Inr res \<and> m_status_code res = 101
     \<and> get_header res h_accept = process_handshake_key (get_header q h_key)
     \<and> get_header (agent_header h_server agent (set_version http_1_1 res)) h_accept = process_handshake_key (get_header q h_key)"
proof -
  have h: "m_headers new_response = []" by (simp add: new_response_def)
  show ?thesis
    by (simp add: process_handshake_def Let_def h append_fresh set_version_def replace_header_def set_status_def
      set_status_msg_def status_string_def upgrade_token_def connection_token_def
      remove_header_def get_header_def agent_header_def)
qed

lemma accept_decided:
  assumes "o_wire s = []" "o_pending s = []" "o_response s = new_response" "m_ready (o_request s)"
    "is_websocket_handshake (o_request s)" "validate_handshake (o_request s) = None"
  shows "\<exists>s'. accept_handshake s = Some (None, s') \<and> decided None s'"
  using accepted_response [of "o_request s" "o_subprotocol s" "o_user_agent s"] assms
  by (auto simp: accept_handshake_def Let_def set_response_status_def decided_def honest_def answers_def)


lemma no_extension_answer: "snd (negotiate_extensions q) = []"
  by (simp add: negotiate_extensions_def Let_def split: prod.split)

lemma negotiate_error: "negotiate_extensions q = (Some e, a) \<Longrightarrow> e = Processor P_extension_parse_error"
  by (auto simp: negotiate_extensions_def Let_def split: prod.splits if_splits)

lemma validate_error: "validate_handshake q = Some e \<Longrightarrow> \<exists>p. e = Processor p"
  by (auto simp: validate_handshake_def split: if_splits)

lemma upgrade_decided:
  assumes "o_wire s = []" "o_pending s = []" "o_response s = new_response" "m_ready (o_request s)"
    "is_websocket_handshake (o_request s)" "only_chooses h" "process_upgrade_request h s = Some (ec, s')"
  shows "decided ec s'"
proof -
  let ?q = "o_request s"
  let ?s = "s\<lparr>o_uri := hybi_get_uri (o_transport_secure s) ?q\<rparr>"
  let ?t = "?s\<lparr>o_requested_subprotocols := o_requested_subprotocols s @ snd (extract_subprotocols ?q)\<rparr>"
  consider (invalid) e where "validate_handshake ?q = Some e"
    | (extensions) e a where "validate_handshake ?q = None" "negotiate_extensions ?q = (Some e, a)"
    | (uri) "validate_handshake ?q = None" "negotiate_extensions ?q = (None, [])" "\<not> m_valid (o_uri ?s)"
    | (valid) "validate_handshake ?q = None" "negotiate_extensions ?q = (None, [])" "m_valid (o_uri ?s)"
    using no_extension_answer [of ?q] by (cases "validate_handshake ?q"; cases "negotiate_extensions ?q"; cases "fst (negotiate_extensions ?q)") auto
  then show ?thesis
  proof cases
    case invalid
    then show ?thesis using assms validate_error [OF invalid]
      by (auto simp: process_upgrade_request_def intro!: decided_error)
  next
    case extensions
    then show ?thesis using assms negotiate_error [OF extensions(2)]
      by (auto simp: process_upgrade_request_def intro!: decided_error)
  next
    case uri
    then show ?thesis using assms by (auto simp: process_upgrade_request_def Let_def intro!: decided_error)
  next
    case valid
    then have run: "process_upgrade_request h s =
        (case oh_validate h of None \<Rightarrow> accept_handshake ?t
         | Some f \<Rightarrow> (case f ?t of (ok, s) \<Rightarrow> if ok then accept_handshake s else Some (reject_handshake s)))"
      by (simp add: process_upgrade_request_def Let_def)
    have acc: "decided None s'" "ec = None" if "accept_handshake (?t\<lparr>o_subprotocol := p\<rparr>) = Some (ec, s')" for p
      using accept_decided [of "?t\<lparr>o_subprotocol := p\<rparr>"] assms(1-5) valid(1) that by auto
    show ?thesis
    proof (cases "oh_validate h")
      case None
      then show ?thesis using acc [of "o_subprotocol ?t"] run assms(7) by simp
    next
      case (Some f)
      then obtain ok p where f: "f ?t = (ok, ?t\<lparr>o_subprotocol := p\<rparr>)"
        using assms(6) by (metis only_chooses_def prod.collapse)
      show ?thesis
      proof (cases ok)
        case True
        then show ?thesis using acc [of p] run assms(7) Some f by auto
      next
        case False
        then have "(ec, s') = reject_handshake (?t\<lparr>o_subprotocol := p\<rparr>)" using run assms(7) Some f by auto
        then show ?thesis using assms(1-3)
          by (auto simp: reject_handshake_def new_response_def intro!: decided_error)
      qed
    qed
  qed
qed

lemma con_set_status_eq: "con_set_status k s = (if o_internal s \<noteq> PROCESS_HTTP_REQUEST then None else Some (set_response_status k s))"
  by (simp add: con_set_status_def set_response_status_def)

lemma plain_decided:
  assumes "o_wire s = []" "o_pending s = []" "only_chooses h" "process_plain_request h s = Some (ec, s')"
  shows "decided ec s'"
  using assms
  by (auto simp: process_plain_request_def Let_def only_chooses_def con_set_status_eq
      split: if_splits intro!: decided_error)

lemma request_answered:
  assumes "o_wire s = []" "o_pending s = []" "o_response s = new_response" "m_ready (o_request s)" "only_chooses h"
    "request_complete h l s = Some s'"
  shows "server_inv s'"
proof -
  obtain ec t where i: "initialize_processor s = (ec, t)" by fastforce
  show ?thesis
  proof (cases ec)
    case (Some e)
    then have "o_wire t = []" "o_pending t = []" "m_status_code (o_response t) = 400" "e \<noteq> Library W_http_connection_ended"
      using i assms(1,2) by (auto simp: initialize_processor_def Let_def set_response_status_def replace_header_def
        split: if_splits option.splits)
    then show ?thesis using assms(6) by (simp add: request_complete_def i Some) (auto intro!: write_error_answers)
  next
    case None
    then have t: "\<exists>p. t = s\<lparr>o_processor := p\<rparr>"
      using i by (auto simp: initialize_processor_def Let_def split: if_splits option.splits) (rule exI [of _ "o_processor s"], simp)
    let ?t = "set_internal PROCESS_HTTP_REQUEST (t\<lparr>o_leftover := l\<rparr>)"
    obtain ec u where u: "process_handshake_request h ?t = Some (ec, u)"
      "s' = (if \<not> m_is_http (o_con u) \<or> m_http_state (o_con u) = Http_init then write_http_response ec u else u)"
      using assms(6) by (auto simp: request_complete_def i None split: if_splits option.splits)
    have t': "o_wire ?t = []" "o_pending ?t = []" "o_response ?t = new_response" "o_request ?t = o_request s"
      using t assms(1-3) by (auto simp: set_internal_def)
    have "decided ec u"
      using u(1) t' assms(4,5) upgrade_decided [of ?t h ec u] plain_decided [of ?t h ec u]
      by (auto simp: process_handshake_request_def split: if_splits)
    then show ?thesis unfolding u(2) using decided_inv decided_written by simp
  qed
qed


text \<open>Every event keeps this.\<close>

lemma read_handshake_inv:
  assumes "o_wire s = []" "o_pending s = []" "o_response s = new_response" "only_chooses h"
    "handle_read_handshake h ec buf s = Some s'" "request_inv (o_request s)"
  shows "server_inv s'"
proof -
  note safe = request_consume_safe [OF assms(6), of buf]
  have inv: "server_inv s" using assms(1-3) by (simp add: server_inv_def honest_def new_response_def)
  show ?thesis
  proof (cases "completed READ_HTTP_REQUEST ec s")
    case Good
    show ?thesis
    proof (cases "request_consume buf (o_request s)")
      case (Inl e)
      then show ?thesis
        using Good assms inv safe
        by (cases e) (auto simp: handle_read_handshake_def reads_well_def stops_well_def split: if_splits intro!: write_error_answers)
    next
      case (Inr nr)
      obtain n r where nr: "nr = (n, r)" by (cases nr)
      let ?s = "s\<lparr>o_request := r\<rparr>"
      have i: "server_inv ?s" using assms(1-3) by (simp add: server_inv_def honest_def new_response_def)
      have w: "server_inv (await Read_request ?s)"
        using assms(1-3) safe by (simp add: server_inv_def honest_def new_response_def await_def Inr nr reads_well_def)
      show ?thesis
        using Good assms inv i w Inr nr request_answered [of ?s h "drop n buf" s']
        by (auto simp: handle_read_handshake_def Let_def split: if_splits)
    qed
  qed (use assms inv in \<open>auto simp: handle_read_handshake_def\<close>)
qed


lemma inv_popped: "server_inv s \<Longrightarrow> server_inv (s\<lparr>o_pending := []\<rparr>)"
  by (auto simp: server_inv_def honest_def)

lemma go_open_inv: "go_open h l s = Some s' \<Longrightarrow> server_inv s \<Longrightarrow> server_inv s'"
  by (auto simp: go_open_def split: option.splits)

lemma write_done_inv: "handle_write_http_response h ec s = Some s' \<Longrightarrow> server_inv s \<Longrightarrow> server_inv s'"
  by (auto simp: handle_write_http_response_def stop_open_timer_def Let_def split: completion.splits if_splits
      dest: go_open_inv)

lemma hs_do_inv:
  assumes "server_inv s" "only_chooses h" "hs_do h e s = Some s'"
  shows "server_inv s'"
proof (cases e)
  case (Complete i ec buf)
  let ?p = "s\<lparr>o_pending := []\<rparr>"
  consider (none) "\<not> i < length (o_pending s)"
    | (read) "i = 0" "o_pending s = [Read_request]" "o_wire s = []" "o_response s = new_response" "request_inv (o_request s)"
    | (written) "i = 0" "o_pending s = [Write_response]"
    using assms(1) by (cases i) (auto simp: server_inv_def)
  then show ?thesis
  proof cases
    case none
    then show ?thesis using assms Complete by simp
  next
    case read
    then show ?thesis using assms Complete read_handshake_inv [of ?p h ec buf s'] by (simp add: complete_def)
  next
    case written
    then show ?thesis using assms Complete write_done_inv [of h ec ?p s'] inv_popped [of s] by (simp add: complete_def)
  qed
next
  case (Con_event c)
  then show ?thesis using assms by (auto split: event.splits option.splits)
qed

lemma runs_inv: "server_inv s \<Longrightarrow> only_chooses h \<Longrightarrow> run_ops (hs_do h) es s = Some s' \<Longrightarrow> server_inv s'"
  by (induction es arbitrary: s) (auto split: option.splits dest: hs_do_inv)

lemma server_started: "hs_do h (Complete 0 ec buf) (start (new_handshake True rng agent u)) = Some s \<Longrightarrow> server_inv s"
proof -
  have "request_inv new_request"
    by (simp add: request_inv_def new_request_def wf_map_def max_header_size_def header_delimiter_def)
  moreover assume "hs_do h (Complete 0 ec buf) (start (new_handshake True rng agent u)) = Some s"
  ultimately show ?thesis
    by (auto simp: start_def o_internal_def new_handshake_simps new_connection_simps complete_def
      await_def set_internal_def on_con_def handle_transport_init_def read_handshake_def Let_def
      start_open_timer_def set_timer_def terminate_with_def server_inv_def honest_def new_response_def split: option.splits)
qed



lemma only_chooses_quiet: "only_chooses quiet_handlers"
  by (simp add: only_chooses_def quiet_handlers_def)


subsection \<open>A client goes on after an error\<close>

text \<open>
  C39. A client that reads a valid response with a malformed list of extensions shuts the connection down and
  goes on: the connection is open, the open handler is called and a frame is read, and when the shutdown is
  finished the fail handler is called, with the connection still open.
\<close>

theorem bad_extensions_opened:
  assumes "o_con s = timed False rng READ_HTTP_RESPONSE" "o_pending s = [Read_response]"
    and "response_consume buf (o_response s) = Inr (length buf, r)" "headers_ready r"
    and "validate_server_handshake_response (o_request s) r = None" "fst (negotiate_extensions r) \<noteq> None"
    and "h_open (oh_con h) = Some (\<lambda>c. c)" "h_fail (oh_con h) = Some (\<lambda>c. c)" "h_termination (oh_con h) = None"
  shows "\<exists>s' s''. hs_do h (Complete 0 None buf) s = Some s' \<and> m_session (o_con s') = Open \<and> t_reads (o_con s') = 1 \<and>
      t_shutdowns (o_con s') = [Tstat_failed] \<and> t_calls (o_con s') = [Called_open] \<and>
    hs_do h (Con_event (Shutdown_done None)) s' = Some s'' \<and> m_session (o_con s'') = Open \<and>
      t_calls (o_con s'') = [Called_open, Called_fail]"
proof -
  define c where "c = terminate (Some (Library W_extension_neg_failed)) ((timed False rng READ_HTTP_RESPONSE)\<lparr>t_timers := [], m_handshake_timer := None\<rparr>)"
  let ?o = "c\<lparr>m_internal_state := PROCESS_CONNECTION, m_session := Open, t_calls := [Called_open], t_reads := 1\<rparr>"
  have calls: "t_calls c = []" "t_reads c = 0" "m_read_flag c" "t_shutdowns c = [Tstat_failed]"
    "m_ec c = Some (Library W_extension_neg_failed)"
    by (simp_all add: c_def terminate_def timed_def new_connection_def async_shutdown_def)
  have op: "opened (oh_con h) [] c = Some ?o"
    using assms(7) by (simp add: opened_def call_def handle_read_frame_def read_loop.simps read_frame_def async_read_def calls)
  define t where "t = s\<lparr>o_pending := [], o_response := r\<rparr>"
  have t: "o_con t = timed False rng READ_HTTP_RESPONSE" "o_request t = o_request s" "o_response t = r"
    by (simp_all add: t_def assms(1))
  have "hs_do h (Complete 0 None buf) s = response_complete h [] t"
    using assms(2-4) by (simp add: t_def complete_def handle_read_http_response_def completed_def o_state_def o_internal_def
        assms(1) timed_simps Let_def)
  moreover have "stop_open_timer t = t\<lparr>o_con := (timed False rng READ_HTTP_RESPONSE)\<lparr>t_timers := [], m_handshake_timer := None\<rparr>\<rparr>"
    by (simp add: stop_open_timer_def on_con_def t timed_simps cancel_timer_def)
  then have "response_complete h [] t = Some (t\<lparr>o_con := ?o, o_leftover := []\<rparr>)"
    using assms(5,6) op by (simp add: response_complete_def t Let_def terminate_with_def on_con_def go_open_def c_def [symmetric])
  moreover have "\<exists>s''. hs_do h (Con_event (Shutdown_done None)) (t\<lparr>o_con := ?o, o_leftover := []\<rparr>) = Some s''
      \<and> m_session (o_con s'') = Open \<and> t_calls (o_con s'') = [Called_open, Called_fail]"
    using assms(8,9) by (simp add: calls handle_terminate_def call_def)
  ultimately show ?thesis using calls by auto
qed


definition open_and_fail :: opening_handlers where
  "open_and_fail = \<lparr>oh_validate = None, oh_http = None,
     oh_con = no_handlers\<lparr>h_open := Some (\<lambda>c. c), h_fail := Some (\<lambda>c. c)\<rparr>\<rparr>"

definition bad_response :: "str \<Rightarrow> http_response" where
  "bad_response key =
     new_response\<lparr>m_version := http_1_1, m_status_code := 101, m_status_msg := bytes_of ''Switching Protocols'',
       m_headers := [(h_connection, bytes_of ''Upgrade''), (h_accept, process_handshake_key key), (h_extensions, [61]),
         (h_upgrade, bytes_of ''websocket'')]\<rparr>"

lemma bad_writable: "writable_response (bad_response key)"
proof -
  let ?r = "bad_response key"
  have "trimmed (process_handshake_key key)" by (simp add: process_handshake_key_def base64_trimmed)
  moreover have "trimmed (bytes_of ''Upgrade'')" "trimmed (bytes_of ''websocket'')" "trimmed [61]"
    by (simp_all add: trimmed_def bytes_of_def is_not_whitespace_char_def)
  ultimately have h: "wf_map ci_less (m_headers ?r) \<and> list_all header_ok (m_headers ?r)"
    by (simp add: bad_response_def wf_map_def header_ok_def)
  have code: "print_int 101 = [49, 48, 49]" by (simp add: print_int_def print_nat.simps)
  have "lines_size (response_line ?r # map header_line (m_headers ?r)) + 3 \<le> 16000"
    using key_length [of key] by (simp add: bad_response_def response_line_def header_line_def http_1_1_def code)
  with h show ?thesis
    by (simp add: writable_response_def writable_headers_def bad_response_def get_header_def
        max_header_size_def http_1_1_def bytes_of_def new_response_def)
qed

lemma bad_accepted:
  assumes "m_headers r = m_headers (bad_response key)" "m_status_code r = 101" "get_header req h_key = key"
  shows "validate_server_handshake_response req r = None" "fst (negotiate_extensions r) \<noteq> None"
proof -
  show "validate_server_handshake_response req r = None"
    using assms by (simp add: validate_server_handshake_response_def get_header_def bad_response_def)
  have "extract_all_lws [61] = [61]" by (simp add: no_cr_lws is_not_whitespace_char_def)
  moreover have "read_parameter [61] = None"
    by (simp add: read_parameter_def extract_token_def is_not_token_char_def header_token_def)
  ultimately have "parse_parameter_list [61] [] = (True, [])"
    by (simp add: parse_parameter_list_def extract_parameters_def parameters_loop.simps [of "[61]"] Let_def)
  then show "fst (negotiate_extensions r) \<noteq> None"
    using assms(1) by (simp add: negotiate_extensions_def get_header_as_plist_def bad_response_def)
qed

theorem bad_extensions_opened_witness:
  "\<exists>s e s' s''. hs_do open_and_fail e s = Some s' \<and> m_session (o_con s') = Open \<and> t_shutdowns (o_con s') = [Tstat_failed] \<and>
     hs_do open_and_fail (Con_event (Shutdown_done None)) s' = Some s'' \<and> t_calls (o_con s'') = [Called_open, Called_fail]"
proof -
  let ?rng = "\<lambda>n::nat. [1, 2, 3, 4::byte]"
  let ?key = "base64_encode (raw_key ?rng)"
  let ?req = "client_request sample_uri ?key [] []"
  define s where "s = (client_asking ?rng [] sample_uri [])\<lparr>o_con := timed False ?rng READ_HTTP_RESPONSE, o_pending := [Read_response]\<rparr>"
  have s: "o_con s = timed False ?rng READ_HTTP_RESPONSE" "o_pending s = [Read_response]" "o_response s = new_response"
    "get_header (o_request s) h_key = ?key"
    by (simp_all add: s_def client_asking_def Let_def new_client_def new_handshake_simps client_request_def
        client_headers_def get_header_def)
  obtain r where r: "response_consume (response_raw (bad_response ?key)) new_response = Inr (length (response_raw (bad_response ?key)), r)"
    "headers_ready r" "m_status_code r = 101" "m_headers r = m_headers (bad_response ?key)"
    using response_round_trip [OF bad_writable [of ?key], of "[]"] by (auto simp: bad_response_def)
  have h: "h_open (oh_con open_and_fail) = Some (\<lambda>c. c)" "h_fail (oh_con open_and_fail) = Some (\<lambda>c. c)"
    "h_termination (oh_con open_and_fail) = None"
    by (simp_all add: open_and_fail_def no_handlers_def)
  show ?thesis
    using bad_extensions_opened [OF s(1,2) r(1) [folded s(3)] r(2) bad_accepted [OF r(4,3) s(4)] h] by blast
qed

end
