(* ===== verification/WsEndpoint.thy ===== *)
theory WsEndpoint
  imports WsTransport WsServing
begin

text \<open>
  The endpoint of a server: the acceptor of the transport (websocketpp/websocket/transport/asio/endpoint.hpp), the
  creation of connections (endpoint.hpp, impl/endpoint_impl.hpp) and the loop that accepts them
  (roles/server_endpoint.hpp). The acceptor of asio is not part of the sources: its calls answer as an argument says,
  an accept is outstanding until it completes, and the accepts of a closed acceptor complete with an abort.
  A connection is the handshake of \<open>WsOpening\<close> together with its transport; its handle is its number.
\<close>

subsection \<open>The transport of an endpoint\<close>

datatype endpoint_state = UNINITIALIZED | READY | LISTENING

record acceptor =
  acc_open :: bool
  acc_accepts :: "(nat \<times> bool) list"

record asio_endpoint =
  ae_service :: bool
  ae_external :: bool
  ae_acceptor :: "acceptor option"
  ae_backlog :: int
  ae_reuse_addr :: bool
  ae_state :: endpoint_state

text \<open>The constructor; the backlog is a constant of asio.\<close>

definition new_asio_endpoint :: "int \<Rightarrow> asio_endpoint" where
  "new_asio_endpoint max_connections =
     \<lparr>ae_service = False, ae_external = False, ae_acceptor = None, ae_backlog = max_connections,
      ae_reuse_addr = False, ae_state = UNINITIALIZED\<rparr>"

text \<open>With a service of the caller, and with one of its own, which is kept only on success.\<close>

definition init_external :: "'a asio_endpoint_scheme \<Rightarrow> error_code option \<times> 'a asio_endpoint_scheme" where
  "init_external e =
     (if ae_state e \<noteq> UNINITIALIZED then (Some (Library W_invalid_state), e)
      else (None, e\<lparr>ae_service := True, ae_external := True, ae_acceptor := Some \<lparr>acc_open = False, acc_accepts = []\<rparr>,
                    ae_state := READY\<rparr>))"

definition init_internal :: "'a asio_endpoint_scheme \<Rightarrow> error_code option \<times> 'a asio_endpoint_scheme" where
  "init_internal e = (let (ec, e) = init_external e in (ec, e\<lparr>ae_external := False\<rparr>))"

text \<open>Whether the destructor deletes the service.\<close>

definition deletes_service :: "'a asio_endpoint_scheme \<Rightarrow> bool" where
  "deletes_service e \<longleftrightarrow> ae_state e \<noteq> UNINITIALIZED \<and> \<not> ae_external e"

text \<open>Closing the acceptor aborts what waits on it.\<close>

definition close_acceptor :: "'a asio_endpoint_scheme \<Rightarrow> 'a asio_endpoint_scheme" where
  "close_acceptor e =
     e\<lparr>ae_acceptor := map_option (\<lambda>a. a\<lparr>acc_open := False, acc_accepts := map (\<lambda>(i, c). (i, True)) (acc_accepts a)\<rparr>)
                        (ae_acceptor e)\<rparr>"

definition clean_up_listen_after_error :: "error_code \<Rightarrow> 'a asio_endpoint_scheme \<Rightarrow> error_code \<times> 'a asio_endpoint_scheme" where
  "clean_up_listen_after_error ec e =
     (ec, case ae_acceptor e of None \<Rightarrow> e | Some a \<Rightarrow> if acc_open a then close_acceptor e else e)"

datatype listen_call = Call_open | Call_set_option | Call_bind | Call_listen

text \<open>\<open>pre_bind\<close> is what the handler of that name returns, when it is set.\<close>

definition asio_listen ::
  "(listen_call \<Rightarrow> system_error option) \<Rightarrow> error_code option option \<Rightarrow> 'a asio_endpoint_scheme \<Rightarrow>
   error_code option \<times> 'a asio_endpoint_scheme" where
  "asio_listen ans pre_bind e =
     (let fail = (\<lambda>ec e. let (ec, e) = clean_up_listen_after_error ec e in (Some ec, e))
      in if ae_state e \<noteq> READY then (Some (Library W_invalid_state), e)
         else (case ans Call_open of
                 Some ec \<Rightarrow> fail (translate_ec ec) e
               | None \<Rightarrow>
                   (let e = e\<lparr>ae_acceptor := map_option (acc_open_update (\<lambda>b. True)) (ae_acceptor e)\<rparr>
                    in case ans Call_set_option of
                         Some ec \<Rightarrow> fail (translate_ec ec) e
                       | None \<Rightarrow>
                           (case pre_bind of
                              Some (Some ec) \<Rightarrow> fail ec e
                            | _ \<Rightarrow>
                                (case ans Call_bind of
                                   Some ec \<Rightarrow> fail (translate_ec ec) e
                                 | None \<Rightarrow>
                                     (case ans Call_listen of
                                        Some ec \<Rightarrow> fail (translate_ec ec) e
                                      | None \<Rightarrow> (None, e\<lparr>ae_state := LISTENING\<rparr>)))))))"

definition stop_listening :: "'a asio_endpoint_scheme \<Rightarrow> error_code option \<times> 'a asio_endpoint_scheme" where
  "stop_listening e =
     (if ae_state e \<noteq> LISTENING then (Some (Library W_invalid_state), e)
      else (None, (close_acceptor e)\<lparr>ae_state := READY\<rparr>))"

definition is_listening :: "'a asio_endpoint_scheme \<Rightarrow> bool" where
  "is_listening e \<longleftrightarrow> ae_state e = LISTENING"

definition async_accept :: "nat \<Rightarrow> 'a asio_endpoint_scheme \<Rightarrow> error_code option \<times> 'a asio_endpoint_scheme" where
  "async_accept con e =
     (case ae_acceptor e of
        None \<Rightarrow> (Some (Library W_async_accept_not_listening), e)
      | Some a \<Rightarrow>
          if ae_state e \<noteq> LISTENING then (Some (Library W_async_accept_not_listening), e)
          else (None, e\<lparr>ae_acceptor := Some (a\<lparr>acc_accepts := acc_accepts a @ [(con, False)]\<rparr>)\<rparr>))"

text \<open>\<open>handle_accept\<close> of the transport: the error that its callback gets.\<close>

definition accept_error :: "system_error option \<Rightarrow> error_code option" where
  "accept_error asio_ec =
     (case asio_ec of None \<Rightarrow> None
      | Some e \<Rightarrow> Some (if e = Sys_aborted then Library W_operation_canceled else translate_ec e))"

subsection \<open>The endpoint\<close>

text \<open>\<open>m_log\<close> is a history: the connections that were started or terminated, with the error.\<close>

record member =
  c_handlers :: opening_handlers
  c_hs :: handshake
  c_tcon :: asio_con

record endpoint = asio_endpoint +
  e_is_server :: bool
  e_user_agent :: str
  e_handlers :: opening_handlers
  e_open_timeout :: nat
  e_close_timeout :: nat
  e_pong_timeout :: nat
  e_max_message_size :: nat
  e_max_http_body_size :: nat
  e_rng :: "nat \<Rightarrow> nat \<Rightarrow> byte list"
  e_cons :: "member option list"
  m_log :: "(nat \<times> error_code option) list"

definition user_agent :: str where "user_agent = bytes_of ''WebSocket++/0.8.2''"

definition nothing_set :: opening_handlers where
  "nothing_set = \<lparr>oh_validate = None, oh_http = None, oh_con = no_handlers\<rparr>"

definition new_endpoint :: "bool \<Rightarrow> int \<Rightarrow> (nat \<Rightarrow> nat \<Rightarrow> byte list) \<Rightarrow> endpoint" where
  "new_endpoint is_server max_connections rng =
     asio_endpoint.extend (new_asio_endpoint max_connections)
       (endpoint.fields is_server user_agent nothing_set 5000 5000 5000 max_message_size max_body_size rng [] [])"

text \<open>A connection before its start; its URI is not set yet.\<close>

definition no_uri :: uri where
  "no_uri = \<lparr>m_scheme = [], m_host = [], m_resource = [], m_port = 0, m_secure = False, m_valid = False\<rparr>"

definition configured :: "endpoint \<Rightarrow> handshake" where
  "configured e =
     (let s = new_handshake (e_is_server e) (e_rng e (length (e_cons e))) (e_user_agent e) no_uri;
          c = (o_con s)\<lparr>m_close_handshake_timeout_dur := e_close_timeout e, m_pong_timeout_dur := e_pong_timeout e\<rparr>;
          c = c\<lparr>m_processor := (m_processor c)\<lparr>m_max_message_size := e_max_message_size e\<rparr>\<rparr>
      in s\<lparr>o_con := c, o_timeout_dur := e_open_timeout e,
           o_request := (o_request s)\<lparr>m_body_bytes_max := e_max_http_body_size e\<rparr>\<rparr>)"

definition create_connection :: "endpoint \<Rightarrow> nat option \<times> endpoint" where
  "create_connection e =
     (case init_asio new_asio_con of
        (Some ec, tcon) \<Rightarrow> (None, e)
      | (None, tcon) \<Rightarrow>
          (Some (length (e_cons e)),
           e\<lparr>e_cons := e_cons e @ [Some \<lparr>c_handlers = e_handlers e, c_hs = configured e, c_tcon = tcon\<rparr>]\<rparr>))"

definition change_con :: "(handshake \<Rightarrow> handshake) \<Rightarrow> nat \<Rightarrow> endpoint \<Rightarrow> endpoint" where
  "change_con f i e = e\<lparr>e_cons := (e_cons e)[i := map_option (\<lambda>m. m\<lparr>c_hs := f (c_hs m)\<rparr>) (e_cons e ! i)]\<rparr>"

definition terminate_con :: "nat \<Rightarrow> error_code option \<Rightarrow> endpoint \<Rightarrow> endpoint" where
  "terminate_con i ec e = (change_con (terminate_with ec) i e)\<lparr>m_log := m_log e @ [(i, ec)]\<rparr>"

definition start_con :: "nat \<Rightarrow> endpoint \<Rightarrow> endpoint" where
  "start_con i e = (change_con start i e)\<lparr>m_log := m_log e @ [(i, None)]\<rparr>"

subsection \<open>The server\<close>

definition start_accept :: "endpoint \<Rightarrow> error_code option \<times> endpoint" where
  "start_accept e =
     (if \<not> is_listening e then (Some (Library W_async_accept_not_listening), e)
      else (case create_connection e of
              (None, e) \<Rightarrow> (Some (Library W_con_creation_failed), e)
            | (Some con, e) \<Rightarrow>
                (case async_accept con e of
                   (None, e) \<Rightarrow> (None, e)
                 | (Some ec, e) \<Rightarrow> (Some ec, terminate_con con None e))))"

definition handle_accept :: "nat \<Rightarrow> error_code option \<Rightarrow> endpoint \<Rightarrow> endpoint" where
  "handle_accept con ec e =
     snd (start_accept (case ec of Some c \<Rightarrow> terminate_con con (Some c) e | None \<Rightarrow> start_con con e))"


subsection \<open>Operations by handle\<close>

text \<open>
  A handle is a weak pointer: it finds nothing when the connection is gone. The error code that a caller passes is
  not cleared, so that one that is set already makes every operation return at once.
\<close>

definition get_con_from_hdl :: "nat \<Rightarrow> endpoint \<Rightarrow> member option" where
  "get_con_from_hdl hdl e = (if hdl < length (e_cons e) then e_cons e ! hdl else None)"

definition with_con ::
  "(handlers \<Rightarrow> connection \<Rightarrow> error_code option \<times> connection) \<Rightarrow> nat \<Rightarrow> error_code option \<Rightarrow> endpoint \<Rightarrow>
   error_code option \<times> endpoint" where
  "with_con f hdl ec e =
     (case get_con_from_hdl hdl e of
        None \<Rightarrow> (Some (Library W_bad_connection), e)
      | Some m \<Rightarrow>
          if ec \<noteq> None then (ec, e)
          else (let (ec, c) = f (oh_con (c_handlers m)) (o_con (c_hs m))
                in (ec, e\<lparr>e_cons := (e_cons e)[hdl := Some (m\<lparr>c_hs := (c_hs m)\<lparr>o_con := c\<rparr>\<rparr>)]\<rparr>)))"

definition hdl_interrupt :: "nat \<Rightarrow> error_code option \<Rightarrow> endpoint \<Rightarrow> error_code option \<times> endpoint" where
  "hdl_interrupt = with_con (\<lambda>h c. (None, interrupt c))"

definition hdl_pause_reading :: "nat \<Rightarrow> error_code option \<Rightarrow> endpoint \<Rightarrow> error_code option \<times> endpoint" where
  "hdl_pause_reading = with_con (\<lambda>h c. (None, pause_reading c))"

definition hdl_resume_reading :: "nat \<Rightarrow> error_code option \<Rightarrow> endpoint \<Rightarrow> error_code option \<times> endpoint" where
  "hdl_resume_reading = with_con (\<lambda>h c. (None, resume_reading c))"

definition hdl_send_text :: "byte list \<Rightarrow> opcode \<Rightarrow> nat \<Rightarrow> error_code option \<Rightarrow> endpoint \<Rightarrow> error_code option \<times> endpoint" where
  "hdl_send_text payload op = with_con (\<lambda>h c. send_text payload op c)"

definition hdl_send_bytes :: "byte list \<Rightarrow> opcode \<Rightarrow> nat \<Rightarrow> error_code option \<Rightarrow> endpoint \<Rightarrow> error_code option \<times> endpoint" where
  "hdl_send_bytes payload op = with_con (\<lambda>h c. send_bytes payload op c)"

definition hdl_send :: "message \<Rightarrow> nat \<Rightarrow> error_code option \<Rightarrow> endpoint \<Rightarrow> error_code option \<times> endpoint" where
  "hdl_send msg = with_con (\<lambda>h c. send msg c)"

definition hdl_close :: "close_code \<Rightarrow> byte list \<Rightarrow> nat \<Rightarrow> error_code option \<Rightarrow> endpoint \<Rightarrow> error_code option \<times> endpoint" where
  "hdl_close code reason = with_con (\<lambda>h c. close_con code reason c)"

definition hdl_ping :: "byte list \<Rightarrow> nat \<Rightarrow> error_code option \<Rightarrow> endpoint \<Rightarrow> error_code option \<times> endpoint" where
  "hdl_ping payload = with_con (\<lambda>h c. ping h payload c)"

definition hdl_pong :: "byte list \<Rightarrow> nat \<Rightarrow> error_code option \<Rightarrow> endpoint \<Rightarrow> error_code option \<times> endpoint" where
  "hdl_pong payload = with_con (\<lambda>h c. pong payload c)"

definition hdl_send_http_response :: "nat \<Rightarrow> error_code option \<Rightarrow> endpoint \<Rightarrow> error_code option \<times> endpoint" where
  "hdl_send_http_response hdl ec e =
     (case get_con_from_hdl hdl e of
        None \<Rightarrow> (Some (Library W_bad_connection), e)
      | Some m \<Rightarrow>
          if ec \<noteq> None then (ec, e)
          else (let (ec, s) = send_http_response (c_hs m)
                in (ec, e\<lparr>e_cons := (e_cons e)[hdl := Some (m\<lparr>c_hs := s\<rparr>)]\<rparr>)))"

lemma stale_error: "get_con_from_hdl hdl e = Some m \<Longrightarrow> with_con f hdl (Some ec) e = (Some ec, e)"
  by (simp add: with_con_def)

subsection \<open>Runs\<close>

text \<open>
  What the user of the endpoint calls, the end of an outstanding accept, an event of a connection, and the release of
  a connection that nothing refers to. An event that cannot happen changes nothing; undefined behaviour of a
  connection leaves the run.
\<close>

datatype endpoint_event =
    Ev_init_external | Ev_init_internal | Ev_listen "listen_call \<Rightarrow> system_error option" "error_code option option"
  | Ev_stop | Ev_start_accept | Ev_accept_done nat "system_error option" | Ev_con nat hs_event
  | Ev_release nat | Ev_handlers opening_handlers

definition pending_accepts :: "'a asio_endpoint_scheme \<Rightarrow> (nat \<times> bool) list" where
  "pending_accepts e = (case ae_acceptor e of None \<Rightarrow> [] | Some a \<Rightarrow> acc_accepts a)"

definition drop_accept :: "nat \<Rightarrow> 'a asio_endpoint_scheme \<Rightarrow> 'a asio_endpoint_scheme" where
  "drop_accept j e = e\<lparr>ae_acceptor := map_option (acc_accepts_update (drop_nth j)) (ae_acceptor e)\<rparr>"

definition accept_done :: "nat \<Rightarrow> system_error option \<Rightarrow> endpoint \<Rightarrow> endpoint" where
  "accept_done j ec e =
     (if j < length (pending_accepts e)
      then (let (con, cancelled) = pending_accepts e ! j
            in handle_accept con (accept_error (if cancelled then Some Sys_aborted else ec)) (drop_accept j e))
      else e)"

primrec ep_do :: "endpoint_event \<Rightarrow> endpoint \<Rightarrow> endpoint option" where
  "ep_do Ev_init_external e = Some (snd (init_external e))"
| "ep_do Ev_init_internal e = Some (snd (init_internal e))"
| "ep_do (Ev_listen ans pre) e = Some (snd (asio_listen ans pre e))"
| "ep_do Ev_stop e = Some (snd (stop_listening e))"
| "ep_do Ev_start_accept e = Some (snd (start_accept e))"
| "ep_do (Ev_accept_done j ec) e = Some (accept_done j ec e)"
| "ep_do (Ev_con i ev) e =
     (case get_con_from_hdl i e of
        None \<Rightarrow> Some e
      | Some m \<Rightarrow>
          (case hs_do (c_handlers m) ev (c_hs m) of
             None \<Rightarrow> None
           | Some s \<Rightarrow> Some (e\<lparr>e_cons := (e_cons e)[i := Some (m\<lparr>c_hs := s\<rparr>)]\<rparr>)))"
| "ep_do (Ev_release i) e =
     Some (if i \<in> set (map fst (pending_accepts e)) then e else e\<lparr>e_cons := (e_cons e)[i := None]\<rparr>)"
| "ep_do (Ev_handlers h) e = Some (e\<lparr>e_handlers := h\<rparr>)"


subsection \<open>Every connection is accounted for\<close>

definition acceptor_ok :: "'a asio_endpoint_scheme \<Rightarrow> bool" where
  "acceptor_ok e \<longleftrightarrow> (ae_acceptor e = None) = (ae_state e = UNINITIALIZED) \<and>
     (is_listening e \<longrightarrow> (\<exists>a. ae_acceptor e = Some a \<and> acc_open a)) \<and> (\<not> is_listening e \<longrightarrow> list_all snd (pending_accepts e))"

definition accounted :: "endpoint \<Rightarrow> bool" where
  "accounted e \<longleftrightarrow> distinct (map fst (pending_accepts e) @ map fst (m_log e)) \<and>
     set (map fst (pending_accepts e) @ map fst (m_log e)) = {..<length (e_cons e)}"

definition ep_inv :: "nat \<Rightarrow> endpoint \<Rightarrow> bool" where
  "ep_inv n e \<longleftrightarrow> acceptor_ok e \<and> accounted e \<and> length (pending_accepts e) \<le> n"

lemma ep_inv_cong:
  "ae_acceptor a = ae_acceptor b \<Longrightarrow> ae_state a = ae_state b \<Longrightarrow> m_log a = m_log b \<Longrightarrow> length (e_cons a) = length (e_cons b) \<Longrightarrow>
   ep_inv n a = ep_inv n b"
  by (simp add: ep_inv_def acceptor_ok_def accounted_def is_listening_def pending_accepts_def)

definition fresh_member :: "endpoint \<Rightarrow> member" where
  "fresh_member e = \<lparr>c_handlers = e_handlers e, c_hs = configured e, c_tcon = new_asio_con\<lparr>ac_socket := Sock_ready\<rparr>\<rparr>"

lemma start_accept_listening:
  assumes "is_listening e" "ae_acceptor e = Some a"
  shows "start_accept e = (None, e\<lparr>e_cons := e_cons e @ [Some (fresh_member e)],
    ae_acceptor := Some (a\<lparr>acc_accepts := acc_accepts a @ [(length (e_cons e), False)]\<rparr>)\<rparr>)"
proof -
  have "init_asio new_asio_con = (None, new_asio_con\<lparr>ac_socket := Sock_ready\<rparr>)"
    by (simp add: init_asio_def init_socket_def new_asio_con_def)
  with assms show ?thesis
    by (simp add: start_accept_def create_connection_def async_accept_def is_listening_def fresh_member_def)
qed

lemma start_accept_idle: "\<not> is_listening e \<Longrightarrow> snd (start_accept e) = e"
  by (simp add: start_accept_def)

lemma start_accept_inv:
  assumes "ep_inv n e"
  shows "ep_inv (Suc n) (snd (start_accept e))"
proof (cases "is_listening e")
  case True
  then obtain a where a: "ae_acceptor e = Some a" "acc_open a" using assms by (auto simp: ep_inv_def acceptor_ok_def)
  then have "pending_accepts e = acc_accepts a" by (simp add: pending_accepts_def)
  then show ?thesis
    using assms a True
    by (auto simp: start_accept_listening [OF True a(1)] ep_inv_def acceptor_ok_def accounted_def is_listening_def pending_accepts_def)
qed (use assms start_accept_idle in \<open>simp add: ep_inv_def\<close>)

text \<open>An accept that ends takes its connection to the log; the loop goes on when the endpoint listens.\<close>

lemma logged_inv:
  assumes "ep_inv (Suc n) e" "j < length (pending_accepts e)" "pending_accepts e ! j = (con, cancelled)"
    and "ae_acceptor b = ae_acceptor (drop_accept j e)" "ae_state b = ae_state e" "m_log b = m_log e @ [(con, ec)]"
      "length (e_cons b) = length (e_cons e)"
  shows "ep_inv n b"
proof -
  obtain a where a: "ae_acceptor e = Some a" using assms(2) by (cases "ae_acceptor e") (auto simp: pending_accepts_def)
  have acc: "pending_accepts b = drop_nth j (pending_accepts e)" using a assms(4) by (simp add: pending_accepts_def drop_accept_def)
  have split: "pending_accepts e = take j (pending_accepts e) @ (con, cancelled) # drop (Suc j) (pending_accepts e)"
    using drop_nth_split [OF assms(2)] assms(3) by simp
  let ?xs = "take j (pending_accepts e)" and ?ys = "drop (Suc j) (pending_accepts e)"
  have e: "map fst (pending_accepts e) = map fst ?xs @ con # map fst ?ys" by (subst split) simp
  have "map fst (pending_accepts b) = map fst ?xs @ map fst ?ys" by (simp add: acc drop_nth_def)
  then have "distinct (map fst (pending_accepts b) @ map fst (m_log b)) = distinct (map fst (pending_accepts e) @ map fst (m_log e))"
    "set (map fst (pending_accepts b) @ map fst (m_log b)) = set (map fst (pending_accepts e) @ map fst (m_log e))"
    unfolding assms(6) e by auto
  then have "accounted b" using assms(1,7) by (simp add: ep_inv_def accounted_def)
  moreover have "acceptor_ok b"
    using assms(1,4,5) a set_drop_nth [of j "pending_accepts e"]
    by (auto simp: ep_inv_def acceptor_ok_def is_listening_def drop_accept_def acc list_all_iff)
  moreover have "length (pending_accepts b) \<le> n"
    using assms(1,2) by (auto simp: acc ep_inv_def drop_nth_def)
  ultimately show ?thesis by (simp add: ep_inv_def)
qed

lemma accept_done_inv:
  assumes "ep_inv n e"
  shows "ep_inv n (accept_done j ec e)"
proof (cases "j < length (pending_accepts e)")
  case True
  obtain con cancelled where c: "pending_accepts e ! j = (con, cancelled)" by (cases "pending_accepts e ! j")
  obtain m where m: "n = Suc m" using assms True by (cases n) (auto simp: ep_inv_def)
  have "ep_inv m (terminate_con con (Some x) (drop_accept j e))" "ep_inv m (start_con con (drop_accept j e))" for x
    using logged_inv [of m e j con cancelled] assms True c
    by (simp_all add: m terminate_con_def start_con_def change_con_def drop_accept_def)
  then show ?thesis
    using True by (simp add: accept_done_def c handle_accept_def m start_accept_inv split: option.split)
qed (use assms in \<open>simp add: accept_done_def\<close>)

lemma closed_same: "list_all snd xs \<Longrightarrow> map (\<lambda>(i, c). (i, True)) xs = xs"
  by (induction xs) auto

text \<open>What \<open>listen\<close> leaves: an open acceptor that listens, or, after an error, a closed one.\<close>

lemma listen_shape:
  assumes "ae_state e = READY" "ae_acceptor e = Some a" "list_all snd (acc_accepts a)"
  shows "\<exists>b. ae_acceptor (snd (asio_listen ans pre e)) = Some (a\<lparr>acc_open := b\<rparr>) \<and> m_log (snd (asio_listen ans pre e)) = m_log e
    \<and> e_cons (snd (asio_listen ans pre e)) = e_cons e
    \<and> (ae_state (snd (asio_listen ans pre e)) = LISTENING \<and> b \<and> fst (asio_listen ans pre e) = None
       \<or> ae_state (snd (asio_listen ans pre e)) = READY \<and> \<not> b \<and> fst (asio_listen ans pre e) \<noteq> None)"
proof -
  note defs = asio_listen_def Let_def clean_up_listen_after_error_def close_acceptor_def closed_same [OF assms(3)] assms(1,2)
  have fix_open: "a = a\<lparr>acc_open := False\<rparr>" if "\<not> acc_open a" using that by simp
  show ?thesis
  proof (cases "ans Call_open")
    case (Some x)
    then show ?thesis
      using fix_open by (intro exI [of _ False]) (cases "acc_open a"; auto simp: defs)
  next
    case None
    note n1 = this
    show ?thesis
    proof (cases "ans Call_set_option \<noteq> None \<or> (\<exists>x. pre = Some (Some x))")
      case True
      then show ?thesis using n1 by (cases "ans Call_set_option") (auto simp: defs)
    next
      case False
      then have "pre = None \<or> pre = Some None" by (cases pre) auto
      then show ?thesis using n1 False by (cases "ans Call_bind"; cases "ans Call_listen") (auto simp: defs)
    qed
  qed
qed

lemma listen_inv:
  assumes "ep_inv n e"
  shows "ep_inv n (snd (asio_listen ans pre e))"
proof (cases "ae_state e = READY")
  case True
  then obtain a where a: "ae_acceptor e = Some a" "list_all snd (acc_accepts a)"
    using assms by (cases "ae_acceptor e") (auto simp: ep_inv_def acceptor_ok_def is_listening_def pending_accepts_def)
  let ?r = "snd (asio_listen ans pre e)"
  obtain b where b: "ae_acceptor ?r = Some (a\<lparr>acc_open := b\<rparr>)" "m_log ?r = m_log e" "e_cons ?r = e_cons e"
    "ae_state ?r = LISTENING \<and> b \<or> ae_state ?r = READY"
    using listen_shape [OF True a, of ans pre] by blast
  have p: "pending_accepts ?r = pending_accepts e" by (simp add: pending_accepts_def a(1) b(1))
  then have "accounted ?r = accounted e" by (simp add: accounted_def b)
  moreover have "acceptor_ok ?r" using b(4) a by (auto simp: acceptor_ok_def is_listening_def b(1) p) (simp add: pending_accepts_def)
  ultimately show ?thesis using assms p by (simp add: ep_inv_def)
qed (use assms in \<open>simp add: asio_listen_def\<close>)


lemma init_inv:
  assumes "ep_inv n e"
  shows "ep_inv n (snd (init_external e))" "ep_inv n (snd (init_internal e))"
proof -
  show x: "ep_inv n (snd (init_external e))"
    using assms by (auto simp: init_external_def ep_inv_def acceptor_ok_def accounted_def pending_accepts_def is_listening_def)
  then show "ep_inv n (snd (init_internal e))"
    by (simp add: init_internal_def case_prod_unfold Let_def ep_inv_cong [of "x\<lparr>ae_external := False\<rparr>" x for x :: endpoint])
qed

lemma stop_inv:
  assumes "ep_inv n e"
  shows "ep_inv n (snd (stop_listening e))"
proof (cases "ae_state e = LISTENING")
  case True
  then obtain a where a: "ae_acceptor e = Some a" using assms by (auto simp: ep_inv_def acceptor_ok_def is_listening_def)
  define xs where "xs = map (\<lambda>(i, c). (i, True)) (acc_accepts a)"
  have xs: "map fst xs = map fst (acc_accepts a)" "list_all snd xs" "length xs = length (acc_accepts a)"
    by (auto simp: list_all_iff xs_def)
  have "snd (stop_listening e) = (e\<lparr>ae_acceptor := Some (a\<lparr>acc_open := False, acc_accepts := xs\<rparr>)\<rparr>)\<lparr>ae_state := READY\<rparr>"
    using True a by (simp add: stop_listening_def close_acceptor_def xs_def)
  then show ?thesis
    using assms a True xs
    by (simp add: ep_inv_def acceptor_ok_def accounted_def pending_accepts_def is_listening_def del: map_map list.set_map)
qed (use assms in \<open>simp add: stop_listening_def\<close>)

definition is_start_accept :: "endpoint_event \<Rightarrow> bool" where
  "is_start_accept ev \<longleftrightarrow> (case ev of Ev_start_accept \<Rightarrow> True | _ \<Rightarrow> False)"

definition is_stop :: "endpoint_event \<Rightarrow> bool" where
  "is_stop ev \<longleftrightarrow> (case ev of Ev_stop \<Rightarrow> True | _ \<Rightarrow> False)"

lemma ep_do_inv:
  assumes "ep_inv n e" "ep_do ev e = Some e'"
  shows "ep_inv (n + (if is_start_accept ev then 1 else 0)) e'"
proof (cases ev)
  case (Ev_con i x)
  then show ?thesis
    using assms by (auto simp: is_start_accept_def ep_inv_cong [of "e\<lparr>e_cons := xs\<rparr>" e for xs] split: option.splits)
next
  case (Ev_release i)
  then show ?thesis
    using assms by (auto simp: is_start_accept_def ep_inv_cong [of "e\<lparr>e_cons := xs\<rparr>" e for xs])
next
  case (Ev_handlers h)
  then show ?thesis
    using assms by (auto simp: is_start_accept_def ep_inv_cong [of "e\<lparr>e_handlers := h\<rparr>" e])
qed (use assms in \<open>auto simp: is_start_accept_def init_inv listen_inv stop_inv accept_done_inv start_accept_inv\<close>)

lemma ep_runs:
  "ep_inv n e \<Longrightarrow> run_ops ep_do es e = Some e' \<Longrightarrow> ep_inv (n + length (filter is_start_accept es)) e'"
proof (induction es arbitrary: n e)
  case (Cons ev es)
  then obtain d where d: "ep_do ev e = Some d" "run_ops ep_do es d = Some e'" by (auto split: option.splits)
  show ?case using Cons.IH [OF ep_do_inv [OF Cons.prems(1) d(1)] d(2)] by (auto simp: ac_simps split: if_splits)
qed simp

lemma new_endpoint_simps:
  "ae_acceptor (new_endpoint is_server mc rng) = None" "ae_state (new_endpoint is_server mc rng) = UNINITIALIZED"
  "m_log (new_endpoint is_server mc rng) = []" "e_cons (new_endpoint is_server mc rng) = []"
  by (simp_all add: new_endpoint_def new_asio_endpoint_def asio_endpoint.defs endpoint.defs)

lemma new_inv: "ep_inv 0 (new_endpoint is_server mc rng)"
  by (simp add: ep_inv_def acceptor_ok_def accounted_def pending_accepts_def is_listening_def new_endpoint_simps)

text \<open>
  C23. Whatever calls are made on an endpoint, however its accepts end and whatever its connections do: every
  connection it made waits in exactly one outstanding accept, or was started or terminated exactly once by the accept
  loop; an endpoint that does not listen has no accept left that could take a client; and there are never more
  outstanding accepts than calls of \<open>start_accept\<close>.
\<close>

theorem connections_accounted:
  assumes "run_ops ep_do es (new_endpoint is_server mc rng) = Some e"
  shows "distinct (map fst (pending_accepts e) @ map fst (m_log e)) \<and>
    set (map fst (pending_accepts e) @ map fst (m_log e)) = {..<length (e_cons e)} \<and>
    (\<not> is_listening e \<longrightarrow> list_all snd (pending_accepts e)) \<and>
    length (pending_accepts e) \<le> length (filter is_start_accept es)"
  using ep_runs [OF new_inv assms] by (simp add: ep_inv_def accounted_def acceptor_ok_def)

subsection \<open>The loop does not end by itself\<close>

lemma keeps_accepting:
  assumes "ep_inv n e" "is_listening e" "list_all (\<lambda>p. \<not> snd p) (pending_accepts e)" "\<not> is_stop ev" "\<not> is_start_accept ev"
    "ep_do ev e = Some e'"
  shows "is_listening e' \<and> list_all (\<lambda>p. \<not> snd p) (pending_accepts e') \<and> length (pending_accepts e') = length (pending_accepts e)"
proof (cases ev)
  case (Ev_accept_done j ec)
  show ?thesis
  proof (cases "j < length (pending_accepts e)")
    case True
    obtain con cancelled where c: "pending_accepts e ! j = (con, cancelled)" by (cases "pending_accepts e ! j")
    obtain a where a: "ae_acceptor e = Some a" using assms(1,2) by (auto simp: ep_inv_def acceptor_ok_def)
    have acc: "pending_accepts e = acc_accepts a" by (simp add: pending_accepts_def a)
    have go: "is_listening (snd (start_accept d)) \<and> list_all (\<lambda>p. \<not> snd p) (pending_accepts (snd (start_accept d))) \<and>
        length (pending_accepts (snd (start_accept d))) = length (acc_accepts a)"
      if "ae_acceptor d = ae_acceptor (drop_accept j e)" "ae_state d = ae_state e" for d
    proof -
      have l: "is_listening d" using assms(2) that(2) by (simp add: is_listening_def)
      have "ae_acceptor d = Some (a\<lparr>acc_accepts := drop_nth j (acc_accepts a)\<rparr>)"
        using that(1) a by (simp add: drop_accept_def)
      moreover have "list_all (\<lambda>p. \<not> snd p) (drop_nth j (acc_accepts a))"
        using assms(3) set_drop_nth [of j "acc_accepts a"] by (auto simp: acc list_all_iff)
      moreover have "Suc (length (drop_nth j (acc_accepts a))) = length (acc_accepts a)"
        using True by (simp add: acc drop_nth_def)
      ultimately show ?thesis
        using l by (simp add: start_accept_listening is_listening_def pending_accepts_def)
    qed
    define x where "x = accept_error (if cancelled then Some Sys_aborted else ec)"
    define d where "d = (case x of Some y \<Rightarrow> terminate_con con (Some y) (drop_accept j e) | None \<Rightarrow> start_con con (drop_accept j e))"
    have "e' = snd (start_accept d)"
      using assms(6) True by (simp add: Ev_accept_done accept_done_def c handle_accept_def x_def d_def)
    moreover have "ae_acceptor d = ae_acceptor (drop_accept j e)" "ae_state d = ae_state e"
      by (cases x; simp add: d_def terminate_con_def start_con_def change_con_def drop_accept_def)+
    ultimately show ?thesis using go [of d] by (simp add: acc)
  qed (use assms Ev_accept_done in \<open>simp add: accept_done_def\<close>)
qed (use assms in \<open>auto simp: is_listening_def pending_accepts_def init_external_def init_internal_def asio_listen_def
    is_stop_def is_start_accept_def Let_def split: option.splits if_splits\<close>)

lemma keeps_accepting_run:
  "ep_inv n e \<Longrightarrow> is_listening e \<Longrightarrow> list_all (\<lambda>p. \<not> snd p) (pending_accepts e) \<Longrightarrow>
   list_all (\<lambda>ev. \<not> is_stop ev \<and> \<not> is_start_accept ev) es \<Longrightarrow> run_ops ep_do es e = Some e' \<Longrightarrow>
   is_listening e' \<and> list_all (\<lambda>p. \<not> snd p) (pending_accepts e') \<and> length (pending_accepts e') = length (pending_accepts e)"
proof (induction es arbitrary: e)
  case (Cons ev es)
  then obtain d where d: "ep_do ev e = Some d" "run_ops ep_do es d = Some e'" by (auto split: option.splits)
  have ok: "\<not> is_stop ev" "\<not> is_start_accept ev" "list_all (\<lambda>ev. \<not> is_stop ev \<and> \<not> is_start_accept ev) es"
    using Cons.prems(4) by simp_all
  have "ep_inv n d" using ep_do_inv [OF Cons.prems(1) d(1)] ok(2) by simp
  with keeps_accepting [OF Cons.prems(1-3) ok(1,2) d(1)] Cons.IH [of d] ok(3) d(2) show ?case by simp
qed simp


subsection \<open>Witness, and what goes wrong\<close>

definition all_succeed :: "listen_call \<Rightarrow> system_error option" where
  "all_succeed c = None"

lemma listen_succeeds:
  "ae_state e = READY \<Longrightarrow> ae_acceptor e = Some a \<Longrightarrow>
   asio_listen all_succeed None e = (None, e\<lparr>ae_acceptor := Some (a\<lparr>acc_open := True\<rparr>), ae_state := LISTENING\<rparr>)"
  by (simp add: asio_listen_def Let_def all_succeed_def)

lemma log_simps:
  "m_log (terminate_con i ec e) = m_log e @ [(i, ec)]" "m_log (start_con i e) = m_log e @ [(i, None)]"
  "length (e_cons (terminate_con i ec e)) = length (e_cons e)" "length (e_cons (start_con i e)) = length (e_cons e)"
  "ae_acceptor (terminate_con i ec e) = ae_acceptor e" "ae_acceptor (start_con i e) = ae_acceptor e"
  "ae_state (terminate_con i ec e) = ae_state e" "ae_state (start_con i e) = ae_state e"
  by (simp_all add: terminate_con_def start_con_def change_con_def)

text \<open>An accept that fails, and a second one that is aborted when the endpoint stops listening.\<close>

theorem connections_accounted_witness:
  "\<exists>e. run_ops ep_do [Ev_init_internal, Ev_listen all_succeed None, Ev_start_accept, Ev_accept_done 0 (Some (Sys_other 24)),
       Ev_stop, Ev_accept_done 0 None] (new_endpoint True 128 (\<lambda>i n. [0, 0, 0, 0])) = Some e \<and>
     m_log e = [(0, Some (Transport T_pass_through)), (1, Some (Library W_operation_canceled))] \<and>
     pending_accepts e = [] \<and> {0, 1} = {..<length (e_cons e)}"
proof -
  let ?es = "[Ev_init_internal, Ev_listen all_succeed None, Ev_start_accept, Ev_accept_done 0 (Some (Sys_other 24)),
       Ev_stop, Ev_accept_done 0 None]"
  let ?e = "new_endpoint True 128 (\<lambda>i n. [0, 0, 0, 0])"
  have "\<exists>e. run_ops ep_do ?es ?e = Some e \<and>
     m_log e = [(0, Some (Transport T_pass_through)), (1, Some (Library W_operation_canceled))] \<and> pending_accepts e = []"
    by (simp add: init_internal_def init_external_def new_endpoint_simps listen_succeeds start_accept_listening
        is_listening_def accept_done_def pending_accepts_def drop_accept_def drop_nth_def handle_accept_def accept_error_def
        translate_ec_def log_simps stop_listening_def close_acceptor_def start_accept_idle)
  then obtain e where e: "run_ops ep_do ?es ?e = Some e"
    "m_log e = [(0, Some (Transport T_pass_through)), (1, Some (Library W_operation_canceled))]" "pending_accepts e = []"
    by blast
  from connections_accounted [OF e(1)] e(2,3) have "{0, 1} = {..<length (e_cons e)}" by auto
  with e show ?thesis by blast
qed

text \<open>
  Listening again before the aborted accept has ended: the aborted accept restarts its loop, next to the one that
  was started again, and two connections wait for the next two clients.
\<close>

lemma relisten_two_loops:
  assumes "is_listening e" "ae_acceptor e = Some a" "acc_accepts a = [(i, False)]"
  shows "\<exists>e'. run_ops ep_do [Ev_stop, Ev_listen all_succeed None, Ev_start_accept, Ev_accept_done 0 None] e = Some e' \<and>
    is_listening e' \<and> length (pending_accepts e') = 2 \<and> list_all (\<lambda>p. \<not> snd p) (pending_accepts e')"
  using assms
  by (simp add: stop_listening_def is_listening_def close_acceptor_def listen_succeeds start_accept_listening accept_done_def
      pending_accepts_def drop_accept_def drop_nth_def handle_accept_def accept_error_def log_simps)

text \<open>
  \<open>init_asio\<close> without a service, called after the one with a service of the caller, fails, and makes the destructor
  delete the service of the caller.
\<close>

lemma second_init_deletes:
  "ae_state e = UNINITIALIZED \<Longrightarrow>
   (let e1 = snd (init_external e); (ec, e2) = init_internal e1
    in \<not> deletes_service e1 \<and> ec = Some (Library W_invalid_state) \<and> deletes_service e2)"
  by (simp add: init_external_def init_internal_def deletes_service_def)

end
