(* ===== verification/WsClient.thy ===== *)
theory WsClient
  imports WsEndpoint
begin

text \<open>
  The client role (websocketpp/websocket/roles/client_endpoint.hpp) and the connecting of the transport
  (transport/asio/endpoint.hpp): resolving the name, connecting, and the timers of both, for any number of
  connections of one endpoint. The resolver and the sockets of asio are not part of the sources: what was asked of
  them is outstanding until it completes, with any result, and what was cancelled completes with an abort. Timers are
  as in \<open>WsTransport\<close>. The callback of \<open>connect\<close> terminates or starts the connection, which the endpoint records.
\<close>

subsection \<open>State\<close>

datatype client_timer = Dns_timer | Connect_timer

text \<open>An outstanding resolve (with host and port) or connect: its connection and the timer it runs against.\<close>

record client_op =
  co_con :: nat
  co_timer :: nat
  co_kind :: client_timer
  co_target :: "str \<times> str"
  co_cancelled :: bool

record client =
  cl_ep :: endpoint
  cl_timers :: "timer_phase list"
  cl_waits :: "(nat \<times> nat \<times> client_timer) list"
  cl_ops :: "client_op list"

text \<open>A client whose transport has been given a service of its own.\<close>

definition new_client_endpoint :: "int \<Rightarrow> (nat \<Rightarrow> nat \<Rightarrow> byte list) \<Rightarrow> client" where
  "new_client_endpoint max_connections rng =
     \<lparr>cl_ep = snd (init_internal (new_endpoint False max_connections rng)), cl_timers = [], cl_waits = [], cl_ops = []\<rparr>"

definition on_ep :: "(endpoint \<Rightarrow> endpoint) \<Rightarrow> client \<Rightarrow> client" where
  "on_ep f c = c\<lparr>cl_ep := f (cl_ep c)\<rparr>"

definition change_tcon :: "(asio_con \<Rightarrow> asio_con) \<Rightarrow> nat \<Rightarrow> endpoint \<Rightarrow> endpoint" where
  "change_tcon f i e = e\<lparr>e_cons := (e_cons e)[i := map_option (\<lambda>m. m\<lparr>c_tcon := f (c_tcon m)\<rparr>) (e_cons e ! i)]\<rparr>"

definition client_set_timer :: "nat \<Rightarrow> client_timer \<Rightarrow> client \<Rightarrow> nat \<times> client" where
  "client_set_timer i k c =
     (length (cl_timers c),
      c\<lparr>cl_timers := cl_timers c @ [Running], cl_waits := cl_waits c @ [(length (cl_timers c), i, k)]\<rparr>)"

definition client_cancel :: "nat \<Rightarrow> client \<Rightarrow> client" where
  "client_cancel t c = (if cl_timers c ! t = Running then c\<lparr>cl_timers := (cl_timers c)[t := Cancelled]\<rparr> else c)"

definition client_expired :: "nat \<Rightarrow> client \<Rightarrow> bool" where
  "client_expired t c \<longleftrightarrow> cl_timers c ! t = Elapsed"

definition cancel_ops :: "(client_op \<Rightarrow> bool) \<Rightarrow> client \<Rightarrow> client" where
  "cancel_ops f c = c\<lparr>cl_ops := map (\<lambda>p. if f p then p\<lparr>co_cancelled := True\<rparr> else p) (cl_ops c)\<rparr>"

subsection \<open>The role\<close>

text \<open>A plain socket is not secure: a secure URI is refused.\<close>

definition get_connection :: "uri \<Rightarrow> client \<Rightarrow> error_code option \<times> client" where
  "get_connection location c =
     (if m_secure location then (Some (Library W_endpoint_not_secure), c)
      else (case create_connection (cl_ep c) of
              (None, e) \<Rightarrow> (Some (Library W_con_creation_failed), c\<lparr>cl_ep := e\<rparr>)
            | (Some con, e) \<Rightarrow> (None, c\<lparr>cl_ep := change_con (o_uri_update (\<lambda>u. location)) con e\<rparr>)))"

definition get_connection_str :: "str \<Rightarrow> client \<Rightarrow> error_code option \<times> client" where
  "get_connection_str u c =
     (case parse_uri u of None \<Rightarrow> (Some (Library W_invalid_uri), c) | Some location \<Rightarrow> get_connection location c)"

text \<open>\<open>handle_connect\<close> of the role, the callback of the transport.\<close>

definition connect_callback :: "nat \<Rightarrow> error_code option \<Rightarrow> client \<Rightarrow> client" where
  "connect_callback con ec =
     on_ep (case ec of Some e \<Rightarrow> terminate_con con (Some e) | None \<Rightarrow> start_con con)"

subsection \<open>The transport connects\<close>

definition start_resolve :: "nat \<Rightarrow> str \<Rightarrow> str \<Rightarrow> client \<Rightarrow> client" where
  "start_resolve con host port c =
     (let (dns_timer, c) = client_set_timer con Dns_timer c
      in c\<lparr>cl_ops := cl_ops c @ [\<lparr>co_con = con, co_timer = dns_timer, co_kind = Dns_timer, co_target = (host, port),
                                  co_cancelled = False\<rparr>]\<rparr>)"

definition async_connect :: "nat \<Rightarrow> member \<Rightarrow> client \<Rightarrow> client option" where
  "async_connect con m c =
     (let u = o_uri (c_hs m); proxy = ac_proxy (c_tcon m)
      in if proxy = [] then Some (start_resolve con (m_host u) (get_port_str u) c)
         else (case parse_uri proxy of
                 None \<Rightarrow> Some (connect_callback con (Some (Asio A_proxy_invalid)) c)
               | Some pu \<Rightarrow>
                   (case proxy_init (get_authority u) (c_tcon m) of
                      None \<Rightarrow> None
                    | Some (Some ec, t) \<Rightarrow> Some (connect_callback con (Some ec) (on_ep (change_tcon (\<lambda>_. t) con) c))
                    | Some (None, t) \<Rightarrow>
                        Some (start_resolve con (m_host pu) (get_port_str pu) (on_ep (change_tcon (\<lambda>_. t) con) c)))))"

text \<open>The resolver belongs to the endpoint: cancelling it aborts the resolves of every connection.\<close>

definition handle_resolve_timeout :: "nat \<Rightarrow> error_code option \<Rightarrow> client \<Rightarrow> client" where
  "handle_resolve_timeout con ec c =
     (if ec = Some (Transport T_operation_aborted) then c
      else (let ret_ec = (case ec of Some e \<Rightarrow> e | None \<Rightarrow> Transport T_timeout)
            in connect_callback con (Some ret_ec) (cancel_ops (\<lambda>p. co_kind p = Dns_timer) c)))"

definition handle_resolve :: "nat \<Rightarrow> nat \<Rightarrow> str \<times> str \<Rightarrow> system_error option \<Rightarrow> client \<Rightarrow> client" where
  "handle_resolve con dns_timer addr ec c =
     (if ec = Some Sys_aborted \<or> client_expired dns_timer c then c
      else (let c = client_cancel dns_timer c
            in case ec of
                 Some e \<Rightarrow> connect_callback con (Some (translate_ec e)) c
               | None \<Rightarrow>
                   (let (con_timer, c) = client_set_timer con Connect_timer c
                    in c\<lparr>cl_ops := cl_ops c @ [\<lparr>co_con = con, co_timer = con_timer, co_kind = Connect_timer,
                                                co_target = addr, co_cancelled = False\<rparr>]\<rparr>)))"

definition handle_connect_timeout :: "nat \<Rightarrow> error_code option \<Rightarrow> client \<Rightarrow> client" where
  "handle_connect_timeout con ec c =
     (if ec = Some (Transport T_operation_aborted) then c
      else (let ret_ec = (case ec of Some e \<Rightarrow> e | None \<Rightarrow> Transport T_timeout);
                c = cancel_ops (\<lambda>p. co_kind p = Connect_timer \<and> co_con p = con) (on_ep (change_tcon cancel_socket_checked con) c)
            in connect_callback con (Some ret_ec) c))"

definition handle_connect :: "nat \<Rightarrow> nat \<Rightarrow> system_error option \<Rightarrow> client \<Rightarrow> client" where
  "handle_connect con con_timer ec c =
     (if ec = Some Sys_aborted \<or> client_expired con_timer c then c
      else (let c = client_cancel con_timer c
            in connect_callback con (map_option translate_ec ec) c))"

subsection \<open>Runs\<close>

text \<open>
  Connecting a connection that does not exist is a null pointer: \<open>None\<close>. Otherwise an event that cannot happen changes
  nothing.
\<close>

datatype client_event =
    Cl_get str | Cl_set_proxy nat str | Cl_connect nat | Cl_time nat | Cl_wait nat
  | Cl_done nat "system_error option" | Cl_con nat hs_event

definition client_wait_ended :: "nat \<times> client_timer \<Rightarrow> error_code option \<Rightarrow> client \<Rightarrow> client" where
  "client_wait_ended p ec =
     (case snd p of Dns_timer \<Rightarrow> handle_resolve_timeout (fst p) ec | Connect_timer \<Rightarrow> handle_connect_timeout (fst p) ec)"

definition client_op_ended :: "client_op \<Rightarrow> system_error option \<Rightarrow> client \<Rightarrow> client" where
  "client_op_ended p ec =
     (let ec = (if co_cancelled p then Some Sys_aborted else ec)
      in case co_kind p of
           Dns_timer \<Rightarrow> handle_resolve (co_con p) (co_timer p) (co_target p) ec
         | Connect_timer \<Rightarrow> handle_connect (co_con p) (co_timer p) ec)"

primrec client_do :: "client_event \<Rightarrow> client \<Rightarrow> client option" where
  "client_do (Cl_get u) c = Some (snd (get_connection_str u c))"
| "client_do (Cl_set_proxy i p) c = Some (on_ep (change_tcon (set_proxy p) i) c)"
| "client_do (Cl_connect i) c =
     (case get_con_from_hdl i (cl_ep c) of None \<Rightarrow> None | Some m \<Rightarrow> async_connect i m c)"
| "client_do (Cl_time t) c =
     Some (if t < length (cl_timers c) \<and> cl_timers c ! t = Running
           then c\<lparr>cl_timers := (cl_timers c)[t := Elapsed]\<rparr> else c)"
| "client_do (Cl_wait j) c =
     Some (if j < length (cl_waits c)
           then (let (t, p) = cl_waits c ! j; c' = c\<lparr>cl_waits := drop_nth j (cl_waits c)\<rparr>
                 in case cl_timers c ! t of
                      Running \<Rightarrow> c
                    | Elapsed \<Rightarrow> client_wait_ended p (handle_timer None) c'
                    | Cancelled \<Rightarrow> client_wait_ended p (handle_timer (Some Sys_aborted)) c')
           else c)"
| "client_do (Cl_done j ec) c =
     Some (if j < length (cl_ops c)
           then client_op_ended (cl_ops c ! j) ec (c\<lparr>cl_ops := drop_nth j (cl_ops c)\<rparr>) else c)"
| "client_do (Cl_con i e) c =
     (case ep_do (Ev_con i e) (cl_ep c) of None \<Rightarrow> None | Some e \<Rightarrow> Some (c\<lparr>cl_ep := e\<rparr>))"

subsection \<open>Every connect is called back once\<close>

definition done_for :: "nat \<Rightarrow> client \<Rightarrow> nat" where
  "done_for i c = length (filter (\<lambda>p. fst p = i) (m_log (cl_ep c)))"

definition waiting_for :: "nat \<Rightarrow> client \<Rightarrow> nat" where
  "waiting_for i c = live {p. fst p = i} (cl_timers c) (cl_waits c)"

definition op_ok :: "client \<Rightarrow> client_op \<Rightarrow> bool" where
  "op_ok c p \<longleftrightarrow> co_timer p < length (cl_timers c) \<and> cl_timers c ! co_timer p \<noteq> Cancelled \<and>
     ((co_timer p, co_con p, co_kind p) \<in> set (cl_waits c) \<or> client_expired (co_timer p) c)"

text \<open>\<open>f i\<close> connects were asked for on the connection \<open>i\<close>.\<close>

definition client_inv :: "(nat \<Rightarrow> nat) \<Rightarrow> client \<Rightarrow> bool" where
  "client_inv f c \<longleftrightarrow> waits_ok (cl_timers c) (cl_waits c) \<and> (\<forall>i. done_for i c + waiting_for i c = f i) \<and>
     distinct (map co_timer (cl_ops c)) \<and> list_all (op_ok c) (cl_ops c)"

lemma client_inv_ep:
  "m_log (g (cl_ep c)) = m_log (cl_ep c) \<Longrightarrow> client_inv f (on_ep g c) = client_inv f c"
  by (simp add: client_inv_def on_ep_def done_for_def waiting_for_def op_ok_def [abs_def] client_expired_def)

lemma client_inv_cancel_ops [simp]: "client_inv f (cancel_ops g c) = client_inv f c"
proof -
  let ?h = "\<lambda>p. if g p then p\<lparr>co_cancelled := True\<rparr> else p"
  have "map co_timer (map ?h ps) = map co_timer ps" for ps by simp
  moreover have "op_ok (cancel_ops g c) (?h p) = op_ok c p" for p
    by (simp add: op_ok_def cancel_ops_def client_expired_def)
  ultimately show ?thesis
    by (simp add: client_inv_def cancel_ops_def [of g c] done_for_def waiting_for_def list.pred_map comp_def del: map_map)
qed

lemma client_inv_called:
  "client_inv f c \<Longrightarrow> client_inv (f(i := Suc (f i))) (connect_callback i ec c)"
  by (auto simp: client_inv_def connect_callback_def on_ep_def done_for_def waiting_for_def op_ok_def [abs_def]
      client_expired_def log_simps split: option.splits)

text \<open>A new timer, with the operation that runs against it.\<close>

lemma client_inv_timer:
  assumes "client_inv f c" "client_set_timer i k c = (t, d)"
    and "co_con p = i" "co_timer p = t" "co_kind p = k"
  shows "client_inv (f(i := Suc (f i))) (d\<lparr>cl_ops := cl_ops d @ [p]\<rparr>)"
proof -
  have d: "t = length (cl_timers c)" "cl_timers d = cl_timers c @ [Running]" "cl_waits d = cl_waits c @ [(t, i, k)]"
    "cl_ops d = cl_ops c" "cl_ep d = cl_ep c"
    using assms(2) by (auto simp: client_set_timer_def)
  have old: "op_ok d q \<and> co_timer q \<noteq> t" if "q \<in> set (cl_ops c)" for q
    using assms(1) that by (auto simp: client_inv_def list_all_iff op_ok_def client_expired_def d nth_append)
  have "waiting_for j d = waiting_for j c + (if j = i then 1 else 0)" for j
    using assms(1) live_new [of "cl_timers c" "cl_waits c" "{p. fst p = j}" "(i, k)"]
    by (auto simp: waiting_for_def d client_inv_def)
  moreover have "waits_ok (cl_timers d) (cl_waits d)"
    using assms(1) waits_new by (auto simp: client_inv_def d)
  moreover have "op_ok d p" using assms(3-5) by (simp add: op_ok_def d nth_append)
  ultimately show ?thesis
    using assms(1,4) old by (auto simp: client_inv_def done_for_def d op_ok_def client_expired_def waiting_for_def list_all_iff)
qed

text \<open>An operation that completes in time cancels its timer, and owes the callback.\<close>

lemma client_inv_cancel:
  assumes "client_inv f c" "op_ok c p" "co_timer p \<notin> set (map co_timer (cl_ops c))" "\<not> client_expired (co_timer p) c"
  shows "client_inv (f(co_con p := f (co_con p) - 1)) (client_cancel (co_timer p) c) \<and> 0 < f (co_con p)"
proof -
  let ?t = "co_timer p" and ?i = "co_con p"
  let ?ts = "(cl_timers c)[?t := Cancelled]"
  have r: "cl_timers c ! ?t = Running"
    using assms(2,4) by (cases "cl_timers c ! ?t") (auto simp: op_ok_def client_expired_def)
  have w: "(?t, ?i, co_kind p) \<in> set (cl_waits c)" using assms(2,4) by (simp add: op_ok_def)
  have ok: "waits_ok (cl_timers c) (cl_waits c)" using assms(1) by (simp add: client_inv_def)
  have l: "live {q. fst q = j} ?ts (cl_waits c) + (if j = ?i then 1 else 0) = waiting_for j c" for j
    using live_cancel [OF ok w, of "{q. fst q = j}"] r by (auto simp: waiting_for_def)
  have ops: "op_ok (c\<lparr>cl_timers := ?ts\<rparr>) q" if "q \<in> set (cl_ops c)" for q
  proof -
    have "co_timer q \<noteq> ?t" using that assms(3) by (metis image_eqI list.set_map)
    moreover have "op_ok c q" using that assms(1) by (simp add: client_inv_def list_all_iff)
    ultimately show ?thesis by (simp add: op_ok_def client_expired_def)
  qed
  have s: "done_for j c + waiting_for j c = f j" for j using assms(1) by (simp add: client_inv_def)
  have "done_for j (c\<lparr>cl_timers := ?ts\<rparr>) + waiting_for j (c\<lparr>cl_timers := ?ts\<rparr>) = (f(?i := f ?i - 1)) j" for j
    using l [of j] s [of j] by (auto simp: done_for_def waiting_for_def)
  moreover have "0 < f ?i" using l [of ?i] s [of ?i] by simp
  ultimately show ?thesis
    using assms(1) ops ok by (simp add: client_cancel_def r client_inv_def list_all_iff waits_ok_def)
qed

lemma client_inv_drop:
  assumes "client_inv f c" "j < length (cl_ops c)"
  defines "d \<equiv> c\<lparr>cl_ops := drop_nth j (cl_ops c)\<rparr>" and "p \<equiv> cl_ops c ! j"
  shows "client_inv f d \<and> op_ok d p \<and> co_timer p \<notin> set (map co_timer (cl_ops d))"
proof -
  have split: "cl_ops c = take j (cl_ops c) @ p # drop (Suc j) (cl_ops c)"
    unfolding p_def by (rule drop_nth_split [OF assms(2)])
  have "distinct (map co_timer (take j (cl_ops c) @ p # drop (Suc j) (cl_ops c)))"
    using assms(1) by (simp only: client_inv_def split [symmetric])
  then have "distinct (map co_timer (cl_ops d)) \<and> co_timer p \<notin> set (map co_timer (cl_ops d))"
    by (auto simp: d_def drop_nth_def)
  moreover have "op_ok d q = op_ok c q" for q by (simp add: d_def op_ok_def client_expired_def)
  moreover have "set (cl_ops d) \<subseteq> set (cl_ops c)" by (simp add: d_def set_drop_nth)
  moreover have "p \<in> set (cl_ops c)" using assms(2) by (simp add: p_def)
  ultimately show ?thesis
    using assms(1) by (auto simp: client_inv_def list_all_iff done_for_def waiting_for_def d_def)
qed

lemma client_inv_wait:
  assumes "client_inv f c" "j < length (cl_waits c)" "cl_waits c ! j = (t, i, k)"
  defines "d \<equiv> c\<lparr>cl_waits := drop_nth j (cl_waits c)\<rparr>"
  shows "cl_timers c ! t = Cancelled \<Longrightarrow> client_inv f d"
    and "cl_timers c ! t = Elapsed \<Longrightarrow> client_inv (f(i := f i - 1)) d \<and> 0 < f i"
proof -
  have same: "cl_timers d = cl_timers c" "cl_ops d = cl_ops c" "cl_ep d = cl_ep c" "cl_waits d = drop_nth j (cl_waits c)"
    by (simp_all add: d_def)
  have w: "waits_ok (cl_timers d) (cl_waits d)"
    using assms(1) by (simp add: client_inv_def same waits_drop)
  have l: "waiting_for m c = waiting_for m d + (if m = i \<and> cl_timers c ! t \<noteq> Cancelled then 1 else 0)" for m
    using live_drop [OF assms(2,3), of "{q. fst q = m}" "cl_timers c"] by (auto simp: waiting_for_def same)
  have ops: "list_all (op_ok d) (cl_ops d)" if "cl_timers c ! t \<noteq> Running"
    unfolding list_all_iff
  proof
    fix p
    assume "p \<in> set (cl_ops d)"
    then have p: "op_ok c p" using assms(1) by (simp add: client_inv_def list_all_iff same)
    show "op_ok d p"
    proof (cases "co_timer p = t")
      case True
      then have "cl_timers c ! t = Elapsed" using p that by (cases "cl_timers c ! t") (auto simp: op_ok_def)
      with p True show ?thesis by (simp add: op_ok_def client_expired_def same)
    next
      case False
      then have "(co_timer p, co_con p, co_kind p) \<in> set (cl_waits d)"
        if "(co_timer p, co_con p, co_kind p) \<in> set (cl_waits c)"
        using in_drop_nth [OF that assms(2)] assms(3) same by auto
      with p show ?thesis by (auto simp: op_ok_def client_expired_def same)
    qed
  qed
  have s: "done_for m d + waiting_for m c = f m" for m
    using assms(1) by (simp add: client_inv_def done_for_def same)
  show "client_inv f d" if "cl_timers c ! t = Cancelled"
    using assms(1) that w ops l s by (simp add: client_inv_def same)
  assume e: "cl_timers c ! t = Elapsed"
  have "done_for m d + waiting_for m d = (f(i := f i - 1)) m" for m using l [of m] s [of m] e by (cases "m = i") auto
  moreover have "0 < f i" using l [of i] s [of i] e by simp
  ultimately show "client_inv (f(i := f i - 1)) d \<and> 0 < f i"
    using assms(1) w ops e by (simp add: client_inv_def same)
qed

lemma client_inv_time:
  assumes "client_inv f c" "cl_timers c ! t = Running" "t < length (cl_timers c)"
  shows "client_inv f (c\<lparr>cl_timers := (cl_timers c)[t := Elapsed]\<rparr>)"
proof -
  have "op_ok (c\<lparr>cl_timers := (cl_timers c)[t := Elapsed]\<rparr>) p" if "op_ok c p" for p
    using that assms(2,3) by (cases "co_timer p = t") (auto simp: op_ok_def client_expired_def)
  then show ?thesis
    using assms by (auto simp: client_inv_def done_for_def waiting_for_def live_elapse waits_ok_def list_all_iff)
qed

lemma log_kept: "m_log (change_con g i e) = m_log e" "m_log (change_tcon h i e) = m_log e"
  by (simp_all add: change_con_def change_tcon_def)

lemma paid: "(f(i := f i - 1))(i := Suc ((f(i := f i - 1)) i)) = f" if "0 < f i" for f :: "nat \<Rightarrow> nat"
  using that by auto

lemma resolve_started:
  assumes "client_inv f c"
  shows "client_inv (f(i := Suc (f i))) (start_resolve i host port c)"
proof -
  obtain t d where t: "client_set_timer i Dns_timer c = (t, d)" by fastforce
  show ?thesis unfolding start_resolve_def t Let_def prod.case by (rule client_inv_timer [OF assms t]) simp_all
qed

lemma connect_inv:
  assumes "client_inv f c" "async_connect i m c = Some d"
  shows "client_inv (f(i := Suc (f i))) d"
proof -
  have k: "client_inv f (on_ep (change_tcon h i) c)" for h using assms(1) by (simp add: client_inv_ep log_kept)
  show ?thesis
    using assms(2) resolve_started [OF assms(1)] resolve_started [OF k] client_inv_called [OF assms(1)] client_inv_called [OF k]
    by (auto simp: async_connect_def Let_def split: if_splits option.splits)
qed

lemma op_ended_inv:
  assumes "client_inv f c" "j < length (cl_ops c)"
  shows "client_inv f (client_op_ended (cl_ops c ! j) ec (c\<lparr>cl_ops := drop_nth j (cl_ops c)\<rparr>))"
proof -
  let ?p = "cl_ops c ! j" and ?d = "c\<lparr>cl_ops := drop_nth j (cl_ops c)\<rparr>"
  let ?i = "co_con ?p" and ?t = "co_timer ?p"
  note d = client_inv_drop [OF assms]
  show ?thesis
  proof (cases "client_expired ?t ?d")
    case True
    then show ?thesis using d by (cases "co_kind ?p") (simp_all add: client_op_ended_def handle_resolve_def handle_connect_def)
  next
    case False
    have c: "client_inv (f(?i := f ?i - 1)) (client_cancel ?t ?d)" "0 < f ?i"
      using client_inv_cancel [of f ?d ?p] d False by auto
    have called: "client_inv f (connect_callback ?i e (client_cancel ?t ?d))" for e
      using client_inv_called [OF c(1), of ?i e] paid [where f = f, OF c(2)] by simp
    obtain t b where t: "client_set_timer ?i Connect_timer (client_cancel ?t ?d) = (t, b)" by fastforce
    have "client_inv f (b\<lparr>cl_ops := cl_ops b @ [\<lparr>co_con = ?i, co_timer = t, co_kind = Connect_timer, co_target = a,
        co_cancelled = False\<rparr>]\<rparr>)" for a
      using client_inv_timer [OF c(1) t, of "\<lparr>co_con = ?i, co_timer = t, co_kind = Connect_timer, co_target = a,
        co_cancelled = False\<rparr>"] paid [where f = f, OF c(2)] by simp
    with called d False t show ?thesis
      by (cases "co_kind ?p") (auto simp: client_op_ended_def handle_resolve_def handle_connect_def Let_def split: option.split)
  qed
qed

lemma client_wait_inv:
  assumes "client_inv f c" "j < length (cl_waits c)" "cl_waits c ! j = (t, i, k)" "cl_timers c ! t \<noteq> Running"
  shows "client_inv f (client_wait_ended (i, k)
    (handle_timer (if cl_timers c ! t = Elapsed then None else Some Sys_aborted)) (c\<lparr>cl_waits := drop_nth j (cl_waits c)\<rparr>))"
proof (cases "cl_timers c ! t = Elapsed")
  case True
  let ?d = "c\<lparr>cl_waits := drop_nth j (cl_waits c)\<rparr>"
  have d: "client_inv (f(i := f i - 1)) ?d" "0 < f i" using client_inv_wait(2) [OF assms(1-3) True] by auto
  then have k: "client_inv (f(i := f i - 1)) (on_ep (change_tcon h i) ?d)" for h by (simp add: client_inv_ep log_kept)
  have "client_inv f (connect_callback i e (cancel_ops g b))" if "client_inv (f(i := f i - 1)) b" for e g b
  proof -
    have "client_inv (f(i := f i - 1)) (cancel_ops g b)" using that by simp
    from client_inv_called [OF this, of i e] show ?thesis by (simp only: paid [where f = f, OF d(2)])
  qed
  with d k True show ?thesis
    by (cases k) (simp_all add: client_wait_ended_def handle_timer_def handle_resolve_timeout_def handle_connect_timeout_def
      del: client_inv_cancel_ops)
next
  case False
  then have "cl_timers c ! t = Cancelled" using assms(4) by (cases "cl_timers c ! t") auto
  with client_inv_wait(1) [OF assms(1-3)] show ?thesis
    by (cases k) (simp_all add: client_wait_ended_def handle_timer_def handle_resolve_timeout_def handle_connect_timeout_def)
qed

definition is_connect :: "nat \<Rightarrow> client_event \<Rightarrow> bool" where
  "is_connect i e \<longleftrightarrow> (case e of Cl_connect j \<Rightarrow> j = i | _ \<Rightarrow> False)"

definition connects :: "nat \<Rightarrow> client_event list \<Rightarrow> nat" where
  "connects i es = length (filter (is_connect i) es)"

lemma get_connection_log: "m_log (cl_ep (snd (get_connection_str u c))) = m_log (cl_ep c)"
  "cl_timers (snd (get_connection_str u c)) = cl_timers c" "cl_waits (snd (get_connection_str u c)) = cl_waits c"
  "cl_ops (snd (get_connection_str u c)) = cl_ops c"
  by (auto simp: get_connection_str_def get_connection_def create_connection_def log_kept split: option.split prod.split)

lemma client_inv_same:
  "m_log (cl_ep d) = m_log (cl_ep c) \<Longrightarrow> cl_timers d = cl_timers c \<Longrightarrow> cl_waits d = cl_waits c \<Longrightarrow> cl_ops d = cl_ops c \<Longrightarrow>
   client_inv f d = client_inv f c"
  by (simp add: client_inv_def done_for_def waiting_for_def op_ok_def [abs_def] client_expired_def)

lemma client_do_inv:
  assumes "client_inv f c" "client_do e c = Some d"
  shows "client_inv (\<lambda>i. f i + (if is_connect i e then 1 else 0)) d"
proof (cases e)
  case (Cl_connect i)
  then have "(\<lambda>j. f j + (if is_connect j e then 1 else 0)) = f(i := Suc (f i))" by (auto simp: is_connect_def)
  with Cl_connect assms connect_inv show ?thesis by (auto split: option.splits)
next
  case (Cl_wait j)
  then have f: "(\<lambda>i. f i + (if is_connect i e then 1 else 0)) = f" by (auto simp: is_connect_def)
  show ?thesis
  proof (cases "j < length (cl_waits c)")
    case True
    obtain t i k where t: "cl_waits c ! j = (t, i, k)" using prod_cases3 by blast
    show ?thesis
      unfolding f using client_wait_inv [OF assms(1) True t] assms True
      by (cases "cl_timers c ! t") (auto simp: Cl_wait t)
  qed (use assms Cl_wait f in auto)
next
  case (Cl_get u)
  then show ?thesis
    using assms client_inv_same [of "snd (get_connection_str u c)" c f] by (auto simp: is_connect_def get_connection_log)
next
  case (Cl_con i ev)
  then have "m_log (cl_ep d) = m_log (cl_ep c)" "cl_timers d = cl_timers c" "cl_waits d = cl_waits c" "cl_ops d = cl_ops c"
    using assms(2) by (auto split: option.splits)
  with Cl_con assms(1) show ?thesis by (simp add: is_connect_def client_inv_same [of d c])
next
  case (Cl_set_proxy i p)
  then show ?thesis using assms by (simp add: is_connect_def) (metis client_inv_ep log_kept(2))
next
  case (Cl_time t)
  then show ?thesis using assms client_inv_time by (auto simp: is_connect_def split: if_splits)
next
  case (Cl_done j ec)
  then show ?thesis using assms op_ended_inv by (auto simp: is_connect_def split: if_splits)
qed

lemma client_runs:
  "client_inv f c \<Longrightarrow> run_ops client_do es c = Some d \<Longrightarrow> client_inv (\<lambda>i. f i + connects i es) d"
proof (induction es arbitrary: f c)
  case (Cons e es)
  then obtain b where b: "client_do e c = Some b" "run_ops client_do es b = Some d" by (auto split: option.splits)
  have "f i + (if is_connect i e then 1 else 0) + connects i es = f i + connects i (e # es)" for i
    by (simp add: connects_def)
  with Cons.IH [OF client_do_inv [OF Cons.prems(1) b(1)] b(2)] show ?case by simp
qed (simp add: connects_def)

text \<open>
  C24. A client endpoint with any number of connections: whatever the resolver and the sockets report, in whatever order
  operations and timers end, every connect starts or terminates its connection at most once, and it has done so once no
  wait for a timer of that connection is outstanding. No connect is lost.
\<close>

theorem client_connects_once:
  assumes "run_ops client_do es (new_client_endpoint mc rng) = Some c"
  shows "done_for i c \<le> connects i es \<and>
    (i \<notin> set (map (fst \<circ> snd) (cl_waits c)) \<longrightarrow> done_for i c = connects i es)"
proof -
  have "client_inv (\<lambda>i. 0) (new_client_endpoint mc rng)"
    by (simp add: client_inv_def new_client_endpoint_def waits_ok_def done_for_def waiting_for_def live_def new_endpoint_simps
        init_internal_def init_external_def)
  from client_runs [OF this assms] have c: "done_for i c + waiting_for i c = connects i es"
    by (simp add: client_inv_def)
  have "waiting_for i c = 0" if "i \<notin> set (map (fst \<circ> snd) (cl_waits c))"
    using that by (force simp: waiting_for_def live_def filter_empty_conv)
  with c show ?thesis by (cases "i \<in> set (map (fst \<circ> snd) (cl_waits c))") auto
qed

theorem client_connects_once_witness:
  "\<exists>c. run_ops client_do [Cl_get (uri_str sample_uri), Cl_get (uri_str sample_uri), Cl_connect 0, Cl_connect 1, Cl_time 0,
       Cl_wait 0, Cl_done 1 None, Cl_time 1, Cl_wait 0] (new_client_endpoint 128 (\<lambda>i n. [0, 0, 0, 0])) = Some c \<and>
     m_log (cl_ep c) = [(0, Some (Transport T_timeout)), (1, Some (Transport T_timeout))] \<and> done_for 1 c = 1"
proof -
  let ?es = "[Cl_get (uri_str sample_uri), Cl_get (uri_str sample_uri), Cl_connect 0, Cl_connect 1, Cl_time 0,
       Cl_wait 0, Cl_done 1 None, Cl_time 1, Cl_wait 0]"
  let ?c = "new_client_endpoint 128 (\<lambda>i n. [0, 0, 0, 0])"
  have u: "parse_uri (uri_str sample_uri) = Some sample_uri" "\<not> m_secure sample_uri"
    by (rule parse_plain) (simp_all add: plain_uri_def sample_uri_def secure_scheme_def bytes_of_def)
  have "\<exists>c. run_ops client_do ?es ?c = Some c \<and> cl_waits c = [] \<and>
      m_log (cl_ep c) = [(0, Some (Transport T_timeout)), (1, Some (Transport T_timeout))]"
    by (simp add: get_connection_str_def get_connection_def u create_connection_def init_asio_def init_socket_def new_asio_con_def
        new_client_endpoint_def init_internal_def init_external_def new_endpoint_simps get_con_from_hdl_def change_con_def
        async_connect_def start_resolve_def client_set_timer_def client_wait_ended_def handle_timer_def drop_nth_def
        handle_resolve_timeout_def cancel_ops_def connect_callback_def on_ep_def log_simps client_op_ended_def handle_resolve_def)
  then obtain c where c: "run_ops client_do ?es ?c = Some c" "cl_waits c = []"
      "m_log (cl_ep c) = [(0, Some (Transport T_timeout)), (1, Some (Transport T_timeout))]"
    by blast
  then have "done_for 1 c = connects 1 ?es" using client_connects_once [OF c(1), of 1] by simp
  then have "done_for 1 c = 1" by (simp add: connects_def is_connect_def)
  with c show ?thesis by blast
qed

text \<open>
  The resolver belongs to the endpoint. When the name of one connection is not resolved in time, the resolves of all
  others are aborted; an abort is ignored, so that each of these connections waits for its own timer and fails.
\<close>

lemma dns_timeout_spreads:
  assumes "j < length (cl_waits c)" "cl_waits c ! j = (t, i, Dns_timer)" "cl_timers c ! t = Elapsed"
    and "q < length (cl_ops c)" "co_kind (cl_ops c ! q) = Dns_timer"
  shows "\<exists>d. run_ops client_do [Cl_wait j, Cl_done q ec] c = Some d \<and>
    m_log (cl_ep d) = m_log (cl_ep c) @ [(i, Some (Transport T_timeout))] \<and> cl_timers d = cl_timers c \<and>
    length (cl_ops d) = length (cl_ops c) - 1"
  using assms
  by (auto simp: client_wait_ended_def handle_timer_def handle_resolve_timeout_def cancel_ops_def connect_callback_def
      on_ep_def log_simps client_op_ended_def Let_def handle_resolve_def drop_nth_def)

end
