(* ===== verification/StreamSocket.thy ===== *)
theory StreamSocket
  imports WsFrame
begin

text \<open>
  \<open>VideoStreamSocket\<close> (src/CVideoStreamSocket.cpp, inc/CVideoStreamSocket.hpp): the set of connected
  clients and the handlers that the WebSocket endpoint calls.  A connection handle is a weak
  pointer that \<open>std::owner_less\<close> orders, here by the age of its owner; the set is the list of its
  members in that order.  The endpoint's \<open>send\<close> appears as the list of messages handed to it; it
  throws when the handle's connection is not open, which \<open>alive\<close> says.
\<close>

subsection \<open>Handles and their set\<close>

datatype hdl = Hdl nat

instantiation hdl :: linorder
begin

fun less_eq_hdl :: "hdl \<Rightarrow> hdl \<Rightarrow> bool" where
  "less_eq_hdl (Hdl a) (Hdl b) = (a \<le> b)"

fun less_hdl :: "hdl \<Rightarrow> hdl \<Rightarrow> bool" where
  "less_hdl (Hdl a) (Hdl b) = (a < b)"

instance
proof
  fix x y z :: hdl
  show "x < y \<longleftrightarrow> x \<le> y \<and> \<not> y \<le> x" by (cases x; cases y) auto
  show "x \<le> x" by (cases x) simp
  show "x \<le> y \<Longrightarrow> y \<le> z \<Longrightarrow> x \<le> z" by (cases x; cases y; cases z) simp
  show "x \<le> y \<Longrightarrow> y \<le> x \<Longrightarrow> x = y" by (cases x; cases y) simp
  show "x \<le> y \<or> y \<le> x" by (cases x; cases y) auto
qed

end

definition set_insert :: "'a::linorder \<Rightarrow> 'a list \<Rightarrow> 'a list" where
  "set_insert = insort_insert"

definition set_erase :: "'a \<Rightarrow> 'a list \<Rightarrow> 'a list" where
  "set_erase = removeAll"

text \<open>What the handlers need of a registry of clients: its members and their order of iteration.\<close>

locale registry =
  fixes ins :: "'a \<Rightarrow> 'r \<Rightarrow> 'r"
    and del :: "'a \<Rightarrow> 'r \<Rightarrow> 'r"
    and members :: "'r \<Rightarrow> 'a list"
    and wf :: "'r \<Rightarrow> bool"
  assumes ins_members: "wf r \<Longrightarrow> set (members (ins x r)) = Set.insert x (set (members r))"
    and del_members: "wf r \<Longrightarrow> set (members (del x r)) = set (members r) - {x}"
    and ins_wf: "wf r \<Longrightarrow> wf (ins x r)"
    and del_wf: "wf r \<Longrightarrow> wf (del x r)"
    and wf_distinct: "wf r \<Longrightarrow> distinct (members r)"
begin

text \<open>A history of arrivals and departures.\<close>

fun replay :: "(bool \<times> 'a) list \<Rightarrow> 'r \<Rightarrow> 'r" where
  "replay [] r = r"
| "replay ((True, x) # es) r = replay es (ins x r)"
| "replay ((False, x) # es) r = replay es (del x r)"

fun present :: "(bool \<times> 'a) list \<Rightarrow> 'a set \<Rightarrow> 'a set" where
  "present [] S = S"
| "present ((True, x) # es) S = present es (Set.insert x S)"
| "present ((False, x) # es) S = present es (S - {x})"

lemma replay_wf: "wf r \<Longrightarrow> wf (replay es r)"
  by (induction es r rule: replay.induct) (auto intro: ins_wf del_wf)

lemma replay_present: "wf r \<Longrightarrow> set (members (replay es r)) = present es (set (members r))"
  by (induction es r rule: replay.induct) (auto simp: ins_members del_members ins_wf del_wf)

lemma replay_once: "wf r \<Longrightarrow> distinct (members (replay es r))"
  using replay_wf wf_distinct by blast

end

interpretation clients: registry "set_insert :: hdl \<Rightarrow> hdl list \<Rightarrow> hdl list" set_erase "\<lambda>r. r"
    "\<lambda>r. sorted r \<and> distinct r"
proof unfold_locales
  fix r :: "hdl list" and x
  assume wf: "sorted r \<and> distinct r"
  show "set (set_insert x r) = Set.insert x (set r)" by (simp add: set_insert_def set_insort_insert)
  show "set (set_erase x r) = set r - {x}" by (simp add: set_erase_def)
  show "sorted (set_insert x r) \<and> distinct (set_insert x r)"
    using wf by (simp add: set_insert_def sorted_insort_insert distinct_insort_insert)
  show "sorted (set_erase x r) \<and> distinct (set_erase x r)"
    using wf by (simp add: set_erase_def distinct_removeAll removeAll_filter_not_eq sorted_filter [of "\<lambda>x. x", simplified])
  show "distinct r" using wf by simp
qed

subsection \<open>The handlers\<close>

record sent_message =
  s_to :: hdl
  s_opcode :: opcode
  s_payload :: "byte list"

record stream_socket =
  m_connections :: "hdl list"
  m_client_connected :: bool
  sent_messages :: "sent_message list"

definition new_socket :: stream_socket where
  "new_socket = \<lparr>m_connections = [], m_client_connected = False, sent_messages = []\<rparr>"

definition on_open :: "hdl \<Rightarrow> stream_socket \<Rightarrow> stream_socket" where
  "on_open h s = s\<lparr>m_connections := set_insert h (m_connections s), m_client_connected := True\<rparr>"

definition on_close :: "hdl \<Rightarrow> stream_socket \<Rightarrow> stream_socket" where
  "on_close h s =
     (let s = s\<lparr>m_connections := set_erase h (m_connections s)\<rparr>
      in if m_connections s = [] then s\<lparr>m_client_connected := False\<rparr> else s)"

text \<open>\<open>std::to_string\<close> of a time.\<close>

fun digits :: "nat \<Rightarrow> string" where
  "digits n = (if n < 10 then [char_of (48 + n)] else digits (n div 10) @ [char_of (48 + n mod 10)])"

declare digits.simps [simp del]

definition to_string :: "int \<Rightarrow> string" where
  "to_string i = (if i < 0 then CHR ''-'' # digits (nat (- i)) else digits (nat i))"

definition endpoint_send :: "(hdl \<Rightarrow> bool) \<Rightarrow> hdl \<Rightarrow> opcode \<Rightarrow> byte list \<Rightarrow> stream_socket \<Rightarrow>
    (string, stream_socket) outcome" where
  "endpoint_send alive h opc data s =
     (if alive h then Ret (s\<lparr>sent_messages := sent_messages s @ [\<lparr>s_to = h, s_opcode = opc, s_payload = data\<rparr>]\<rparr>)
      else Throw ''invalid state'')"

definition on_message :: "(hdl \<Rightarrow> bool) \<Rightarrow> int \<Rightarrow> hdl \<Rightarrow> string \<Rightarrow> stream_socket \<Rightarrow>
    (string, stream_socket) outcome" where
  "on_message alive epoch h payload s =
     (if payload = ''get_epoch'' then endpoint_send alive h op_text (bytes_of (to_string epoch)) s
      else Ret s)"

text \<open>The loop of \<open>send_video_data\<close>; an exception leaves it with the messages sent so far.\<close>

fun send_each :: "(hdl \<Rightarrow> bool) \<Rightarrow> byte list \<Rightarrow> hdl list \<Rightarrow> stream_socket \<Rightarrow> bool \<times> stream_socket" where
  "send_each alive data [] s = (True, s)"
| "send_each alive data (h # hs) s =
     (case endpoint_send alive h op_binary data s of
        Ret s' \<Rightarrow> send_each alive data hs s' | _ \<Rightarrow> (False, s))"

definition send_video_data :: "(hdl \<Rightarrow> bool) \<Rightarrow> byte list \<Rightarrow> stream_socket \<Rightarrow> bool \<times> stream_socket" where
  "send_video_data alive data s = send_each alive data (m_connections s) s"

record http_reply =
  r_status :: nat
  r_headers :: "(string \<times> string) list"
  r_body :: string

definition http_handler :: "http_reply \<Rightarrow> http_reply" where
  "http_handler r = r\<lparr>r_headers := r_headers r @
       [(''Access-Control-Allow-Origin'', ''*''),
        (''Access-Control-Allow-Methods'', ''GET, POST, PUT, DELETE''),
        (''Access-Control-Allow-Headers'', ''Content-Type'')],
     r_body := ''WebSocket server ready'', r_status := 200\<rparr>"

subsection \<open>Properties\<close>

datatype socket_event = Opened hdl | Closed hdl | Sent "byte list"

fun socket_step :: "(hdl \<Rightarrow> bool) \<Rightarrow> socket_event \<Rightarrow> stream_socket \<Rightarrow> stream_socket" where
  "socket_step alive (Opened h) s = on_open h s"
| "socket_step alive (Closed h) s = on_close h s"
| "socket_step alive (Sent data) s = snd (send_video_data alive data s)"

fun history :: "socket_event list \<Rightarrow> (bool \<times> hdl) list" where
  "history [] = []"
| "history (Opened h # es) = (True, h) # history es"
| "history (Closed h # es) = (False, h) # history es"
| "history (Sent data # es) = history es"

lemma send_each_keeps [simp]:
  "m_connections (snd (send_each alive data hs s)) = m_connections s"
  "m_client_connected (snd (send_each alive data hs s)) = m_client_connected s"
  by (induction hs arbitrary: s) (auto simp: endpoint_send_def)

text \<open>
  After any sequence of handler calls from a new socket: the set holds exactly the clients that
  opened and have not closed since, each once and in order, and \<open>m_client_connected\<close> says whether
  there is one, which is what the sender waits for.
\<close>

theorem socket_clients:
  "let s = fold (socket_step alive) es new_socket in
     set (m_connections s) = clients.present (history es) {} \<and> sorted (m_connections s) \<and>
     distinct (m_connections s) \<and> (m_client_connected s \<longleftrightarrow> m_connections s \<noteq> [])"
proof -
  have "m_connections (fold (socket_step alive) es s) = clients.replay (history es) (m_connections s) \<and>
     ((m_client_connected s \<longleftrightarrow> m_connections s \<noteq> []) \<longrightarrow>
      (m_client_connected (fold (socket_step alive) es s) \<longleftrightarrow> m_connections (fold (socket_step alive) es s) \<noteq> []))"
    for s
  proof (induction es arbitrary: s)
    case (Cons e es)
    have "set (set_insert h r) \<noteq> {}" for h :: hdl and r by (simp add: set_insert_def set_insort_insert)
    then have "set_insert h r \<noteq> []" for h :: hdl and r by force
    moreover have "set_erase h [] = []" for h :: hdl by (simp add: set_erase_def)
    ultimately show ?case
      using Cons by (cases e) (auto simp: on_open_def on_close_def Let_def send_video_data_def)
  qed simp
  from this [of new_socket] clients.replay_wf [of "[]" "history es"]
    clients.replay_present [of "[]" "history es"]
  show ?thesis by (auto simp: new_socket_def Let_def)
qed

text \<open>
  \<open>send_video_data\<close> hands every connected client the data once, as one binary message, in the order
  of the set, until the first client whose connection is not open: there the exception leaves
  the loop, and that client and all behind it get nothing, whatever their state.
\<close>

theorem send_video_data_until_closed:
  "send_video_data alive data s =
     (list_all alive (m_connections s),
      s\<lparr>sent_messages := sent_messages s @
          map (\<lambda>h. \<lparr>s_to = h, s_opcode = op_binary, s_payload = data\<rparr>) (takeWhile alive (m_connections s))\<rparr>)"
proof -
  have "send_each alive data hs s = (list_all alive hs, s\<lparr>sent_messages := sent_messages s @
      map (\<lambda>h. \<lparr>s_to = h, s_opcode = op_binary, s_payload = data\<rparr>) (takeWhile alive hs)\<rparr>)" for hs
    by (induction hs arbitrary: s) (auto simp: endpoint_send_def)
  then show ?thesis by (simp add: send_video_data_def)
qed

end
