(* ===== verification/SocketServer.thy ===== *)
theory SocketServer
  imports WsEndpoint StreamSocket
begin

text \<open>
  The server of the application: \<open>VideoStreamSocket\<close> (src/CVideoStreamSocket.cpp) as the user of the endpoint of
  \<open>WsEndpoint\<close>. Its constructor, \<open>run\<close>, and the handlers as the library calls them. The set of clients is in
  \<open>StreamSocket\<close>; here the open and close handlers change nothing of the connection.
\<close>

subsection \<open>The handlers\<close>

definition ac_origin :: str where "ac_origin = bytes_of ''Access-Control-Allow-Origin''"
definition ac_methods :: str where "ac_methods = bytes_of ''Access-Control-Allow-Methods''"
definition ac_headers :: str where "ac_headers = bytes_of ''Access-Control-Allow-Headers''"

definition page_handler :: "handshake \<Rightarrow> handshake option" where
  "page_handler s =
     Option.bind (con_append_header ac_origin (bytes_of ''*'') s) (\<lambda>s.
     Option.bind (con_append_header ac_methods (bytes_of ''GET, POST, PUT, DELETE'') s) (\<lambda>s.
     Option.bind (con_append_header ac_headers (bytes_of ''Content-Type'') s) (\<lambda>s.
     Option.bind (con_set_body (bytes_of ''WebSocket server ready'') s) (con_set_status 200))))"

text \<open>The reply to a message. That \<open>send\<close> throws on an error is in \<open>StreamSocket\<close>; here the error is dropped.\<close>

definition reply_epoch :: "int \<Rightarrow> message \<Rightarrow> connection \<Rightarrow> connection" where
  "reply_epoch epoch m c =
     (if m_payload m = bytes_of ''get_epoch'' then snd (send_text (bytes_of (to_string epoch)) op_text c) else c)"

text \<open>The handlers that the constructor sets, and the one that \<open>run\<close> adds.\<close>

definition socket_handlers :: "int \<Rightarrow> opening_handlers" where
  "socket_handlers epoch =
     \<lparr>oh_validate = None, oh_http = None,
      oh_con = no_handlers\<lparr>h_open := Some (\<lambda>c. c), h_close := Some (\<lambda>c. c), h_message := Some (reply_epoch epoch)\<rparr>\<rparr>"

definition new_stream_server :: "int \<Rightarrow> int \<Rightarrow> (nat \<Rightarrow> nat \<Rightarrow> byte list) \<Rightarrow> endpoint option" where
  "new_stream_server epoch max_connections rng =
     (case init_internal (new_endpoint True max_connections rng) of
        (Some ec, e) \<Rightarrow> None
      | (None, e) \<Rightarrow> Some (e\<lparr>e_handlers := socket_handlers epoch\<rparr>))"

definition socket_run :: "(listen_call \<Rightarrow> system_error option) \<Rightarrow> endpoint \<Rightarrow> endpoint option" where
  "socket_run ans e =
     (let e = e\<lparr>e_handlers := (e_handlers e)\<lparr>oh_http := Some page_handler\<rparr>\<rparr>
      in case asio_listen ans None e of
           (Some ec, e) \<Rightarrow> None
         | (None, e) \<Rightarrow> (case start_accept e of (Some ec, e) \<Rightarrow> None | (None, e) \<Rightarrow> Some e))"

lemma new_stream_server_made:
  "\<exists>e. new_stream_server epoch mc rng = Some e \<and> ep_inv 0 e \<and> ae_state e = READY \<and>
     ae_acceptor e = Some \<lparr>acc_open = False, acc_accepts = []\<rparr> \<and> e_cons e = [] \<and> m_log e = []"
proof -
  let ?e = "new_endpoint True mc rng"
  have i: "init_internal ?e = (None, snd (init_internal ?e))"
    by (simp add: init_internal_def init_external_def new_endpoint_simps)
  have "ep_inv 0 ((snd (init_internal ?e))\<lparr>e_handlers := socket_handlers epoch\<rparr>)"
    by (rule ep_inv_cong [THEN iffD2, OF _ _ _ _ init_inv(2) [OF new_inv]]) simp_all
  moreover have "ae_state (snd (init_internal ?e)) = READY"
    "ae_acceptor (snd (init_internal ?e)) = Some \<lparr>acc_open = False, acc_accepts = []\<rparr>"
    "e_cons (snd (init_internal ?e)) = []" "m_log (snd (init_internal ?e)) = []"
    by (simp_all add: init_internal_def init_external_def new_endpoint_simps)
  ultimately show ?thesis by (subst new_stream_server_def, subst i) simp
qed

text \<open>
  \<open>run\<close> throws when one of the four calls of \<open>listen\<close> fails. Otherwise the server listens with one accept.
\<close>

lemma socket_run_result:
  assumes "ae_state e = READY" "ae_acceptor e = Some \<lparr>acc_open = False, acc_accepts = []\<rparr>"
  shows "socket_run ans e = None \<longleftrightarrow> (\<exists>c. ans c \<noteq> None)"
    and "socket_run ans e = Some e' \<Longrightarrow> is_listening e' \<and> pending_accepts e' = [(length (e_cons e), False)]"
proof -
  let ?h = "e\<lparr>e_handlers := (e_handlers e)\<lparr>oh_http := Some page_handler\<rparr>\<rparr>"
  have all: "(\<exists>c. ans c \<noteq> None) \<longleftrightarrow> ans Call_open \<noteq> None \<or> ans Call_set_option \<noteq> None \<or> ans Call_bind \<noteq> None \<or> ans Call_listen \<noteq> None"
    by (metis listen_call.exhaust)
  have fail: "\<exists>ec d. asio_listen ans None ?h = (Some ec, d)" if "\<exists>c. ans c \<noteq> None"
    using that assms unfolding all
    by (cases "ans Call_open"; cases "ans Call_set_option"; cases "ans Call_bind"; cases "ans Call_listen")
      (auto simp: asio_listen_def Let_def clean_up_listen_after_error_def)
  have good: "asio_listen ans None ?h = (None, ?h\<lparr>ae_acceptor := Some \<lparr>acc_open = True, acc_accepts = []\<rparr>, ae_state := LISTENING\<rparr>)"
    if "\<not> (\<exists>c. ans c \<noteq> None)"
    using that assms unfolding all by (simp add: asio_listen_def Let_def)
  show "socket_run ans e = None \<longleftrightarrow> (\<exists>c. ans c \<noteq> None)"
    using fail good by (cases "\<exists>c. ans c \<noteq> None") (auto simp: socket_run_def start_accept_listening is_listening_def)
  show "is_listening e' \<and> pending_accepts e' = [(length (e_cons e), False)]" if "socket_run ans e = Some e'"
    using that fail good
    by (cases "\<exists>c. ans c \<noteq> None") (auto simp: socket_run_def start_accept_listening is_listening_def pending_accepts_def)
qed


lemma socket_run_started:
  assumes "new_stream_server epoch mc rng = Some e0" "socket_run ans e0 = Some e1"
  shows "ep_inv 1 e1 \<and> is_listening e1 \<and> pending_accepts e1 = [(length (e_cons e0), False)]"
proof -
  have e0: "ep_inv 0 e0" "ae_state e0 = READY" "ae_acceptor e0 = Some \<lparr>acc_open = False, acc_accepts = []\<rparr>"
    using new_stream_server_made [of epoch mc rng] assms(1) by auto
  let ?h = "e0\<lparr>e_handlers := (e_handlers e0)\<lparr>oh_http := Some page_handler\<rparr>\<rparr>"
  have "ep_inv 0 ?h" by (rule ep_inv_cong [THEN iffD2, OF _ _ _ _ e0(1)]) simp_all
  then have "ep_inv 0 (snd (asio_listen ans None ?h))" by (rule listen_inv)
  then have "ep_inv 1 (snd (start_accept (snd (asio_listen ans None ?h))))" using start_accept_inv by fastforce
  then have "ep_inv 1 e1" using assms(2) by (auto simp: socket_run_def Let_def split: prod.splits option.splits)
  then show ?thesis using socket_run_result(2) [OF e0(2,3) assms(2)] by simp
qed

text \<open>
  C21. The server of the application: \<open>run\<close> throws exactly when a call of \<open>listen\<close> fails; otherwise, whatever its
  connections do and however its accepts end, errors included, it goes on listening with exactly one outstanding accept,
  and every connection but the one that waits there was started or terminated exactly once.
\<close>

theorem stream_server_accepts:
  assumes "new_stream_server epoch mc rng = Some e0"
  shows "(socket_run ans e0 = None \<longleftrightarrow> (\<exists>c. ans c \<noteq> None)) \<and>
    (\<forall>e1 es e. socket_run ans e0 = Some e1 \<longrightarrow> list_all (\<lambda>ev. \<not> is_stop ev \<and> \<not> is_start_accept ev) es \<longrightarrow>
       run_ops ep_do es e1 = Some e \<longrightarrow>
       is_listening e \<and> (\<exists>i. pending_accepts e = [(i, False)] \<and> i \<notin> set (map fst (m_log e)) \<and>
         distinct (map fst (m_log e)) \<and> insert i (set (map fst (m_log e))) = {..<length (e_cons e)}))"
proof -
  obtain e where e: "new_stream_server epoch mc rng = Some e" "ep_inv 0 e" "ae_state e = READY"
    "ae_acceptor e = Some \<lparr>acc_open = False, acc_accepts = []\<rparr>"
    using new_stream_server_made by blast
  then have e0: "ep_inv 0 e0" "ae_state e0 = READY" "ae_acceptor e0 = Some \<lparr>acc_open = False, acc_accepts = []\<rparr>"
    using assms by auto
  have "is_listening e \<and> (\<exists>i. pending_accepts e = [(i, False)] \<and> i \<notin> set (map fst (m_log e)) \<and>
      distinct (map fst (m_log e)) \<and> insert i (set (map fst (m_log e))) = {..<length (e_cons e)})"
    if r: "socket_run ans e0 = Some e1" and es: "list_all (\<lambda>ev. \<not> is_stop ev \<and> \<not> is_start_accept ev) es"
      and run: "run_ops ep_do es e1 = Some e" for e1 es e
  proof -
    have l: "ep_inv 1 e1" "is_listening e1" "pending_accepts e1 = [(length (e_cons e0), False)]"
      using socket_run_started [OF assms r] by auto
    from keeps_accepting_run [OF l(1,2) _ es run] l(3)
    have "is_listening e" "list_all (\<lambda>p. \<not> snd p) (pending_accepts e)" "length (pending_accepts e) = 1" by auto
    moreover obtain i c where i: "pending_accepts e = [(i, c)]"
      using calculation(3) by (metis (no_types) One_nat_def length_0_conv length_Suc_conv prod.exhaust)
    moreover have "accounted e" using ep_runs [OF l(1) run] by (simp add: ep_inv_def)
    ultimately show ?thesis by (auto simp: accounted_def)
  qed
  then show ?thesis using socket_run_result(1) [OF e0(2,3)] by blast
qed

theorem stream_server_accepts_witness:
  "\<exists>e0 e1 e. new_stream_server 0 128 (\<lambda>i n. [0, 0, 0, 0]) = Some e0 \<and> socket_run all_succeed e0 = Some e1 \<and>
     run_ops ep_do [Ev_accept_done 0 None, Ev_accept_done 0 (Some (Sys_other 24))] e1 = Some e \<and>
     is_listening e \<and> (\<exists>i. pending_accepts e = [(i, False)])"
proof -
  obtain e0 where e0: "new_stream_server 0 128 (\<lambda>i n. [0, 0, 0, 0]) = Some e0"
    using new_stream_server_made by blast
  note s = stream_server_accepts [OF e0]
  obtain e1 where e1: "socket_run all_succeed e0 = Some e1"
    using s [of all_succeed] by (auto simp: all_succeed_def)
  let ?es = "[Ev_accept_done 0 None, Ev_accept_done 0 (Some (Sys_other 24))]"
  obtain e where e: "run_ops ep_do ?es e1 = Some e" by simp
  have "list_all (\<lambda>ev. \<not> is_stop ev \<and> \<not> is_start_accept ev) ?es" by (simp add: is_stop_def is_start_accept_def)
  with s [of all_succeed] e0 e1 e show ?thesis by blast
qed

subsection \<open>The page\<close>

text \<open>What the server answers to a request that is no upgrade, whatever it asks for.\<close>

definition page_response :: "str \<Rightarrow> http_response" where
  "page_response agent =
     new_response\<lparr>m_version := http_1_1, m_status_code := 200, m_status_msg := bytes_of ''OK'',
       m_headers := [(ac_headers, bytes_of ''Content-Type''), (ac_methods, bytes_of ''GET, POST, PUT, DELETE''),
         (ac_origin, bytes_of ''*''), (h_content_length, bytes_of ''22''), (h_server, agent)],
       m_body := bytes_of ''WebSocket server ready''\<rparr>"

definition page_names :: "str list" where
  "page_names = [ac_headers, ac_methods, ac_origin, h_content_length, h_server]"

lemma page_names_sorted: "sorted_wrt ci_less page_names"
  by (simp add: page_names_def ac_headers_def ac_methods_def ac_origin_def name_defs ci_less_def to_lower_def tolower_def
      bytes_of_def)

lemmas page_less [simp] = page_names_sorted [unfolded page_names_def, simplified]

lemma page_names_back: "sorted_wrt (\<lambda>a b. \<not> ci_less b a) page_names"
  by (rule sorted_wrt_mono_rel [OF _ page_names_sorted]) (rule ci.asym)

lemmas page_not_less [simp] = page_names_back [unfolded page_names_def, simplified]

lemma page_tokens [simp]: "token ac_headers" "token ac_methods" "token ac_origin"
  by (simp_all add: ac_headers_def ac_methods_def ac_origin_def token_def bytes_of_def is_not_token_char_def header_token_def)

lemma page_body:
  "set_body (bytes_of ''WebSocket server ready'') p
     = (replace_header h_content_length (bytes_of ''22'') p)\<lparr>m_body := bytes_of ''WebSocket server ready''\<rparr>"
proof -
  have "length (bytes_of ''WebSocket server ready'') = 22" by (simp add: bytes_of_def)
  moreover have "print_nat 22 = bytes_of ''22''" by (simp add: bytes_of_def print_nat.simps)
  moreover have "(bytes_of ''WebSocket server ready'' = []) = False" by (simp add: bytes_of_def)
  ultimately show ?thesis by (simp only: set_body_def if_False)
qed

lemma page_handled:
  assumes "m_is_server (o_con s)" "o_internal s = PROCESS_HTTP_REQUEST" "o_response s = new_response"
  shows "page_handler s = Some (s\<lparr>o_response := (page_response a)\<lparr>m_version := [], m_headers := butlast (m_headers (page_response a))\<rparr>\<rparr>)"
proof -
  have h: "m_headers new_response = []" "m_version new_response = []" by (simp_all add: new_response_def)
  have i: "o_internal (s\<lparr>o_response := r\<rparr>) = PROCESS_HTTP_REQUEST" for r using assms(2) by (simp add: o_internal_def)
  show ?thesis
    using assms
    by (simp add: page_handler_def con_append_header_def append_fresh h i con_set_body_def page_body con_set_status_def
        set_status_def set_status_msg_def status_string_def replace_header_def page_response_def)
qed

definition page_handlers :: "int \<Rightarrow> opening_handlers" where
  "page_handlers epoch = (socket_handlers epoch)\<lparr>oh_http := Some page_handler\<rparr>"

text \<open>The request is read and its answer handed to the transport.\<close>

lemma page_written:
  assumes r: "writable_request r" "length (request_raw r) \<le> 16384" "\<not> is_websocket_handshake r"
    and u: "m_valid (get_uri_from_host r (bytes_of ''http''))" and a: "agent \<noteq> []"
  shows "\<exists>s. hs_do (page_handlers epoch) (Complete 0 None (request_raw r)) (server_waiting rng agent u') = Some s
    \<and> o_con s = (timed True rng PROCESS_HTTP_REQUEST)\<lparr>m_is_http := True\<rparr> \<and> o_pending s = [Write_response]
    \<and> o_response s = page_response agent \<and> o_wire s = response_raw (page_response agent)"
proof -
  obtain q where q: "request_consume (request_raw r) new_request = Inr (length (request_raw r), q)" "m_ready q"
      "m_uri q = m_uri r" "m_headers q = m_headers r"
    using request_read_back [OF r(1), of "[]"] by auto
  then have hdr: "get_header q n = get_header r n" for n by (simp add: get_header_def)
  have nu: "\<not> is_websocket_handshake q" using r(3) by (simp add: is_websocket_handshake_def hdr)
  have uq: "get_uri_from_host q z = get_uri_from_host r z" for z unfolding get_uri_from_host_def hdr q(3) by (rule refl)
  define s where "s = (server_waiting rng agent u')\<lparr>o_pending := [], o_request := q\<rparr>"
  have s: "o_request s = q" "o_con s = timed True rng READ_HTTP_REQUEST" "o_response s = new_response"
    "o_user_agent s = agent" "o_pending s = []" "o_wire s = []" "o_processor s = None" "o_transport_secure s = False"
    by (simp_all add: s_def server_waiting_def new_handshake_simps)
  have step: "hs_do (page_handlers epoch) (Complete 0 None (request_raw r)) (server_waiting rng agent u')
      = request_complete (page_handlers epoch) [] s"
    using r(2) by (simp add: complete_def handle_read_handshake_def completed_def o_state_def o_internal_def s_def
        server_waiting_def timed_simps new_handshake_simps connection_read_buffer_size_def q(1,2) Let_def)
  define t where "t = s\<lparr>o_leftover := [], o_uri := get_uri_from_host r (bytes_of ''http''),
      o_con := (timed True rng PROCESS_HTTP_REQUEST)\<lparr>m_is_http := True\<rparr>\<rparr>"
  have t: "m_is_server (o_con t)" "o_internal t = PROCESS_HTTP_REQUEST" "o_response t = new_response"
    by (simp_all add: t_def o_internal_def s timed_simps)
  have h: "oh_http (page_handlers epoch) = Some page_handler" by (simp add: page_handlers_def)
  have c: "o_state (t\<lparr>o_response := p\<rparr>) = Connecting" for p by (simp add: o_state_def t_def timed_simps)
  have "request_complete (page_handlers epoch) [] s = Some (write_http_response None
      (t\<lparr>o_response := (page_response agent)\<lparr>m_version := [], m_headers := butlast (m_headers (page_response agent))\<rparr>\<rparr>))"
    using page_handled [OF t, of agent] c u
    by (simp add: request_complete_def initialize_processor_def s nu Let_def process_handshake_request_def
        process_plain_request_def set_internal_def on_con_def uq h t_def timed_simps)
  moreover have "agent_header h_server agent (set_version http_1_1
      ((page_response agent)\<lparr>m_version := [], m_headers := butlast (m_headers (page_response agent))\<rparr>)) = page_response agent"
    using a by (simp add: agent_header_def set_version_def replace_header_def page_response_def get_header_def)
  moreover have "o_user_agent t = agent" "o_wire t = []" "o_pending t = []"
    "(o_con t)\<lparr>m_ec := None\<rparr> = (timed True rng PROCESS_HTTP_REQUEST)\<lparr>m_is_http := True\<rparr>"
    by (simp_all add: t_def s timed_def new_connection_def)
  moreover have "m_status_code (page_response agent) = 200" by (simp add: page_response_def)
  ultimately show ?thesis unfolding step
    by (simp add: write_http_response_def Let_def on_con_def write_handshake_def await_def get_raw_def)
qed

text \<open>
  C40. A request that asks for no upgrade, whatever its method, path and body, and whose host is valid, is answered by the
  server of the application with its page: status 200, three headers that let scripts of any origin read it, the
  text and its length. When the page is written the connection is closed, no timer is left, and none of the
  handlers of the application is called for it.
\<close>

theorem page_answered:
  fixes epoch :: int
  assumes "writable_request r" "length (request_raw r) \<le> 16384" "\<not> is_websocket_handshake r"
    and "m_valid (get_uri_from_host r (bytes_of ''http''))" "agent \<noteq> []"
  defines "go \<equiv> hs_do (page_handlers epoch)"
  shows "\<exists>s1 s2 s3. go (Complete 0 None (request_raw r)) (server_waiting rng agent u) = Some s1 \<and>
    o_wire s1 = response_raw (page_response agent) \<and>
    go (Complete 0 None []) s1 = Some s2 \<and> m_session (o_con s2) = session_state.Closed \<and> o_wire s2 = o_wire s1 \<and> o_pending s2 = [] \<and>
    go (Con_event (Shutdown_done None)) s2 = Some s3 \<and> t_calls (o_con s3) = [] \<and> t_timers (o_con s3) = []"
proof -
  obtain s where s: "go (Complete 0 None (request_raw r)) (server_waiting rng agent u) = Some s"
    "o_con s = (timed True rng PROCESS_HTTP_REQUEST)\<lparr>m_is_http := True\<rparr>" "o_pending s = [Write_response]"
    "o_response s = page_response agent" "o_wire s = response_raw (page_response agent)"
    unfolding go_def using page_written [OF assms(1-5)] by blast
  let ?last = "\<lambda>n. (new_connection True rng)\<lparr>t_next_timer := 1, m_internal_state := PROCESS_HTTP_REQUEST,
      m_is_http := True, m_http_state := Http_closed, m_ec := Some (Library W_http_connection_ended),
      m_local_close_code := cs_abnormal_close, m_local_close_reason := error_message (Library W_http_connection_ended),
      m_session := session_state.Closed, t_shutdowns := n\<rparr>"
  let ?s2 = "s\<lparr>o_pending := [], o_con := ?last [Tstat_failed]\<rparr>"
  have "m_status_code (page_response agent) \<noteq> 101" by (simp add: page_response_def)
  then have "go (Complete 0 None []) s = Some ?s2"
    by (simp add: go_def complete_def handle_write_http_response_def completed_def o_state_def o_internal_def s(2,3,4)
        timed_def new_connection_def stop_open_timer_def on_con_def cancel_timer_def terminate_with_def terminate_def
        async_shutdown_def)
  moreover have "go (Con_event (Shutdown_done None)) ?s2 = Some (?s2\<lparr>o_con := ?last []\<rparr>)"
    by (simp add: go_def handle_terminate_def call_def page_handlers_def socket_handlers_def no_handlers_def
        new_connection_def)
  ultimately show ?thesis using s(1,5) by (auto simp: new_connection_def)
qed

theorem page_answered_witness:
  "\<exists>s1 s2. hs_do (page_handlers 7) (Complete 0 None (request_raw sample_request))
       (server_waiting (\<lambda>n. []) (bytes_of ''cam'') sample_uri) = Some s1 \<and>
     o_wire s1 = response_raw (page_response (bytes_of ''cam'')) \<and>
     hs_do (page_handlers 7) (Complete 0 None []) s1 = Some s2 \<and> m_session (o_con s2) = session_state.Closed"
proof -
  have "length (request_raw sample_request) \<le> 16384"
    by (simp add: sample_request_def request_raw_def raw_headers_def header_delimiter_def new_request_def bytes_of_def)
  moreover have h: "get_header sample_request h_host = bytes_of ''cam:9002''"
    by (simp add: sample_request_def get_header_def h_host_def bytes_of_def ci_less_def to_lower_def tolower_def)
  moreover have "get_header sample_request h_upgrade = []"
    by (simp add: sample_request_def get_header_def h_upgrade_def bytes_of_def ci_less_def to_lower_def tolower_def)
  then have "\<not> is_websocket_handshake sample_request"
    by (simp add: is_websocket_handshake_def has_token_def ci_find_substr_def upgrade_token_def bytes_of_def)
  moreover have "atoi (bytes_of ''9002'') = 9002"
    by (simp add: atoi_def signed_digits_def bytes_of_def is_space_def is_digit_def digits_val_def Let_def)
  then have "m_valid (get_uri_from_host sample_request (bytes_of ''http''))"
    by (simp add: get_uri_from_host_def h rfind_def uri_host_port_def get_port_from_string_def bytes_of_def Let_def)
  moreover have "bytes_of ''cam'' \<noteq> []" by (simp add: bytes_of_def)
  ultimately show ?thesis
    using page_answered [OF writable_sample, of "bytes_of ''cam''" 7 "\<lambda>n. []" sample_uri] by blast
qed

end
